(* ===== verification/Prelude.thy ===== *)
theory Prelude
  imports Main "HOL-Library.Word" "HOL-Library.Monad_Syntax"
begin

text \<open>
  What every component shares.

  \<^item> Machine integers: \<open>u8\<close>, \<open>u16\<close>, \<open>u32\<close> for \<open>uint8_t\<close>, \<open>uint16_t\<close>, \<open>uint32_t\<close>.
  \<^item> Undefined behaviour: an operation of the C code returns \<open>None\<close> exactly where the source
    would leave defined C (an index outside its array, a copy past the end of a buffer, an
    \<open>int\<close> that leaves its range). The error codes of the source are ordinary return values.
  \<^item> Arrays are lists; \<open>nth_opt\<close> and \<open>upd_opt\<close> read and write an element with the bounds
    check, \<open>mem_read\<close> and \<open>mem_write\<close> are the two halves of a \<open>memcpy\<close>.
  \<^item> \<open>size_t\<close> subtraction wraps at 64 bits (\<open>usub\<close>); an \<open>int\<close> that the code keeps
    non-negative is a natural number checked against \<open>INT_MAX\<close> (\<open>to_int\<close>).
  \<^item> The collection \<open>ub_simps\<close> evaluates these primitives where they are in range.
\<close>

unbundle bit_operations_syntax

named_theorems ub_simps \<open>evaluation of the checked memory primitives\<close>
named_theorems c_consts \<open>values of the preprocessor constants\<close>

type_synonym u8 = "8 word"
type_synonym u16 = "16 word"
type_synonym u32 = "32 word"

lemma div_mod_eqI: "(i :: nat) div n = j div n \<Longrightarrow> i = j \<longleftrightarrow> i mod n = j mod n"
  by (metis div_mult_mod_eq)

lemma Ball_set_update: "\<forall>x \<in> set xs. P x \<Longrightarrow> P y \<Longrightarrow> \<forall>x \<in> set (xs[i := y]). P x"
  using set_update_subset_insert [of xs i y] by auto

section \<open>Checked memory primitives\<close>

definition nth_opt :: "'a list \<Rightarrow> nat \<Rightarrow> 'a option" where
  "nth_opt xs i = (if i < length xs then Some (xs ! i) else None)"

definition upd_opt :: "'a list \<Rightarrow> nat \<Rightarrow> 'a \<Rightarrow> 'a list option" where
  "upd_opt xs i v = (if i < length xs then Some (xs[i := v]) else None)"

definition mem_read :: "'a list \<Rightarrow> nat \<Rightarrow> nat \<Rightarrow> 'a list option" where
  "mem_read buf off n = (if off + n \<le> length buf then Some (take n (drop off buf)) else None)"

definition overlay :: "nat \<Rightarrow> 'a list \<Rightarrow> 'a list \<Rightarrow> 'a list" where
  "overlay off bs buf = take off buf @ bs @ drop (off + length bs) buf"

definition mem_write :: "'a list \<Rightarrow> nat \<Rightarrow> 'a list \<Rightarrow> 'a list option" where
  "mem_write buf off bs = (if off + length bs \<le> length buf then Some (overlay off bs buf) else None)"

lemma nth_opt_in [ub_simps]: "i < length xs \<Longrightarrow> nth_opt xs i = Some (xs ! i)"
  by (simp add: nth_opt_def)

lemma nth_opt_eq_Some: "nth_opt xs i = Some x \<longleftrightarrow> i < length xs \<and> xs ! i = x"
  by (simp add: nth_opt_def)

lemma upd_opt_in [ub_simps]: "i < length xs \<Longrightarrow> upd_opt xs i v = Some (xs[i := v])"
  by (simp add: upd_opt_def)

lemma upd_opt_eq_Some: "upd_opt xs i v = Some ys \<longleftrightarrow> i < length xs \<and> ys = xs[i := v]"
  by (auto simp: upd_opt_def)

lemma mem_read_in [ub_simps]:
  "off + n \<le> length buf \<Longrightarrow> mem_read buf off n = Some (take n (drop off buf))"
  by (simp add: mem_read_def)

lemma mem_write_in [ub_simps]:
  "off + length bs \<le> length buf \<Longrightarrow> mem_write buf off bs = Some (overlay off bs buf)"
  by (simp add: mem_write_def)

lemma length_overlay [simp]:
  "off + length bs \<le> length buf \<Longrightarrow> length (overlay off bs buf) = length buf"
  by (simp add: overlay_def)

lemma nth_overlay:
  assumes "off + length bs \<le> length buf" and "i < length buf"
  shows "overlay off bs buf ! i =
    (if off \<le> i \<and> i < off + length bs then bs ! (i - off) else buf ! i)"
  using assms by (auto simp: overlay_def nth_append min_def)

lemma take_overlay: "off \<le> length buf \<Longrightarrow> take off (overlay off bs buf) = take off buf"
  by (simp add: overlay_def min_def)

lemma overlay_0: "length bs \<le> length buf \<Longrightarrow> overlay 0 bs buf = bs @ drop (length bs) buf"
  by (simp add: overlay_def)

lemma overlay_Nil [simp]: "overlay off [] buf = buf"
  by (simp add: overlay_def)

text \<open>Two copies that abut are one copy of the concatenation.\<close>

lemma overlay_overlay:
  assumes "off + length as \<le> length buf"
  shows "overlay (off + length as) bs (overlay off as buf) = overlay off (as @ bs) buf"
proof -
  have "take (off + length as) (overlay off as buf) = take off buf @ as"
    and "drop (off + length as + length bs) (overlay off as buf)
      = drop (off + length as + length bs) buf"
    using assms by (simp_all add: overlay_def min_absorb2 add.commute add.left_commute)
  then show ?thesis
    unfolding overlay_def [of "off + length as"] by (simp add: overlay_def add.assoc)
qed

section \<open>Integers of the C types\<close>

definition usub :: "nat \<Rightarrow> nat \<Rightarrow> nat" where
  "usub a b = (a + 2 ^ 64 - b) mod 2 ^ 64"

lemma usub_le [ub_simps]: "b \<le> a \<Longrightarrow> a < 2 ^ 64 \<Longrightarrow> usub a b = a - b"
proof -
  assume le: "b \<le> a" and lt: "a < 2 ^ 64"
  have "a + 2 ^ 64 - b = (a - b) + 2 ^ 64" using le by (rule diff_add_assoc2)
  moreover have "a - b < 2 ^ 64" using lt by (rule less_imp_diff_less)
  ultimately show ?thesis by (simp only: usub_def mod_add_self2 mod_less)
qed

definition to_int :: "nat \<Rightarrow> nat option" where
  "to_int n = (if n < 2 ^ 31 then Some n else None)"

lemma to_int_in [ub_simps]: "n < 2 ^ 31 \<Longrightarrow> to_int n = Some n"
  by (simp add: to_int_def)

lemma unat_u16_bound [simp]: "unat (w :: u16) < 65536"
  using unsigned_less [of w, where 'a = nat] by simp

lemma unat_of_nat_u16 [simp]: "n < 65536 \<Longrightarrow> unat (of_nat n :: u16) = n"
  by (simp add: unat_of_nat)

lemma u16_eq_iff: "(v :: u16) = w \<longleftrightarrow> unat v = unat w"
  by (simp add: word_unat_eq_iff)

lemma Option_bind_eq_Some_conv:
  "Option.bind m f = Some y \<longleftrightarrow> (\<exists>x. m = Some x \<and> f x = Some y)"
  by (cases m) auto


lemma bind_sum_eq_Some:
  "Option.bind m (\<lambda>x. case x of Inl a \<Rightarrow> f a | Inr b \<Rightarrow> g b) = Some y \<longleftrightarrow>
    (\<exists>a. m = Some (Inl a) \<and> f a = Some y) \<or> (\<exists>b. m = Some (Inr b) \<and> g b = Some y)"
  by (cases m) (auto split: sum.splits)

section \<open>Postconditions\<close>

text \<open>Postconditions of operations that may be undefined, and the rules that follow the shape of their code.\<close>

definition ensures :: "('a \<Rightarrow> bool) \<Rightarrow> 'a option \<Rightarrow> bool" where
  "ensures P m \<longleftrightarrow> (\<forall>y. m = Some y \<longrightarrow> P y)"

lemma ensuresD: "ensures P m \<Longrightarrow> m = Some y \<Longrightarrow> P y"
  by (simp add: ensures_def)

lemma ensures_intros:
  "P y \<Longrightarrow> ensures P (Some y)"
  "ensures P None"
  "(\<And>z. n = Some z \<Longrightarrow> ensures P (f z)) \<Longrightarrow> ensures P (Option.bind n f)"
  "(b \<Longrightarrow> ensures P m) \<Longrightarrow> (\<not> b \<Longrightarrow> ensures P m') \<Longrightarrow> ensures P (if b then m else m')"
  "(\<And>a b. x = (a, b) \<Longrightarrow> ensures P (g a b)) \<Longrightarrow> ensures P (case x of (a, b) \<Rightarrow> g a b)"
  "(c = None \<Longrightarrow> ensures P m) \<Longrightarrow> (\<And>d. c = Some d \<Longrightarrow> ensures P (h d)) \<Longrightarrow> ensures P (case c of None \<Rightarrow> m | Some d \<Rightarrow> h d)"
  by (auto simp: ensures_def Option_bind_eq_Some_conv split: prod.splits option.splits)

end
