(* ===== verification/Bitmap.thy ===== *)
theory Bitmap
  imports Prelude
begin

text \<open>
  The bitmaps of \<^verbatim>\<open>src/file_systems/src/fs.c\<close>: \<open>get_bit\<close>, \<open>set_bit_bm\<close>, \<open>clear_bit\<close> and
  \<open>find_free_bit\<close> on a byte array, with the block count of \<^verbatim>\<open>disk.h\<close>. The abstraction
  \<open>bitset\<close> is the set of indices whose bit is set; the locale \<open>bit_allocator\<close> states what the
  file system relies on and is interpreted on these four functions.
\<close>

definition DISK_BLOCKS :: nat where
  "DISK_BLOCKS = 8192"

declare DISK_BLOCKS_def [c_consts]

definition get_bit :: "u16 \<Rightarrow> u8 list \<Rightarrow> u8 option" where
  "get_bit offset bitmap = do {
     char_in_bitmap \<leftarrow> nth_opt bitmap (unat offset div 8);
     Some (drop_bit (unat offset mod 8) char_in_bitmap AND 1) }"

definition set_bit_bm :: "u16 \<Rightarrow> u8 list \<Rightarrow> u8 list option" where
  "set_bit_bm offset bitmap = do {
     c \<leftarrow> nth_opt bitmap (unat offset div 8);
     upd_opt bitmap (unat offset div 8) (c OR push_bit (unat offset mod 8) 1) }"

definition clear_bit :: "u16 \<Rightarrow> u8 list \<Rightarrow> u8 list option" where
  "clear_bit offset bitmap = do {
     c \<leftarrow> nth_opt bitmap (unat offset div 8);
     upd_opt bitmap (unat offset div 8) (c AND NOT (push_bit (unat offset mod 8) 1)) }"

function find_free_bit_from :: "nat \<Rightarrow> u8 list \<Rightarrow> u16 option" where
  "find_free_bit_from i bitmap =
     (if i < DISK_BLOCKS then do {
        b \<leftarrow> get_bit (of_nat i) bitmap;
        if b = 0 then Some (of_nat i) else find_free_bit_from (Suc i) bitmap }
      else Some 0)"
  by pat_completeness auto
termination
  by (relation "measure (\<lambda>(i, bitmap). DISK_BLOCKS - i)") auto

declare find_free_bit_from.simps [simp del]

definition find_free_bit :: "u8 list \<Rightarrow> u16 option" where
  "find_free_bit bitmap = find_free_bit_from 0 bitmap"

section \<open>The set a bitmap stands for\<close>

definition bitset :: "u8 list \<Rightarrow> nat set" where
  "bitset bm = {i. i < 8 * length bm \<and> bit (bm ! (i div 8)) (i mod 8)}"

lemma div8_less: "i < 8 * n \<Longrightarrow> i div 8 < (n :: nat)"
  by (simp add: less_mult_imp_div_less mult.commute)

lemma get_bit_in:
  assumes "unat k < 8 * length bm"
  shows "get_bit k bm = Some (of_bool (unat k \<in> bitset bm))"
proof -
  have "drop_bit n c AND 1 = (of_bool (bit c n) :: u8)" for n and c :: u8
    by (simp add: bit_iff_odd_drop_bit and_one_eq mod2_eq_if)
  with assms show ?thesis
    by (simp add: get_bit_def bitset_def div8_less nth_opt_in)
qed

lemma set_bit_bm_in:
  assumes "unat k < 8 * length bm"
  shows "\<exists>bm'. set_bit_bm k bm = Some bm' \<and> length bm' = length bm \<and> bitset bm' = insert (unat k) (bitset bm)"
proof -
  let ?j = "unat k div 8"
  let ?bm' = "bm[?j := bm ! ?j OR push_bit (unat k mod 8) 1]"
  have j: "?j < length bm" using assms by (rule div8_less)
  have "bit (?bm' ! (i div 8)) (i mod 8) \<longleftrightarrow> i = unat k \<or> bit (bm ! (i div 8)) (i mod 8)"
    if "i < 8 * length bm" for i
  proof (cases "i div 8 = ?j")
    case True
    then have "i = unat k \<longleftrightarrow> i mod 8 = unat k mod 8" by (rule div_mod_eqI)
    with True j show ?thesis
      by (auto simp: bit_or_iff bit_exp_iff possible_bit_def)
  next
    case False
    then have "i \<noteq> unat k" by auto
    with False show ?thesis by simp
  qed
  then have "bitset ?bm' = insert (unat k) (bitset bm)"
    using assms by (auto simp: bitset_def)
  with j show ?thesis by (simp add: set_bit_bm_def nth_opt_in upd_opt_in)
qed

lemma clear_bit_in:
  assumes "unat k < 8 * length bm"
  shows "\<exists>bm'. clear_bit k bm = Some bm' \<and> length bm' = length bm \<and> bitset bm' = bitset bm - {unat k}"
proof -
  let ?j = "unat k div 8"
  let ?bm' = "bm[?j := bm ! ?j AND NOT (push_bit (unat k mod 8) 1)]"
  have j: "?j < length bm" using assms by (rule div8_less)
  have "bit (?bm' ! (i div 8)) (i mod 8) \<longleftrightarrow> i \<noteq> unat k \<and> bit (bm ! (i div 8)) (i mod 8)"
    if "i < 8 * length bm" for i
  proof (cases "i div 8 = ?j")
    case True
    then have "i = unat k \<longleftrightarrow> i mod 8 = unat k mod 8" by (rule div_mod_eqI)
    with True j show ?thesis
      by (auto simp: bit_and_iff bit_not_iff bit_exp_iff possible_bit_def)
  next
    case False
    then have "i \<noteq> unat k" by auto
    with False show ?thesis by simp
  qed
  then have "bitset ?bm' = bitset bm - {unat k}"
    by (auto simp: bitset_def)
  with j show ?thesis by (simp add: clear_bit_def nth_opt_in upd_opt_in)
qed

lemma finite_bitset [simp]: "finite (bitset bm)"
  by (simp add: bitset_def)

lemma bitset_bound: "i \<in> bitset bm \<Longrightarrow> i < 8 * length bm"
  by (simp add: bitset_def)

lemma bitset_zeros [simp]: "bitset (replicate n 0) = {}"
  by (auto simp: bitset_def div8_less)

text \<open>The search loop from index \<open>i\<close>: the least free index from \<open>i\<close> on, or 0 when there is none.\<close>

lemma find_free_bit_from_spec:
  assumes "8 * length bm = DISK_BLOCKS"
  shows "\<exists>k. find_free_bit_from i bm = Some k \<and>
    (unat k < DISK_BLOCKS \<and> unat k \<notin> bitset bm \<and> i \<le> unat k \<and> {i..<unat k} \<subseteq> bitset bm
     \<or> k = 0 \<and> {i..<DISK_BLOCKS} \<subseteq> bitset bm)"
  using assms
proof (induction i bm rule: find_free_bit_from.induct)
  case (1 i bm)
  show ?case
  proof (cases "i < DISK_BLOCKS")
    case False
    then show ?thesis by (simp add: find_free_bit_from.simps [of i bm])
  next
    case i: True
    then have u: "unat (of_nat i :: u16) = i" by (simp add: DISK_BLOCKS_def)
    have g: "get_bit (of_nat i) bm = Some (of_bool (i \<in> bitset bm))"
      using get_bit_in [of "of_nat i" bm] i 1(2) u by simp
    show ?thesis
    proof (cases "i \<in> bitset bm")
      case False
      with i g u show ?thesis by (simp add: find_free_bit_from.simps [of i bm])
    next
      case True
      from i g True have step: "find_free_bit_from i bm = find_free_bit_from (Suc i) bm"
        by (simp add: find_free_bit_from.simps [of i bm])
      from 1(1) [OF i g] True 1(2) obtain k where k: "find_free_bit_from (Suc i) bm = Some k"
        and or: "unat k < DISK_BLOCKS \<and> unat k \<notin> bitset bm \<and> Suc i \<le> unat k
          \<and> {Suc i..<unat k} \<subseteq> bitset bm \<or> k = 0 \<and> {Suc i..<DISK_BLOCKS} \<subseteq> bitset bm"
        by auto
      have ext: "{Suc i..<n} \<subseteq> bitset bm \<Longrightarrow> {i..<n} \<subseteq> bitset bm" for n
      proof -
        assume "{Suc i..<n} \<subseteq> bitset bm"
        moreover have "{i..<n} \<subseteq> insert i {Suc i..<n}" by auto
        ultimately show ?thesis using True by auto
      qed
      from or ext k step show ?thesis by auto
    qed
  qed
qed

lemma find_free_bit_spec:
  assumes "8 * length bm = DISK_BLOCKS"
  shows "\<exists>k. find_free_bit bm = Some k \<and>
    (unat k < DISK_BLOCKS \<and> unat k \<notin> bitset bm \<and> {..<unat k} \<subseteq> bitset bm
     \<or> k = 0 \<and> {..<DISK_BLOCKS} \<subseteq> bitset bm)"
  using find_free_bit_from_spec [OF assms, of 0]
  by (simp add: find_free_bit_def lessThan_atLeast0)

section \<open>The allocator interface\<close>

locale bit_allocator =
  fixes test :: "u16 \<Rightarrow> 'b \<Rightarrow> u8 option"
    and mark :: "u16 \<Rightarrow> 'b \<Rightarrow> 'b option"
    and release :: "u16 \<Rightarrow> 'b \<Rightarrow> 'b option"
    and find :: "'b \<Rightarrow> u16 option"
    and used :: "'b \<Rightarrow> nat set"
    and cap :: "'b \<Rightarrow> nat"
  assumes test_law: "unat k < cap b \<Longrightarrow> test k b = Some (of_bool (unat k \<in> used b))"
    and mark_law: "unat k < cap b \<Longrightarrow>
      \<exists>b'. mark k b = Some b' \<and> cap b' = cap b \<and> used b' = insert (unat k) (used b)"
    and release_law: "unat k < cap b \<Longrightarrow>
      \<exists>b'. release k b = Some b' \<and> cap b' = cap b \<and> used b' = used b - {unat k}"
    and find_law: "cap b = DISK_BLOCKS \<Longrightarrow> \<exists>k. find b = Some k \<and>
      (unat k < DISK_BLOCKS \<and> unat k \<notin> used b \<and> {..<unat k} \<subseteq> used b
       \<or> k = 0 \<and> {..<DISK_BLOCKS} \<subseteq> used b)"
begin

text \<open>With index 0 reserved, a zero answer of the search means that nothing is free.\<close>

lemma find_zero_iff_full:
  assumes "cap b = DISK_BLOCKS" and "0 \<in> used b" and "find b = Some k"
  shows "k = 0 \<longleftrightarrow> {..<DISK_BLOCKS} \<subseteq> used b"
  using find_law [OF assms(1)] assms(2,3) by auto

lemma find_total: "cap b = DISK_BLOCKS \<Longrightarrow> \<exists>k. find b = Some k"
  using find_law by blast

lemma find_free:
  assumes "cap b = DISK_BLOCKS" and "0 \<in> used b" and "find b = Some k" and "k \<noteq> 0"
  shows "unat k < DISK_BLOCKS \<and> unat k \<notin> used b"
  using find_law [OF assms(1)] assms(2-4) by auto

lemma markD:
  assumes "unat k < cap b" and "mark k b = Some b'"
  shows "cap b' = cap b \<and> used b' = insert (unat k) (used b)"
  using mark_law [OF assms(1)] assms(2) by auto

lemma releaseD:
  assumes "unat k < cap b" and "release k b = Some b'"
  shows "cap b' = cap b \<and> used b' = used b - {unat k}"
  using release_law [OF assms(1)] assms(2) by auto

text \<open>Allocating takes a free index and nothing else; releasing it gives the old set back.\<close>

lemma alloc_fresh:
  assumes "cap b = DISK_BLOCKS" and "0 \<in> used b" and "find b = Some k" and "k \<noteq> 0"
  shows "\<exists>b'. mark k b = Some b' \<and> cap b' = DISK_BLOCKS \<and>
    unat k \<notin> used b \<and> used b' = insert (unat k) (used b)"
  using find_free [OF assms] mark_law [of k b] assms(1) by auto

lemma alloc_release:
  assumes "cap b = DISK_BLOCKS" and "0 \<in> used b" and "find b = Some k" and "k \<noteq> 0"
    and "mark k b = Some b'"
  shows "\<exists>b''. release k b' = Some b'' \<and> used b'' = used b"
proof -
  from find_free [OF assms(1-4)] have k: "unat k < cap b" "unat k \<notin> used b"
    using assms(1) by auto
  from markD [OF k(1) assms(5)] k release_law [of k b'] show ?thesis by auto
qed

end

interpretation bm: bit_allocator get_bit set_bit_bm clear_bit find_free_bit bitset "\<lambda>b. 8 * length b"
proof unfold_locales
  fix b :: "u8 list"
  show "8 * length b = DISK_BLOCKS \<Longrightarrow> \<exists>k. find_free_bit b = Some k \<and>
      (unat k < DISK_BLOCKS \<and> unat k \<notin> bitset b \<and> {..<unat k} \<subseteq> bitset b
       \<or> k = 0 \<and> {..<DISK_BLOCKS} \<subseteq> bitset b)"
    by (rule find_free_bit_spec)
qed (use get_bit_in set_bit_bm_in clear_bit_in in auto)

end
