(* ===== verification/Layout.thy ===== *)
theory Layout
  imports Bitmap
begin

text \<open>
  The on-disk structures of \<^verbatim>\<open>src/file_systems/src/fs.h\<close> and their byte images as the
  \<open>memcpy\<close> calls of \<^verbatim>\<open>fs.c\<close> see them on the build target (x86-64, little endian, natural
  alignment): \<open>struct superblock\<close> is 18 bytes, \<open>struct dir_entry\<close> 20 (one padding byte before
  \<open>inode_number\<close>), \<open>struct inode\<close> 60 (one padding byte before \<open>file_size\<close>). C leaves the
  padding byte unspecified, so the encoders take it as an argument and the decoders ignore it.
  The lemmas are the round trips of every structure and of the tables of 64 entries.
\<close>

definition BLOCK_SIZE :: nat where
  "BLOCK_SIZE = 4096"

definition MAX_NUM_FILES :: nat where
  "MAX_NUM_FILES = 64"

definition MAX_NUM_FD :: nat where
  "MAX_NUM_FD = 32"

definition MAX_FILENAME_LEN :: nat where
  "MAX_FILENAME_LEN = 15"

definition MAX_FILE_SIZE :: nat where
  "MAX_FILE_SIZE = 2 ^ 20"

definition NUM_DIRECT_BLOCKS :: nat where
  "NUM_DIRECT_BLOCKS = 25"

declare BLOCK_SIZE_def [c_consts] MAX_NUM_FILES_def [c_consts] MAX_NUM_FD_def [c_consts]
declare MAX_FILENAME_LEN_def [c_consts] MAX_FILE_SIZE_def [c_consts] NUM_DIRECT_BLOCKS_def [c_consts]

record superblock =
  data_block_offset :: u16
  block_bitmap_size :: u16
  block_bitmap_offset :: u16
  inode_bitmap_size :: u16
  inode_bitmap_offset :: u16
  inode_size :: u16
  inode_offset :: u16
  dir_entry_offset :: u16
  dir_entry_size :: u16

record inode =
  inode_number :: u16
  file_type :: u8
  file_size :: u32
  direct_block :: "u16 list"
  single_indirect_block :: u16

record dir_entry =
  de_is_used :: u8
  de_name :: "u8 list"
  de_inode_number :: u16

record f_desc =
  fd_is_used :: bool
  fd_inode_number :: u16
  fd_offset :: nat

section \<open>Little-endian integers\<close>

definition enc16 :: "u16 \<Rightarrow> u8 list" where
  "enc16 w = [ucast w, ucast (drop_bit 8 w)]"

definition dec16 :: "u8 list \<Rightarrow> u16" where
  "dec16 bs = ucast (bs ! 0) OR push_bit 8 (ucast (bs ! 1))"

definition enc32 :: "u32 \<Rightarrow> u8 list" where
  "enc32 w = [ucast w, ucast (drop_bit 8 w), ucast (drop_bit 16 w), ucast (drop_bit 24 w)]"

definition dec32 :: "u8 list \<Rightarrow> u32" where
  "dec32 bs = ucast (bs ! 0) OR push_bit 8 (ucast (bs ! 1))
     OR push_bit 16 (ucast (bs ! 2)) OR push_bit 24 (ucast (bs ! 3))"

definition enc16s :: "u16 list \<Rightarrow> u8 list" where
  "enc16s ws = concat (map enc16 ws)"

definition dec16s :: "nat \<Rightarrow> u8 list \<Rightarrow> u16 list" where
  "dec16s n bs = map (\<lambda>i. dec16 (drop (2 * i) bs)) [0..<n]"

lemma length_enc16 [simp]: "length (enc16 w) = 2"
  by (simp add: enc16_def)

lemma length_enc32 [simp]: "length (enc32 w) = 4"
  by (simp add: enc32_def)

lemma length_enc16s [simp]: "length (enc16s ws) = 2 * length ws"
  by (induction ws) (simp_all add: enc16s_def)

lemma length_dec16s [simp]: "length (dec16s n bs) = n"
  by (simp add: dec16s_def)

lemma dec16_enc16 [simp]: "dec16 (enc16 w @ rest) = w"
proof (rule bit_word_eqI)
  fix n
  assume "n < LENGTH(16)"
  then show "bit (dec16 (enc16 w @ rest)) n = bit w n"
    by (cases "n < 8")
      (auto simp: dec16_def enc16_def bit_or_iff bit_push_bit_iff bit_unsigned_iff bit_drop_bit_eq)
qed

lemma dec16_enc16_Nil [simp]: "dec16 (enc16 w) = w"
  using dec16_enc16 [of w "[]"] by simp

lemma enc16_dec16:
  assumes "length bs = 2"
  shows "enc16 (dec16 bs) = bs"
proof -
  from assms obtain a b where bs: "bs = [a, b]"
    by (auto simp: length_Suc_conv numeral_2_eq_2)
  have "ucast (dec16 [a, b]) = a"
    by (rule bit_word_eqI)
      (auto simp: dec16_def bit_or_iff bit_push_bit_iff bit_unsigned_iff)
  moreover have "ucast (drop_bit 8 (dec16 [a, b])) = b"
    by (rule bit_word_eqI)
      (auto simp: dec16_def bit_or_iff bit_push_bit_iff bit_unsigned_iff bit_drop_bit_eq
        dest: bit_imp_le_length)
  ultimately show ?thesis by (simp add: bs enc16_def)
qed

lemma dec32_enc32 [simp]: "dec32 (enc32 w @ rest) = w"
proof (rule bit_word_eqI)
  fix n
  assume "n < LENGTH(32)"
  then consider "n < 8" | "8 \<le> n" "n < 16" | "16 \<le> n" "n < 24" | "24 \<le> n" "n < 32"
    by fastforce
  then show "bit (dec32 (enc32 w @ rest)) n = bit w n"
    by cases
      (auto simp: dec32_def enc32_def bit_or_iff bit_push_bit_iff bit_unsigned_iff bit_drop_bit_eq)
qed

section \<open>Chunks of a fixed size\<close>

lemma drop_concat_chunks:
  assumes "\<forall>x \<in> set xs. length x = k"
  shows "drop (i * k) (concat xs) = concat (drop i xs)"
  using assms
proof (induction xs arbitrary: i)
  case Nil
  then show ?case by simp
next
  case (Cons x xs)
  then show ?case by (cases i) (simp_all add: add.commute)
qed

lemma length_concat_chunks:
  assumes "\<forall>x \<in> set xs. length x = k"
  shows "length (concat xs) = length xs * k"
  using assms by (induction xs) auto

lemma chunk_of_concat:
  assumes "\<forall>x \<in> set xs. length x = k" and "i < length xs"
  shows "take k (drop (i * k) (concat xs @ rest)) = xs ! i"
proof -
  have "length (concat xs) = length xs * k" by (rule length_concat_chunks [OF assms(1)])
  moreover from assms(2) have "i * k \<le> length xs * k" by simp
  ultimately have "drop (i * k) (concat xs @ rest) = concat (drop i xs) @ rest"
    by (simp add: drop_concat_chunks [OF assms(1)])
  also have "drop i xs = xs ! i # drop (Suc i) xs"
    by (rule Cons_nth_drop_Suc [OF assms(2), symmetric])
  finally show ?thesis using assms by simp
qed

lemma dec16_take: "2 \<le> n \<Longrightarrow> dec16 (take n bs) = dec16 bs"
  by (simp add: dec16_def)

lemma dec16s_enc16s [simp]:
  assumes "length ws = n"
  shows "dec16s n (enc16s ws @ rest) = ws"
proof (rule nth_equalityI)
  show "length (dec16s n (enc16s ws @ rest)) = length ws" using assms by simp
next
  fix i
  assume "i < length (dec16s n (enc16s ws @ rest))"
  then have i: "i < n" by simp
  have "take 2 (drop (i * 2) (enc16s ws @ rest)) = map enc16 ws ! i"
    unfolding enc16s_def by (rule chunk_of_concat) (use i assms in auto)
  then have "dec16 (drop (2 * i) (enc16s ws @ rest)) = dec16 (enc16 (ws ! i) @ [])"
    using i assms dec16_take [of 2 "drop (2 * i) (enc16s ws @ rest)"]
    by (simp add: mult.commute)
  then show "dec16s n (enc16s ws @ rest) ! i = ws ! i"
    using i by (simp add: dec16s_def)
qed

lemma enc16s_dec16s:
  assumes "length bs = 2 * n"
  shows "enc16s (dec16s n bs) = bs"
  using assms
proof (induction n arbitrary: bs)
  case 0
  then show ?case by (simp add: enc16s_def dec16s_def)
next
  case (Suc n)
  then have "length (drop 2 bs) = 2 * n" by simp
  from Suc.IH [OF this] have IH: "enc16s (dec16s n (drop 2 bs)) = drop 2 bs" .
  have "dec16s (Suc n) bs = dec16 (take 2 bs) # dec16s n (drop 2 bs)"
    unfolding dec16s_def upt_conv_Cons [OF zero_less_Suc] map_Suc_upt [symmetric]
    by (simp add: dec16_take add.commute)
  then have "enc16s (dec16s (Suc n) bs) = enc16 (dec16 (take 2 bs)) @ drop 2 bs"
    using IH by (simp add: enc16s_def)
  also have "enc16 (dec16 (take 2 bs)) = take 2 bs"
    by (rule enc16_dec16) (use Suc.prems in simp)
  finally show ?case by simp
qed

section \<open>Structures\<close>

definition sizeof_superblock :: nat where
  "sizeof_superblock = 18"

definition sizeof_dir_entry :: nat where
  "sizeof_dir_entry = 20"

definition sizeof_inode :: nat where
  "sizeof_inode = 60"

declare sizeof_superblock_def [c_consts] sizeof_dir_entry_def [c_consts] sizeof_inode_def [c_consts]

definition enc_superblock :: "superblock \<Rightarrow> u8 list" where
  "enc_superblock b = enc16s [data_block_offset b, block_bitmap_size b, block_bitmap_offset b,
     inode_bitmap_size b, inode_bitmap_offset b, inode_size b, inode_offset b,
     dir_entry_offset b, dir_entry_size b]"

definition dec_superblock :: "u8 list \<Rightarrow> superblock" where
  "dec_superblock bs = (let w = dec16s 9 bs in
     \<lparr>data_block_offset = w ! 0, block_bitmap_size = w ! 1, block_bitmap_offset = w ! 2,
      inode_bitmap_size = w ! 3, inode_bitmap_offset = w ! 4, inode_size = w ! 5,
      inode_offset = w ! 6, dir_entry_offset = w ! 7, dir_entry_size = w ! 8\<rparr>)"

definition enc_dir_entry :: "u8 \<Rightarrow> dir_entry \<Rightarrow> u8 list" where
  "enc_dir_entry pad e = de_is_used e # de_name e @ pad # enc16 (de_inode_number e)"

definition dec_dir_entry :: "u8 list \<Rightarrow> dir_entry" where
  "dec_dir_entry bs =
     \<lparr>de_is_used = bs ! 0, de_name = take (MAX_FILENAME_LEN + 1) (drop 1 bs),
      de_inode_number = dec16 (drop 18 bs)\<rparr>"

definition enc_inode :: "u8 \<Rightarrow> inode \<Rightarrow> u8 list" where
  "enc_inode pad n = enc16 (inode_number n) @ [file_type n, pad] @ enc32 (file_size n)
     @ enc16s (direct_block n) @ enc16 (single_indirect_block n)"

definition dec_inode :: "u8 list \<Rightarrow> inode" where
  "dec_inode bs =
     \<lparr>inode_number = dec16 bs, file_type = bs ! 2, file_size = dec32 (drop 4 bs),
      direct_block = dec16s NUM_DIRECT_BLOCKS (drop 8 bs),
      single_indirect_block = dec16 (drop 58 bs)\<rparr>"

text \<open>The array bounds of the C declarations, as predicates on the lists that model them.\<close>

definition dir_entry_ok :: "dir_entry \<Rightarrow> bool" where
  "dir_entry_ok e \<longleftrightarrow> length (de_name e) = MAX_FILENAME_LEN + 1"

definition inode_ok :: "inode \<Rightarrow> bool" where
  "inode_ok n \<longleftrightarrow> length (direct_block n) = NUM_DIRECT_BLOCKS"

lemma length_enc_superblock [simp]: "length (enc_superblock b) = sizeof_superblock"
  by (simp add: enc_superblock_def sizeof_superblock_def)

lemma length_enc_dir_entry [simp]:
  "dir_entry_ok e \<Longrightarrow> length (enc_dir_entry pad e) = sizeof_dir_entry"
  by (simp add: enc_dir_entry_def dir_entry_ok_def c_consts)

lemma length_enc_inode [simp]: "inode_ok n \<Longrightarrow> length (enc_inode pad n) = sizeof_inode"
  by (simp add: enc_inode_def inode_ok_def c_consts)

lemma dec_enc_superblock [simp]: "dec_superblock (enc_superblock b) = b"
proof -
  have "dec16s 9 (enc_superblock b @ []) = [data_block_offset b, block_bitmap_size b,
     block_bitmap_offset b, inode_bitmap_size b, inode_bitmap_offset b, inode_size b,
     inode_offset b, dir_entry_offset b, dir_entry_size b]"
    unfolding enc_superblock_def by (rule dec16s_enc16s) simp
  then show ?thesis by (simp add: dec_superblock_def)
qed

lemma dec_enc_dir_entry [simp]:
  assumes "dir_entry_ok e"
  shows "dec_dir_entry (enc_dir_entry pad e) = e"
proof -
  from assms have "length (de_name e) = 16" by (simp add: dir_entry_ok_def c_consts)
  then show ?thesis by (simp add: dec_dir_entry_def enc_dir_entry_def c_consts)
qed

lemma dec_enc_inode [simp]:
  assumes "inode_ok n"
  shows "dec_inode (enc_inode pad n) = n"
proof -
  from assms have l: "length (direct_block n) = 25" by (simp add: inode_ok_def c_consts)
  have h: "drop 8 (enc_inode pad n) = enc16s (direct_block n) @ enc16 (single_indirect_block n)"
    and t: "drop 58 (enc_inode pad n) = enc16 (single_indirect_block n)"
    and m: "drop 4 (enc_inode pad n)
      = enc32 (file_size n) @ enc16s (direct_block n) @ enc16 (single_indirect_block n)"
    and f: "enc_inode pad n ! 2 = file_type n"
    using l by (simp_all add: enc_inode_def nth_append)
  have i: "dec16 (enc_inode pad n) = inode_number n"
    by (simp add: enc_inode_def)
  have d: "dec16s NUM_DIRECT_BLOCKS (drop 8 (enc_inode pad n)) = direct_block n"
    unfolding h by (rule dec16s_enc16s) (use l in \<open>simp add: c_consts\<close>)
  show ?thesis
    unfolding dec_inode_def f m t i d by simp
qed

section \<open>Tables of structures\<close>

text \<open>
  \<open>for (i = ...) memcpy(block + i * sz, &tab[i], sz)\<close> and its inverse
  \<open>memcpy(tab, block, n * sz)\<close>.
\<close>

fun put_table :: "nat \<Rightarrow> ('a \<Rightarrow> u8 list) \<Rightarrow> 'a list \<Rightarrow> nat \<Rightarrow> u8 list \<Rightarrow> u8 list option" where
  "put_table sz enc [] i block = Some block"
| "put_table sz enc (x # xs) i block = do {
     block \<leftarrow> mem_write block (i * sz) (enc x);
     put_table sz enc xs (Suc i) block }"

definition get_table :: "nat \<Rightarrow> (u8 list \<Rightarrow> 'a) \<Rightarrow> nat \<Rightarrow> u8 list \<Rightarrow> 'a list option" where
  "get_table sz dec n block = do {
     raw \<leftarrow> mem_read block 0 (n * sz);
     Some (map (\<lambda>i. dec (take sz (drop (i * sz) raw))) [0..<n]) }"

lemma put_table_eq:
  assumes "\<forall>x \<in> set xs. length (enc x) = sz" and "(i + length xs) * sz \<le> length block"
  shows "put_table sz enc xs i block = Some (overlay (i * sz) (concat (map enc xs)) block)"
  using assms
proof (induction xs arbitrary: i block)
  case Nil
  then show ?case by simp
next
  case (Cons x xs)
  have len: "length (enc x) = sz" and fit: "i * sz + sz \<le> length block"
    using Cons.prems by (auto simp: algebra_simps)
  let ?b = "overlay (i * sz) (enc x) block"
  have "put_table sz enc xs (Suc i) ?b = Some (overlay (Suc i * sz) (concat (map enc xs)) ?b)"
    using Cons.prems len fit by (intro Cons.IH) (auto simp: algebra_simps)
  moreover have "overlay (Suc i * sz) (concat (map enc xs)) ?b
      = overlay (i * sz) (concat (map enc (x # xs))) block"
    using overlay_overlay [of "i * sz" "enc x" block "concat (map enc xs)"] len fit
    by (simp add: add.commute)
  ultimately show ?case using len fit by (simp add: mem_write_in)
qed

lemma length_concat_map_enc:
  "\<forall>x \<in> set xs. length (enc x) = sz \<Longrightarrow> length (concat (map enc xs)) = length xs * sz"
  using length_concat_chunks [of "map enc xs" sz] by simp

lemma get_put_table:
  assumes "\<forall>x \<in> set xs. length (enc x) = sz \<and> dec (enc x) = x" and "length xs = n"
    and "n * sz \<le> length block"
  shows "get_table sz dec n (overlay 0 (concat (map enc xs)) block) = Some xs"
proof -
  let ?cs = "map enc xs"
  have cs: "\<forall>c \<in> set ?cs. length c = sz" using assms(1) by auto
  have len: "length (concat ?cs) = n * sz"
    using length_concat_chunks [OF cs] assms(2) by simp
  have "map (\<lambda>i. dec (take sz (drop (i * sz) (concat ?cs @ [])))) [0..<n] = xs"
  proof (rule nth_equalityI)
    fix i
    assume "i < length (map (\<lambda>i. dec (take sz (drop (i * sz) (concat ?cs @ [])))) [0..<n])"
    then have i: "i < n" by simp
    have "take sz (drop (i * sz) (concat ?cs @ [])) = ?cs ! i"
      by (rule chunk_of_concat [OF cs]) (use i assms(2) in simp)
    then show "map (\<lambda>i. dec (take sz (drop (i * sz) (concat ?cs @ [])))) [0..<n] ! i = xs ! i"
      using i assms(1,2) by simp
  qed (use assms(2) in simp)
  then show ?thesis
    using len assms(3) by (simp add: get_table_def mem_read_in overlay_0)
qed

end
