(* ===== verification/Disk_Iface.thy ===== *)
theory Disk_Iface
  imports Layout
begin

text \<open>
  The virtual disk of \<^verbatim>\<open>src/file_systems/src/disk.h\<close>. The repository holds only the header:
  \<^verbatim>\<open>disk.c\<close> is an earlier copy of \<^verbatim>\<open>fs.c\<close> and defines none of the five functions. So the
  disk is a parameter of the file system, a record of the five operations on an unknown state
  \<open>'d\<close>, and what the header documents of them is the locale \<open>disk_dev\<close>: a disk image is a
  function from block numbers to blocks of \<open>BLOCK_SIZE\<close> bytes, \<open>make_disk\<close> creates an empty
  one, and the block operations work on the image that is open.

  The memory disk at the end shows that the contract can be met; witnesses use it.
\<close>

record 'd disk_ops =
  make_disk :: "string \<Rightarrow> 'd \<Rightarrow> int \<times> 'd"
  open_disk :: "string \<Rightarrow> 'd \<Rightarrow> int \<times> 'd"
  close_disk :: "'d \<Rightarrow> int \<times> 'd"
  block_write :: "int \<Rightarrow> u8 list \<Rightarrow> 'd \<Rightarrow> int \<times> 'd"
  block_read :: "int \<Rightarrow> 'd \<Rightarrow> int \<times> u8 list"

definition zero_block :: "u8 list" where
  "zero_block = replicate BLOCK_SIZE 0"

lemma length_zero_block [simp]: "length zero_block = BLOCK_SIZE"
  by (simp add: zero_block_def)

locale disk_dev =
  fixes D :: "'d disk_ops"
    and current :: "'d \<Rightarrow> string option"
    and img :: "'d \<Rightarrow> string \<Rightarrow> (nat \<Rightarrow> u8 list) option"
  assumes img_block: "img d n = Some B \<Longrightarrow> length (B b) = BLOCK_SIZE"
    and make_disk_law: "current d = None \<Longrightarrow>
      \<exists>d'. make_disk D n d = (0, d') \<and> current d' = None \<and>
        img d' = (img d)(n \<mapsto> (\<lambda>_. zero_block))"
    and open_disk_law: "current d = None \<Longrightarrow> img d n = Some B \<Longrightarrow>
      \<exists>d'. open_disk D n d = (0, d') \<and> current d' = Some n \<and> img d' = img d"
    and close_disk_law: "current d = Some n \<Longrightarrow>
      \<exists>d'. close_disk D d = (0, d') \<and> current d' = None \<and> img d' = img d"
    and block_write_law: "current d = Some n \<Longrightarrow> img d n = Some B \<Longrightarrow> b < DISK_BLOCKS \<Longrightarrow>
      length bs = BLOCK_SIZE \<Longrightarrow>
      \<exists>d'. block_write D (int b) bs d = (0, d') \<and> current d' = Some n \<and>
        img d' = (img d)(n \<mapsto> B(b := bs))"
    and block_read_law: "current d = Some n \<Longrightarrow> img d n = Some B \<Longrightarrow> b < DISK_BLOCKS \<Longrightarrow>
      block_read D (int b) d = (0, B b)"
begin

text \<open>A block that was written is read back; the other blocks are as they were.\<close>

lemma read_after_write:
  assumes "current d = Some n" and "img d n = Some B" and "b < DISK_BLOCKS"
    and "length bs = BLOCK_SIZE" and "block_write D (int b) bs d = (rc, d')" and "c < DISK_BLOCKS"
  shows "block_read D (int c) d' = (0, if c = b then bs else B c)"
proof -
  from block_write_law [OF assms(1-4)] assms(5)
  have "current d' = Some n" and "img d' n = Some (B(b := bs))" by auto
  from block_read_law [OF this assms(6)] show ?thesis by simp
qed

end

section \<open>A disk in memory\<close>

record ram =
  ram_files :: "string \<Rightarrow> (nat \<Rightarrow> u8 list) option"
  ram_open :: "string option"

definition fit :: "u8 list \<Rightarrow> u8 list" where
  "fit bs = take BLOCK_SIZE (bs @ zero_block)"

lemma length_fit [simp]: "length (fit bs) = BLOCK_SIZE"
  by (simp add: fit_def)

lemma fit_id [simp]: "length bs = BLOCK_SIZE \<Longrightarrow> fit bs = bs"
  by (simp add: fit_def)

definition ram_image :: "ram \<Rightarrow> string \<Rightarrow> (nat \<Rightarrow> u8 list) option" where
  "ram_image r n = map_option (\<lambda>B b. fit (B b)) (ram_files r n)"

definition ram_ops :: "ram disk_ops" where
  "ram_ops = \<lparr>
     make_disk = (\<lambda>n r. (0, r\<lparr>ram_files := (ram_files r)(n \<mapsto> (\<lambda>_. zero_block))\<rparr>)),
     open_disk = (\<lambda>n r. if ram_open r = None \<and> ram_files r n \<noteq> None
        then (0, r\<lparr>ram_open := Some n\<rparr>) else (- 1, r)),
     close_disk = (\<lambda>r. if ram_open r = None then (- 1, r) else (0, r\<lparr>ram_open := None\<rparr>)),
     block_write = (\<lambda>b bs r. case ram_open r of None \<Rightarrow> (- 1, r) | Some n \<Rightarrow>
        (case ram_files r n of None \<Rightarrow> (- 1, r) | Some B \<Rightarrow>
          if 0 \<le> b \<and> b < int DISK_BLOCKS
          then (0, r\<lparr>ram_files := (ram_files r)(n \<mapsto> B(nat b := fit bs))\<rparr>) else (- 1, r))),
     block_read = (\<lambda>b r. case ram_open r of None \<Rightarrow> (- 1, zero_block) | Some n \<Rightarrow>
        (case ram_files r n of None \<Rightarrow> (- 1, zero_block) | Some B \<Rightarrow>
          if 0 \<le> b \<and> b < int DISK_BLOCKS then (0, fit (B (nat b))) else (- 1, zero_block)))\<rparr>"

interpretation ramd: disk_dev ram_ops ram_open ram_image
proof unfold_locales
  fix d :: ram and n and b :: nat and B bs
  show "ram_image d n = Some B \<Longrightarrow> length (B b) = BLOCK_SIZE"
    by (auto simp: ram_image_def)
  show "ram_open d = None \<Longrightarrow> \<exists>d'. make_disk ram_ops n d = (0, d') \<and> ram_open d' = None \<and>
      ram_image d' = (ram_image d)(n \<mapsto> (\<lambda>_. zero_block))"
    by (auto simp: ram_ops_def ram_image_def fun_eq_iff)
  show "ram_open d = None \<Longrightarrow> ram_image d n = Some B \<Longrightarrow>
      \<exists>d'. open_disk ram_ops n d = (0, d') \<and> ram_open d' = Some n \<and> ram_image d' = ram_image d"
    by (auto simp: ram_ops_def ram_image_def fun_eq_iff)
  show "ram_open d = Some n \<Longrightarrow>
      \<exists>d'. close_disk ram_ops d = (0, d') \<and> ram_open d' = None \<and> ram_image d' = ram_image d"
    by (auto simp: ram_ops_def ram_image_def fun_eq_iff)
  show "ram_open d = Some n \<Longrightarrow> ram_image d n = Some B \<Longrightarrow> b < DISK_BLOCKS \<Longrightarrow>
      length bs = BLOCK_SIZE \<Longrightarrow>
      \<exists>d'. block_write ram_ops (int b) bs d = (0, d') \<and> ram_open d' = Some n \<and>
        ram_image d' = (ram_image d)(n \<mapsto> B(b := bs))"
    by (auto simp: ram_ops_def ram_image_def intro!: ext)
  show "ram_open d = Some n \<Longrightarrow> ram_image d n = Some B \<Longrightarrow> b < DISK_BLOCKS \<Longrightarrow>
      block_read ram_ops (int b) d = (0, B b)"
    by (auto simp: ram_ops_def ram_image_def)
qed

end
