(* ===== verification/Fs_State.thy ===== *)
theory Fs_State
  imports Disk_Iface
begin

text \<open>
  The globals of \<^verbatim>\<open>src/file_systems/src/fs.c\<close> as one record (with the disk state they are
  used with), the calls to the disk lifted to that record, and the type invariant \<open>fs_typed\<close>:
  every list has the length of the C array it models.
\<close>

record 'd fs =
  sb :: superblock
  fd_table :: "f_desc list"
  inode_table :: "inode list"
  dir_table :: "dir_entry list"
  blocks_bitmap :: "u8 list"
  inodes_bitmap :: "u8 list"
  is_fs_mounted :: bool
  disk :: 'd

definition dev_make :: "'d disk_ops \<Rightarrow> string \<Rightarrow> 'd fs \<Rightarrow> int \<times> 'd fs" where
  "dev_make D n s = (let (rc, d) = make_disk D n (disk s) in (rc, s\<lparr>disk := d\<rparr>))"

definition dev_open :: "'d disk_ops \<Rightarrow> string \<Rightarrow> 'd fs \<Rightarrow> int \<times> 'd fs" where
  "dev_open D n s = (let (rc, d) = open_disk D n (disk s) in (rc, s\<lparr>disk := d\<rparr>))"

definition dev_close :: "'d disk_ops \<Rightarrow> 'd fs \<Rightarrow> int \<times> 'd fs" where
  "dev_close D s = (let (rc, d) = close_disk D (disk s) in (rc, s\<lparr>disk := d\<rparr>))"

definition dev_write :: "'d disk_ops \<Rightarrow> u16 \<Rightarrow> u8 list \<Rightarrow> 'd fs \<Rightarrow> int \<times> 'd fs" where
  "dev_write D b bs s = (let (rc, d) = block_write D (int (unat b)) bs (disk s) in (rc, s\<lparr>disk := d\<rparr>))"

definition dev_read :: "'d disk_ops \<Rightarrow> u16 \<Rightarrow> 'd fs \<Rightarrow> int \<times> u8 list" where
  "dev_read D b s = block_read D (int (unat b)) (disk s)"

definition fs_typed :: "'d fs \<Rightarrow> bool" where
  "fs_typed s \<longleftrightarrow>
     length (fd_table s) = MAX_NUM_FD \<and>
     length (inode_table s) = MAX_NUM_FILES \<and>
     length (dir_table s) = MAX_NUM_FILES \<and>
     length (blocks_bitmap s) = 1024 \<and>
     length (inodes_bitmap s) = 8 \<and>
     (\<forall>n \<in> set (inode_table s). inode_ok n) \<and>
     (\<forall>e \<in> set (dir_table s). dir_entry_ok e)"

lemma fs_typed_disk [simp]: "fs_typed (s\<lparr>disk := d\<rparr>) = fs_typed s"
  by (simp add: fs_typed_def)

lemma fs_typedD:
  assumes "fs_typed s"
  shows "length (fd_table s) = 32" and "length (inode_table s) = 64"
    and "length (dir_table s) = 64" and "length (blocks_bitmap s) = 1024"
    and "length (inodes_bitmap s) = 8"
    and "i < 64 \<Longrightarrow> inode_ok (inode_table s ! i)" and "i < 64 \<Longrightarrow> dir_entry_ok (dir_table s ! i)"
  using assms by (auto simp: fs_typed_def c_consts)

text \<open>The disk of a state, with the image named \<open>n\<close> open and \<open>B\<close> its blocks.\<close>

definition mounted_on :: "('d \<Rightarrow> string option) \<Rightarrow> ('d \<Rightarrow> string \<Rightarrow> (nat \<Rightarrow> u8 list) option)
    \<Rightarrow> 'd fs \<Rightarrow> string \<Rightarrow> (nat \<Rightarrow> u8 list) \<Rightarrow> bool" where
  "mounted_on current img s n B \<longleftrightarrow> current (disk s) = Some n \<and> img (disk s) n = Some B"

lemma mounted_on_cong: "disk s = disk t \<Longrightarrow> mounted_on c im s n B = mounted_on c im t n B"
  by (simp add: mounted_on_def)

context disk_dev
begin

lemma mounted_block: "mounted_on current img s n B \<Longrightarrow> length (B b) = BLOCK_SIZE"
  using img_block by (auto simp: mounted_on_def)

lemma dev_read_mounted:
  assumes "mounted_on current img s n B" and "unat b < DISK_BLOCKS"
  shows "dev_read D b s = (0, B (unat b))"
  using block_read_law [of "disk s" n B "unat b"] assms
  by (auto simp: dev_read_def mounted_on_def)

lemma dev_write_mounted:
  assumes "mounted_on current img s n B" and "unat b < DISK_BLOCKS" and "length bs = BLOCK_SIZE"
  shows "\<exists>d'. dev_write D b bs s = (0, s\<lparr>disk := d'\<rparr>) \<and>
    mounted_on current img (s\<lparr>disk := d'\<rparr>) n (B(unat b := bs)) \<and>
    img d' = (img (disk s))(n \<mapsto> B(unat b := bs))"
  using block_write_law [of "disk s" n B "unat b" bs] assms
  by (auto simp: dev_write_def mounted_on_def)

lemma dev_open_ok:
  assumes "current (disk s) = None" and "img (disk s) n = Some B"
  shows "\<exists>d'. dev_open D n s = (0, s\<lparr>disk := d'\<rparr>) \<and> mounted_on current img (s\<lparr>disk := d'\<rparr>) n B
    \<and> img d' = img (disk s)"
  using open_disk_law [OF assms] assms(2) by (auto simp: dev_open_def mounted_on_def)

lemma dev_close_ok:
  assumes "mounted_on current img s n B"
  shows "\<exists>d'. dev_close D s = (0, s\<lparr>disk := d'\<rparr>) \<and> current d' = None \<and> img d' = img (disk s)"
  using close_disk_law [of "disk s" n] assms by (auto simp: dev_close_def mounted_on_def)

lemma dev_make_ok:
  assumes "current (disk s) = None"
  shows "\<exists>d'. dev_make D n s = (0, s\<lparr>disk := d'\<rparr>) \<and> current d' = None
    \<and> img d' = (img (disk s))(n \<mapsto> (\<lambda>_. zero_block))"
  using make_disk_law [OF assms, of n] by (auto simp: dev_make_def)

end

end
