(* ===== verification/Fs_Mount.thy ===== *)
theory Fs_Mount
  imports Fs_State
begin

text \<open>
  \<open>make_fs\<close>, \<open>mount_fs\<close> and \<open>umount_fs\<close> of \<^verbatim>\<open>src/file_systems/src/fs.c\<close>. The block buffer is
  carried from one write to the next as in the source, where \<open>memset(block, 0, sizeof(BLOCK_SIZE))\<close>
  clears only the four bytes of an \<open>int\<close> between two uses. The argument \<open>pad\<close> is the value of the
  structures' padding bytes. \<open>calloc\<close> is taken to succeed, as the source assumes.
\<close>

definition ceil_blocks :: "nat \<Rightarrow> nat" where
  "ceil_blocks n = (if n mod BLOCK_SIZE = 0 then n div BLOCK_SIZE else n div BLOCK_SIZE + 1)"

definition new_superblock :: superblock where
  "new_superblock = (let
      dir_off = (1 :: u16);
      dir_size = of_nat (ceil_blocks (sizeof_dir_entry * MAX_NUM_FILES));
      ib_off = dir_off + dir_size;
      ib_size = of_nat (ceil_blocks 8);
      bb_off = ib_off + ib_size;
      bb_size = of_nat (ceil_blocks 1024);
      in_off = bb_off + bb_size;
      in_size = of_nat (ceil_blocks (sizeof_inode * MAX_NUM_FILES))
    in \<lparr>data_block_offset = in_off + in_size, block_bitmap_size = bb_size, block_bitmap_offset = bb_off,
        inode_bitmap_size = ib_size, inode_bitmap_offset = ib_off, inode_size = in_size,
        inode_offset = in_off, dir_entry_offset = dir_off, dir_entry_size = dir_size\<rparr>)"

definition empty_dentry :: dir_entry where
  "empty_dentry = \<lparr>de_is_used = 0, de_name = replicate (MAX_FILENAME_LEN + 1) 0, de_inode_number = 0\<rparr>"

definition empty_inode :: "nat \<Rightarrow> inode" where
  "empty_inode i = \<lparr>inode_number = of_nat i, file_type = 0, file_size = 0,
     direct_block = replicate NUM_DIRECT_BLOCKS 0, single_indirect_block = 0\<rparr>"

definition empty_fd :: f_desc where
  "empty_fd = \<lparr>fd_is_used = False, fd_inode_number = 0, fd_offset = 0\<rparr>"

text \<open>\<open>memset(block, 0, sizeof(BLOCK_SIZE))\<close>: four bytes.\<close>

definition memset4 :: "u8 list \<Rightarrow> u8 list option" where
  "memset4 block = mem_write block 0 (replicate 4 0)"

fun set_bits :: "nat list \<Rightarrow> u8 list \<Rightarrow> u8 list option" where
  "set_bits [] bm = Some bm"
| "set_bits (i # is) bm = do { bm \<leftarrow> set_bit_bm (of_nat i) bm; set_bits is bm }"

definition make_fs :: "'d disk_ops \<Rightarrow> u8 \<Rightarrow> string \<Rightarrow> 'd fs \<Rightarrow> (int \<times> 'd fs) option" where
  "make_fs D pad disk_name s =
    (let (rc, s) = dev_make D disk_name s in if rc \<noteq> 0 then Some (- 1, s) else
     let (rc, s) = dev_open D disk_name s in if rc \<noteq> 0 then Some (- 1, s) else
     let super_b = new_superblock in do {
     block \<leftarrow> mem_write zero_block 0 (enc_superblock super_b);
     let (rc, s) = dev_write D 0 block s;
     if rc \<noteq> 0 then Some (- 1, s) else do {
     block \<leftarrow> memset4 block;
     block \<leftarrow> put_table sizeof_dir_entry (enc_dir_entry pad) (replicate MAX_NUM_FILES empty_dentry) 0 block;
     let (rc, s) = dev_write D (dir_entry_offset super_b) block s;
     if rc \<noteq> 0 then Some (- 1, s) else do {
     block \<leftarrow> memset4 block;
     let (rc, s) = dev_write D (inode_bitmap_offset super_b) block s;
     if rc \<noteq> 0 then Some (- 1, s) else do {
     block \<leftarrow> memset4 block;
     bm \<leftarrow> set_bits [0..<unat (data_block_offset super_b)] (blocks_bitmap s);
     let s = s\<lparr>blocks_bitmap := bm\<rparr>;
     block \<leftarrow> mem_write block 0 bm;
     let (rc, s) = dev_write D (block_bitmap_offset super_b) block s;
     if rc \<noteq> 0 then Some (- 1, s) else do {
     block \<leftarrow> memset4 block;
     block \<leftarrow> put_table sizeof_inode (enc_inode pad) (map empty_inode [0..<MAX_NUM_FILES]) 0 block;
     let (rc, s) = dev_write D (inode_offset super_b) block s;
     if rc \<noteq> 0 then Some (- 1, s) else
     Some (dev_close D s) }}}}})"

definition mount_fs :: "'d disk_ops \<Rightarrow> string \<Rightarrow> 'd fs \<Rightarrow> (int \<times> 'd fs) option" where
  "mount_fs D disk_name s =
    (if is_fs_mounted s then Some (- 1, s) else
     let (rc, s) = dev_open D disk_name s in if rc \<noteq> 0 then Some (- 1, s) else
     let (rc, block) = dev_read D 0 s in if rc \<noteq> 0 then Some (- 1, s) else do {
     raw \<leftarrow> mem_read block 0 sizeof_superblock;
     let s = s\<lparr>sb := dec_superblock raw\<rparr>;
     let (rc, block) = dev_read D (dir_entry_offset (sb s)) s;
     if rc \<noteq> 0 then Some (- 1, s) else do {
     tab \<leftarrow> get_table sizeof_dir_entry dec_dir_entry MAX_NUM_FILES block;
     let s = s\<lparr>dir_table := tab\<rparr>;
     let (rc, block) = dev_read D (inode_bitmap_offset (sb s)) s;
     if rc \<noteq> 0 then Some (- 1, s) else do {
     bm \<leftarrow> mem_read block 0 8;
     let s = s\<lparr>inodes_bitmap := bm\<rparr>;
     let (rc, block) = dev_read D (block_bitmap_offset (sb s)) s;
     if rc \<noteq> 0 then Some (- 1, s) else do {
     bm \<leftarrow> mem_read block 0 1024;
     let s = s\<lparr>blocks_bitmap := bm\<rparr>;
     let (rc, block) = dev_read D (inode_offset (sb s)) s;
     if rc \<noteq> 0 then Some (- 1, s) else do {
     tab \<leftarrow> get_table sizeof_inode dec_inode MAX_NUM_FILES block;
     Some (0, s\<lparr>inode_table := tab, fd_table := replicate MAX_NUM_FD empty_fd,
                is_fs_mounted := True\<rparr>) }}}}})"

definition umount_fs :: "'d disk_ops \<Rightarrow> u8 \<Rightarrow> string \<Rightarrow> 'd fs \<Rightarrow> (int \<times> 'd fs) option" where
  "umount_fs D pad disk_name s = do {
     block \<leftarrow> mem_write zero_block 0 (enc_superblock (sb s));
     let (rc, s) = dev_write D 0 block s;
     if rc \<noteq> 0 then Some (- 1, s) else do {
     block \<leftarrow> memset4 block;
     block \<leftarrow> put_table sizeof_dir_entry (enc_dir_entry pad) (dir_table s) 0 block;
     let (rc, s) = dev_write D (dir_entry_offset (sb s)) block s;
     if rc \<noteq> 0 then Some (- 1, s) else do {
     block \<leftarrow> memset4 block;
     block \<leftarrow> mem_write block 0 (inodes_bitmap s);
     let (rc, s) = dev_write D (inode_bitmap_offset (sb s)) block s;
     if rc \<noteq> 0 then Some (- 1, s) else do {
     block \<leftarrow> memset4 block;
     block \<leftarrow> mem_write block 0 (blocks_bitmap s);
     let (rc, s) = dev_write D (block_bitmap_offset (sb s)) block s;
     if rc \<noteq> 0 then Some (- 1, s) else do {
     block \<leftarrow> memset4 block;
     block \<leftarrow> put_table sizeof_inode (enc_inode pad) (inode_table s) 0 block;
     let (rc, s) = dev_write D (inode_offset (sb s)) block s;
     if rc \<noteq> 0 then Some (- 1, s) else
     let (rc, s) = dev_close D s in
     if rc \<noteq> 0 then Some (- 1, s) else Some (0, s) }}}}}"

section \<open>The metadata of a state on a disk image\<close>

definition sb_ok :: "superblock \<Rightarrow> bool" where
  "sb_ok b \<longleftrightarrow>
     distinct [0, dir_entry_offset b, inode_bitmap_offset b, block_bitmap_offset b, inode_offset b] \<and>
     unat (dir_entry_offset b) < DISK_BLOCKS \<and> unat (inode_bitmap_offset b) < DISK_BLOCKS \<and>
     unat (block_bitmap_offset b) < DISK_BLOCKS \<and> unat (inode_offset b) < DISK_BLOCKS"

definition meta_blocks :: "superblock \<Rightarrow> nat set" where
  "meta_blocks b = {0, unat (dir_entry_offset b), unat (inode_bitmap_offset b),
     unat (block_bitmap_offset b), unat (inode_offset b)}"

definition on_disk :: "(nat \<Rightarrow> u8 list) \<Rightarrow> 'd fs \<Rightarrow> bool" where
  "on_disk B s \<longleftrightarrow>
     mem_read (B 0) 0 sizeof_superblock = Some (enc_superblock (sb s)) \<and>
     get_table sizeof_dir_entry dec_dir_entry MAX_NUM_FILES (B (unat (dir_entry_offset (sb s))))
       = Some (dir_table s) \<and>
     mem_read (B (unat (inode_bitmap_offset (sb s)))) 0 8 = Some (inodes_bitmap s) \<and>
     mem_read (B (unat (block_bitmap_offset (sb s)))) 0 1024 = Some (blocks_bitmap s) \<and>
     get_table sizeof_inode dec_inode MAX_NUM_FILES (B (unat (inode_offset (sb s))))
       = Some (inode_table s)"

lemma sb_ok_new_superblock: "sb_ok new_superblock"
  by (simp add: sb_ok_def new_superblock_def ceil_blocks_def c_consts)

lemma new_superblock_layout:
  "dir_entry_offset new_superblock = 1" "inode_bitmap_offset new_superblock = 2"
  "block_bitmap_offset new_superblock = 3" "inode_offset new_superblock = 4"
  "data_block_offset new_superblock = 5"
  by (simp_all add: new_superblock_def ceil_blocks_def c_consts)

lemma memset4_block:
  "length block = BLOCK_SIZE \<Longrightarrow>
    \<exists>b'. memset4 block = Some b' \<and> length b' = BLOCK_SIZE"
  by (simp add: memset4_def mem_write_in c_consts)

lemma mem_write_0:
  assumes "length bs \<le> length block"
  shows "\<exists>b'. mem_write block 0 bs = Some b' \<and> length b' = length block
    \<and> mem_read b' 0 (length bs) = Some bs"
  using assms by (simp add: mem_write_in mem_read_in overlay_0)

lemma put_dir_table:
  assumes "length block = BLOCK_SIZE" and "\<forall>e \<in> set tab. dir_entry_ok e"
    and "length tab = MAX_NUM_FILES"
  shows "\<exists>b'. put_table sizeof_dir_entry (enc_dir_entry pad) tab 0 block = Some b' \<and>
    length b' = BLOCK_SIZE \<and>
    get_table sizeof_dir_entry dec_dir_entry MAX_NUM_FILES b' = Some tab"
proof -
  let ?b = "overlay (0 * sizeof_dir_entry) (concat (map (enc_dir_entry pad) tab)) block"
  have "put_table sizeof_dir_entry (enc_dir_entry pad) tab 0 block = Some ?b"
    by (rule put_table_eq) (use assms in \<open>auto simp: c_consts\<close>)
  moreover have "get_table sizeof_dir_entry dec_dir_entry MAX_NUM_FILES ?b = Some tab"
    unfolding mult_0 by (rule get_put_table) (use assms in \<open>auto simp: c_consts\<close>)
  moreover have "length ?b = BLOCK_SIZE"
    using assms length_concat_map_enc [of tab "enc_dir_entry pad" sizeof_dir_entry]
    by (simp add: c_consts)
  ultimately show ?thesis by blast
qed

lemma put_inode_table:
  assumes "length block = BLOCK_SIZE" and "\<forall>e \<in> set tab. inode_ok e"
    and "length tab = MAX_NUM_FILES"
  shows "\<exists>b'. put_table sizeof_inode (enc_inode pad) tab 0 block = Some b' \<and>
    length b' = BLOCK_SIZE \<and>
    get_table sizeof_inode dec_inode MAX_NUM_FILES b' = Some tab"
proof -
  let ?b = "overlay (0 * sizeof_inode) (concat (map (enc_inode pad) tab)) block"
  have "put_table sizeof_inode (enc_inode pad) tab 0 block = Some ?b"
    by (rule put_table_eq) (use assms in \<open>auto simp: c_consts\<close>)
  moreover have "get_table sizeof_inode dec_inode MAX_NUM_FILES ?b = Some tab"
    unfolding mult_0 by (rule get_put_table) (use assms in \<open>auto simp: c_consts\<close>)
  moreover have "length ?b = BLOCK_SIZE"
    using assms length_concat_map_enc [of tab "enc_inode pad" sizeof_inode]
    by (simp add: c_consts)
  ultimately show ?thesis by blast
qed

text \<open>
  Both \<open>make_fs\<close> and \<open>umount_fs\<close> write a sequence of metadata blocks from one buffer. The
  sequence as a list of pairs (block number, how the buffer is filled), followed by \<open>k\<close>:
\<close>

fun write_seq :: "'d disk_ops \<Rightarrow> (u16 \<times> (u8 list \<Rightarrow> u8 list option)) list \<Rightarrow> u8 list \<Rightarrow> 'd fs
    \<Rightarrow> (u8 list \<Rightarrow> 'd fs \<Rightarrow> (int \<times> 'd fs) option) \<Rightarrow> (int \<times> 'd fs) option" where
  "write_seq D [] block s k = k block s"
| "write_seq D ((off, fill) # steps) block s k = do {
     block \<leftarrow> memset4 block;
     block \<leftarrow> fill block;
     let (rc, s) = dev_write D off block s;
     if rc \<noteq> 0 then Some (- 1, s) else write_seq D steps block s k }"

definition fills :: "(u8 list \<Rightarrow> u8 list option) \<Rightarrow> (u8 list \<Rightarrow> bool) \<Rightarrow> bool" where
  "fills fill P \<longleftrightarrow> (\<forall>c. length c = BLOCK_SIZE \<longrightarrow> (\<exists>b. fill c = Some b \<and> length b = BLOCK_SIZE \<and> P b))"

lemma fills_dir_table:
  assumes "\<forall>e \<in> set tab. dir_entry_ok e" and "length tab = MAX_NUM_FILES"
  shows "fills (put_table sizeof_dir_entry (enc_dir_entry pad) tab 0)
    (\<lambda>b. get_table sizeof_dir_entry dec_dir_entry MAX_NUM_FILES b = Some tab)"
  using put_dir_table [OF _ assms] by (auto simp: fills_def)

lemma fills_inode_table:
  assumes "\<forall>e \<in> set tab. inode_ok e" and "length tab = MAX_NUM_FILES"
  shows "fills (put_table sizeof_inode (enc_inode pad) tab 0)
    (\<lambda>b. get_table sizeof_inode dec_inode MAX_NUM_FILES b = Some tab)"
  using put_inode_table [OF _ assms] by (auto simp: fills_def)

lemma fills_bitmap:
  "length bm = k \<Longrightarrow> k \<le> BLOCK_SIZE \<Longrightarrow> fills (\<lambda>c. mem_write c 0 bm) (\<lambda>b. mem_read b 0 k = Some bm)"
  by (auto simp: fills_def mem_write_in mem_read_in overlay_0)

lemma umount_fs_seq:
  "umount_fs D pad nm s = do {
     block \<leftarrow> mem_write zero_block 0 (enc_superblock (sb s));
     let (rc, s1) = dev_write D 0 block s;
     if rc \<noteq> 0 then Some (- 1, s1) else
     write_seq D
       [(dir_entry_offset (sb s), put_table sizeof_dir_entry (enc_dir_entry pad) (dir_table s) 0),
        (inode_bitmap_offset (sb s), \<lambda>c. mem_write c 0 (inodes_bitmap s)),
        (block_bitmap_offset (sb s), \<lambda>c. mem_write c 0 (blocks_bitmap s)),
        (inode_offset (sb s), put_table sizeof_inode (enc_inode pad) (inode_table s) 0)] block s1
       (\<lambda>_ s. let (rc, s) = dev_close D s in if rc \<noteq> 0 then Some (- 1, s) else Some (0, s)) }"
  by (simp add: umount_fs_def dev_write_def Let_def split_def cong: if_cong)

definition make_fs_tail :: "'d disk_ops \<Rightarrow> u8 \<Rightarrow> u8 list \<Rightarrow> 'd fs \<Rightarrow> (int \<times> 'd fs) option" where
  "make_fs_tail D pad block s = do {
     bm \<leftarrow> set_bits [0..<5] (blocks_bitmap s);
     write_seq D [(3, \<lambda>c. mem_write c 0 bm),
       (4, put_table sizeof_inode (enc_inode pad) (map empty_inode [0..<MAX_NUM_FILES]) 0)]
       block (s\<lparr>blocks_bitmap := bm\<rparr>) (\<lambda>block s. Some (dev_close D s)) }"

lemma make_fs_seq:
  "make_fs D pad nm s =
    (let (rc, s) = dev_make D nm s in if rc \<noteq> 0 then Some (- 1, s) else
     let (rc, s) = dev_open D nm s in if rc \<noteq> 0 then Some (- 1, s) else do {
     block \<leftarrow> mem_write zero_block 0 (enc_superblock new_superblock);
     let (rc, s) = dev_write D 0 block s;
     if rc \<noteq> 0 then Some (- 1, s) else
     write_seq D [(1, put_table sizeof_dir_entry (enc_dir_entry pad) (replicate MAX_NUM_FILES empty_dentry) 0)]
       block s (\<lambda>block s. write_seq D [(2, Some)] block s (make_fs_tail D pad)) })"
proof -
  have comm: "do { b \<leftarrow> memset4 block; bm \<leftarrow> X; Y b bm } = do { bm \<leftarrow> X; b \<leftarrow> memset4 block; Y b bm }"
    for block and X :: "'z option" and Y :: "u8 list \<Rightarrow> 'z \<Rightarrow> (int \<times> 'd fs) option"
    by (cases X; cases "memset4 block") auto
  show ?thesis
    by (simp add: make_fs_def make_fs_tail_def [abs_def] new_superblock_layout Let_def split_def comm
      cong: if_cong)
qed

lemma set_bits_spec:
  assumes "\<forall>i \<in> set is. i < 8 * length bm" and "8 * length bm \<le> DISK_BLOCKS"
  shows "\<exists>bm'. set_bits is bm = Some bm' \<and> length bm' = length bm \<and> bitset bm' = bitset bm \<union> set is"
  using assms
proof (induction "is" arbitrary: bm)
  case Nil
  then show ?case by simp
next
  case (Cons i "is")
  then have u: "unat (of_nat i :: u16) = i" by (simp add: c_consts)
  from bm.mark_law [of "of_nat i" bm] Cons.prems u obtain b1 where
    b1: "set_bit_bm (of_nat i) bm = Some b1" "length b1 = length bm" "bitset b1 = insert i (bitset bm)"
    by auto
  from Cons.IH [of b1] Cons.prems b1 show ?case by auto
qed

lemma memset4_zeros:
  assumes "length block = BLOCK_SIZE" and "take 8 block = replicate 8 0"
  shows "\<exists>b. memset4 block = Some b \<and> length b = BLOCK_SIZE \<and> mem_read b 0 8 = Some (replicate 8 0)"
proof -
  have "take 4 (drop 4 block) = drop 4 (take 8 block)" by (simp add: drop_take)
  with assms have "take 4 (drop 4 block) = replicate 4 0" by simp
  then have "take 8 (overlay 0 (replicate 4 0) block) = replicate 8 0"
    by (simp add: overlay_def replicate_add [symmetric])
  with assms(1) show ?thesis by (simp add: memset4_def mem_write_in mem_read_in c_consts)
qed

text \<open>
  The state a fresh disk mounts to. The blocks bitmap is the caller's: \<open>make_fs\<close> sets the bits of the
  metadata blocks in the global bitmap without clearing it first.
\<close>

definition fresh_fs :: "u8 list \<Rightarrow> 'd \<Rightarrow> 'd fs" where
  "fresh_fs bm d = \<lparr>sb = new_superblock, fd_table = replicate MAX_NUM_FD empty_fd,
     inode_table = map empty_inode [0..<MAX_NUM_FILES], dir_table = replicate MAX_NUM_FILES empty_dentry,
     blocks_bitmap = bm, inodes_bitmap = replicate 8 0, is_fs_mounted = True, disk = d\<rparr>"

lemma fs_typed_fresh: "length bm = 1024 \<Longrightarrow> fs_typed (fresh_fs bm d)"
  by (auto simp: fs_typed_def fresh_fs_def inode_ok_def empty_inode_def dir_entry_ok_def empty_dentry_def)

lemma fills_empty_dentries:
  "fills (put_table sizeof_dir_entry (enc_dir_entry pad) (replicate MAX_NUM_FILES empty_dentry) 0)
    (\<lambda>b. get_table sizeof_dir_entry dec_dir_entry MAX_NUM_FILES b = Some (replicate MAX_NUM_FILES empty_dentry)
      \<and> take 8 b = replicate 8 0)"
proof -
  let ?tab = "replicate MAX_NUM_FILES empty_dentry"
  have ok: "dir_entry_ok empty_dentry" by (simp add: dir_entry_ok_def empty_dentry_def)
  have "take 8 b = replicate 8 0"
    if "put_table sizeof_dir_entry (enc_dir_entry pad) ?tab 0 c = Some b" "length c = BLOCK_SIZE" for b c
  proof -
    from that ok have "b = overlay (0 * sizeof_dir_entry) (concat (map (enc_dir_entry pad) ?tab)) c"
      using put_table_eq [of ?tab "enc_dir_entry pad" sizeof_dir_entry 0 c] by (simp add: c_consts)
    moreover have "?tab = empty_dentry # replicate 63 empty_dentry"
      by (simp add: MAX_NUM_FILES_def flip: replicate_Suc)
    ultimately have "take 8 b = take 8 (enc_dir_entry pad empty_dentry)"
      using ok by (simp add: overlay_def sizeof_dir_entry_def)
    also have "\<dots> = replicate 8 0"
      by (simp add: enc_dir_entry_def empty_dentry_def c_consts flip: replicate_Suc)
    finally show ?thesis .
  qed
  then show ?thesis
    using fills_dir_table [of ?tab pad] ok by (fastforce simp: fills_def)
qed

context disk_dev
begin

lemma write_seq_ok:
  assumes "mounted_on current img s n B" and "length block = BLOCK_SIZE"
    and "\<forall>(off, fill, P) \<in> set xs. unat off < DISK_BLOCKS \<and> fills fill P"
    and "distinct (map fst xs)"
  shows "\<exists>d' B' block'. write_seq D (map (\<lambda>(off, fill, P). (off, fill)) xs) block s k
        = k block' (s\<lparr>disk := d'\<rparr>)
    \<and> length block' = BLOCK_SIZE \<and> mounted_on current img (s\<lparr>disk := d'\<rparr>) n B'
    \<and> img d' = (img (disk s))(n \<mapsto> B')
    \<and> (\<forall>(off, fill, P) \<in> set xs. P (B' (unat off)))
    \<and> (\<forall>b. b \<notin> unat ` fst ` set xs \<longrightarrow> B' b = B b)
    \<and> (if xs = [] then block' = block else snd (snd (last xs)) block')"
  using assms
proof (induction xs arbitrary: s B block)
  case Nil
  then have "img (disk s) = (img (disk s))(n \<mapsto> B)" by (auto simp: mounted_on_def fun_eq_iff)
  with Nil show ?case
    by (intro exI [of _ "disk s"] exI [of _ B] exI [of _ block]) simp
next
  case (Cons x xs)
  obtain off fill P where x: "x = (off, fill, P)" by (cases x)
  from Cons.prems x have off: "unat off < DISK_BLOCKS" and F: "fills fill P"
    and new: "off \<notin> fst ` set xs" and rest: "distinct (map fst xs)"
    and all: "\<forall>(off, fill, P) \<in> set xs. unat off < DISK_BLOCKS \<and> fills fill P" by auto
  obtain c where c: "memset4 block = Some c" "length c = BLOCK_SIZE"
    using memset4_block [OF Cons.prems(2)] by blast
  obtain b where b: "fill c = Some b" "length b = BLOCK_SIZE" "P b"
    using F c(2) by (auto simp: fills_def)
  obtain d where d: "dev_write D off b s = (0, s\<lparr>disk := d\<rparr>)"
    "mounted_on current img (s\<lparr>disk := d\<rparr>) n (B(unat off := b))"
    "img d = (img (disk s))(n \<mapsto> B(unat off := b))"
    using dev_write_mounted [OF Cons.prems(1) off b(2)] by blast
  from Cons.IH [OF d(2) b(2) all rest] obtain d' B' block' where ih:
    "write_seq D (map (\<lambda>(off, fill, P). (off, fill)) xs) b (s\<lparr>disk := d\<rparr>) k = k block' (s\<lparr>disk := d'\<rparr>)"
    "length block' = BLOCK_SIZE" "mounted_on current img (s\<lparr>disk := d'\<rparr>) n B'"
    "img d' = (img d)(n \<mapsto> B')" "\<forall>(off, fill, P) \<in> set xs. P (B' (unat off))"
    "\<forall>i. i \<notin> unat ` fst ` set xs \<longrightarrow> B' i = (B(unat off := b)) i"
    "if xs = [] then block' = b else snd (snd (last xs)) block'"
    by (auto simp del: fun_upd_apply split del: if_split)
  from new have "unat off \<notin> unat ` fst ` set xs" by (auto simp: image_iff u16_eq_iff)
  with ih(6) b(3) have "P (B' (unat off))" by simp
  then show ?case using ih x c b d
    by (intro exI [of _ d'] exI [of _ B'] exI [of _ block']) auto
qed

lemma umount_writes_metadata:
  assumes m: "mounted_on current img s n B" and t: "fs_typed s" and ok: "sb_ok (sb s)"
  shows "\<exists>d' B'. umount_fs D pad nm s = Some (0, s\<lparr>disk := d'\<rparr>) \<and> current d' = None \<and>
    img d' = (img (disk s))(n \<mapsto> B') \<and> on_disk B' s \<and> (\<forall>b. b \<notin> meta_blocks (sb s) \<longrightarrow> B' b = B b)"
proof -
  note ok' = ok [unfolded sb_ok_def]
  obtain b0 where b0: "mem_write zero_block 0 (enc_superblock (sb s)) = Some b0"
    "length b0 = BLOCK_SIZE" "mem_read b0 0 sizeof_superblock = Some (enc_superblock (sb s))"
    using mem_write_0 [of "enc_superblock (sb s)" zero_block] by (auto simp: c_consts)
  obtain d0 where d0: "dev_write D 0 b0 s = (0, s\<lparr>disk := d0\<rparr>)"
    "mounted_on current img (s\<lparr>disk := d0\<rparr>) n (B(0 := b0))"
    "img d0 = (img (disk s))(n \<mapsto> B(0 := b0))"
    using dev_write_mounted [OF m, of 0 b0] b0 by (auto simp: c_consts)
  let ?k = "\<lambda>_ s. let (rc, s) = dev_close D s in if rc \<noteq> 0 then Some (- 1, s) else Some (0, s)"
  let ?xs = "[(dir_entry_offset (sb s), put_table sizeof_dir_entry (enc_dir_entry pad) (dir_table s) 0,
        \<lambda>b. get_table sizeof_dir_entry dec_dir_entry MAX_NUM_FILES b = Some (dir_table s)),
      (inode_bitmap_offset (sb s), \<lambda>c. mem_write c 0 (inodes_bitmap s),
        \<lambda>b. mem_read b 0 8 = Some (inodes_bitmap s)),
      (block_bitmap_offset (sb s), \<lambda>c. mem_write c 0 (blocks_bitmap s),
        \<lambda>b. mem_read b 0 1024 = Some (blocks_bitmap s)),
      (inode_offset (sb s), put_table sizeof_inode (enc_inode pad) (inode_table s) 0,
        \<lambda>b. get_table sizeof_inode dec_inode MAX_NUM_FILES b = Some (inode_table s))]"
  have "\<forall>(off, fill, P) \<in> set ?xs. unat off < DISK_BLOCKS \<and> fills fill P" "distinct (map fst ?xs)"
    using ok' t fills_bitmap [of "inodes_bitmap s" 8] fills_bitmap [of "blocks_bitmap s" 1024]
      fills_dir_table [of "dir_table s"] fills_inode_table [of "inode_table s"]
    by (auto simp: fs_typed_def BLOCK_SIZE_def)
  from write_seq_ok [OF d0(2) b0(2) this, of ?k] obtain d B' block where w:
    "write_seq D (map (\<lambda>(off, fill, P). (off, fill)) ?xs) b0 (s\<lparr>disk := d0\<rparr>) ?k = ?k block (s\<lparr>disk := d\<rparr>)"
    "mounted_on current img (s\<lparr>disk := d\<rparr>) n B'" "img d = (img d0)(n \<mapsto> B')"
    "\<forall>(off, fill, P) \<in> set ?xs. P (B' (unat off))"
    "\<forall>b. b \<notin> unat ` fst ` set ?xs \<longrightarrow> B' b = (B(0 := b0)) b"
    by (auto simp del: fun_upd_apply set_simps list.map)
  from dev_close_ok [OF w(2)] obtain d5 where d5: "dev_close D (s\<lparr>disk := d\<rparr>) = (0, s\<lparr>disk := d5\<rparr>)"
    "current d5 = None" "img d5 = img d" by auto
  have "umount_fs D pad nm s = Some (0, s\<lparr>disk := d5\<rparr>)"
    using w(1) d5(1) by (simp add: umount_fs_seq b0 d0)
  moreover have "B' 0 = b0" using w(5) ok' by (auto simp: u16_eq_iff)
  then have "on_disk B' s" using w(4) b0(3) by (simp add: on_disk_def)
  moreover have "\<forall>b. b \<notin> meta_blocks (sb s) \<longrightarrow> B' b = B b"
    using w(5) by (simp add: meta_blocks_def)
  moreover have "img d5 = (img (disk s))(n \<mapsto> B')" using d0(3) w(3) d5(3) by simp
  ultimately show ?thesis using d5(2) by blast
qed

lemma make_fs_tail_ok:
  assumes m: "mounted_on current img s n B1" and l: "length b2 = BLOCK_SIZE"
    and lb: "length (blocks_bitmap s) = 1024"
  shows "\<exists>d' B bm. make_fs_tail D pad b2 s = Some (0, s\<lparr>blocks_bitmap := bm, disk := d'\<rparr>) \<and>
    current d' = None \<and> img d' = (img (disk s))(n \<mapsto> B) \<and> length bm = 1024 \<and>
    bitset bm = bitset (blocks_bitmap s) \<union> {..<5} \<and> mem_read (B 3) 0 1024 = Some bm \<and>
    get_table sizeof_inode dec_inode MAX_NUM_FILES (B 4) = Some (map empty_inode [0..<MAX_NUM_FILES]) \<and>
    (\<forall>i. i \<noteq> 3 \<and> i \<noteq> 4 \<longrightarrow> B i = B1 i)"
proof -
  let ?k = "\<lambda>block s. Some (dev_close D s)" and ?its = "map empty_inode [0..<MAX_NUM_FILES]"
  obtain bm where bm: "set_bits [0..<5] (blocks_bitmap s) = Some bm" "length bm = 1024"
    "bitset bm = bitset (blocks_bitmap s) \<union> {..<5}"
    using set_bits_spec [of "[0..<5]" "blocks_bitmap s"] lb by (auto simp: c_consts lessThan_atLeast0)
  let ?s = "s\<lparr>blocks_bitmap := bm\<rparr>"
  have m': "mounted_on current img ?s n B1" using m by (simp add: mounted_on_def)
  have its: "\<forall>e \<in> set ?its. inode_ok e" by (auto simp: inode_ok_def empty_inode_def)
  from write_seq_ok [OF m' l, of "[(3, \<lambda>c. mem_write c 0 bm, \<lambda>b. mem_read b 0 1024 = Some bm),
      (4, put_table sizeof_inode (enc_inode pad) ?its 0,
       \<lambda>b. get_table sizeof_inode dec_inode MAX_NUM_FILES b = Some ?its)]" ?k]
    fills_bitmap [OF bm(2)] fills_inode_table [OF its, of pad]
  obtain d6 B where w: "write_seq D [(3, \<lambda>c. mem_write c 0 bm),
      (4, put_table sizeof_inode (enc_inode pad) ?its 0)] b2 ?s ?k = Some (dev_close D (?s\<lparr>disk := d6\<rparr>))"
    "mounted_on current img (?s\<lparr>disk := d6\<rparr>) n B" "img d6 = (img (disk s))(n \<mapsto> B)"
    "mem_read (B 3) 0 1024 = Some bm" "get_table sizeof_inode dec_inode MAX_NUM_FILES (B 4) = Some ?its"
    "\<forall>i. i \<noteq> 3 \<and> i \<noteq> 4 \<longrightarrow> B i = B1 i"
    by (auto simp: c_consts)
  from dev_close_ok [OF w(2)] obtain d7 where d7: "current d7 = None" "img d7 = img d6"
    "dev_close D (?s\<lparr>disk := d6\<rparr>) = (0, ?s\<lparr>disk := d7\<rparr>)" by auto
  have "make_fs_tail D pad b2 s = Some (0, ?s\<lparr>disk := d7\<rparr>)"
    using bm(1) w(1) d7(3) by (simp add: make_fs_tail_def)
  then show ?thesis using bm d7 w by auto
qed

lemma make_fs_formats:
  assumes c: "current (disk s) = None" and l: "length (blocks_bitmap s) = 1024"
  shows "\<exists>d' B bm. make_fs D pad n s = Some (0, s\<lparr>blocks_bitmap := bm, disk := d'\<rparr>) \<and>
    current d' = None \<and> img d' = (img (disk s))(n \<mapsto> B) \<and> length bm = 1024 \<and>
    bitset bm = bitset (blocks_bitmap s) \<union> {..<5} \<and> on_disk B (fresh_fs bm d')"
proof -
  obtain d0 where d0: "dev_make D n s = (0, s\<lparr>disk := d0\<rparr>)" "current d0 = None"
    "img d0 = (img (disk s))(n \<mapsto> (\<lambda>_. zero_block))" using dev_make_ok [OF c] by blast
  obtain d1 where d1: "dev_open D n (s\<lparr>disk := d0\<rparr>) = (0, s\<lparr>disk := d1\<rparr>)" "img d1 = img d0"
    "mounted_on current img (s\<lparr>disk := d1\<rparr>) n (\<lambda>_. zero_block)"
    using dev_open_ok [of "s\<lparr>disk := d0\<rparr>" n] d0 by auto
  obtain b0 where b0: "mem_write zero_block 0 (enc_superblock new_superblock) = Some b0"
    "length b0 = BLOCK_SIZE" "mem_read b0 0 sizeof_superblock = Some (enc_superblock new_superblock)"
    using mem_write_0 [of "enc_superblock new_superblock" zero_block] by (auto simp: c_consts)
  obtain d2 where d2: "dev_write D 0 b0 (s\<lparr>disk := d1\<rparr>) = (0, s\<lparr>disk := d2\<rparr>)"
    "mounted_on current img (s\<lparr>disk := d2\<rparr>) n ((\<lambda>_. zero_block)(0 := b0))"
    "img d2 = (img d0)(n \<mapsto> (\<lambda>_. zero_block)(0 := b0))"
    using dev_write_mounted [OF d1(3), of 0 b0] b0 d1(2) by (auto simp: c_consts)
  let ?k1 = "\<lambda>block s. write_seq D [(2, Some)] block s (make_fs_tail D pad)"
  let ?tab = "replicate MAX_NUM_FILES empty_dentry"
  let ?put = "put_table sizeof_dir_entry (enc_dir_entry pad) ?tab 0"
  from write_seq_ok [OF d2(2) b0(2), of "[(1, ?put, \<lambda>b. get_table sizeof_dir_entry dec_dir_entry
      MAX_NUM_FILES b = Some ?tab \<and> take 8 b = replicate 8 0)]" ?k1] fills_empty_dentries [of pad]
  obtain d3 B1 b1 where w1: "write_seq D [(1, ?put)] b0 (s\<lparr>disk := d2\<rparr>) ?k1 = ?k1 b1 (s\<lparr>disk := d3\<rparr>)"
    "length b1 = BLOCK_SIZE" "mounted_on current img (s\<lparr>disk := d3\<rparr>) n B1"
    "img d3 = (img d2)(n \<mapsto> B1)" "B1 0 = b0" "take 8 b1 = replicate 8 0"
    "get_table sizeof_dir_entry dec_dir_entry MAX_NUM_FILES (B1 1) = Some ?tab"
    by (auto simp: c_consts)
  obtain b2 where b2: "memset4 b1 = Some b2" "length b2 = BLOCK_SIZE"
    "mem_read b2 0 8 = Some (replicate 8 0)" using memset4_zeros [OF w1(2,6)] by blast
  obtain d4 where d4: "dev_write D 2 b2 (s\<lparr>disk := d3\<rparr>) = (0, s\<lparr>disk := d4\<rparr>)"
    "mounted_on current img (s\<lparr>disk := d4\<rparr>) n (B1(2 := b2))" "img d4 = (img d3)(n \<mapsto> B1(2 := b2))"
    using dev_write_mounted [OF w1(3), of 2 b2] b2 by (auto simp: c_consts)
  from make_fs_tail_ok [OF d4(2) b2(2), of pad] l obtain d7 B bm where w2:
    "make_fs_tail D pad b2 (s\<lparr>disk := d4\<rparr>) = Some (0, s\<lparr>blocks_bitmap := bm, disk := d7\<rparr>)"
    "current d7 = None" "img d7 = (img d4)(n \<mapsto> B)" "length bm = 1024"
    "bitset bm = bitset (blocks_bitmap s) \<union> {..<5}" "mem_read (B 3) 0 1024 = Some bm"
    "get_table sizeof_inode dec_inode MAX_NUM_FILES (B 4) = Some (map empty_inode [0..<MAX_NUM_FILES])"
    "B 0 = b0" "B 1 = B1 1" "B 2 = b2"
    using w1(5) by auto
  have "make_fs D pad n s = Some (0, s\<lparr>blocks_bitmap := bm, disk := d7\<rparr>)"
    using d0 d1 d2 b0 w1(1) b2 d4 w2(1) by (simp add: make_fs_seq)
  moreover have "on_disk B (fresh_fs bm d7)"
    using w2 w1(7) b0(3) b2(3) by (simp add: on_disk_def fresh_fs_def new_superblock_layout)
  moreover have "img d7 = (img (disk s))(n \<mapsto> B)"
    using w2(3) d4(3) w1(4) d2(3) d0(3) by simp
  ultimately show ?thesis using w2 by blast
qed

lemma mount_reads_metadata:
  assumes c: "current (disk t) = None" and im: "img (disk t) n = Some B"
    and nm: "\<not> is_fs_mounted t" and od: "on_disk B s" and ok: "sb_ok (sb s)"
  shows "\<exists>d'. mount_fs D n t = Some (0, \<lparr>sb = sb s, fd_table = replicate MAX_NUM_FD empty_fd,
      inode_table = inode_table s, dir_table = dir_table s, blocks_bitmap = blocks_bitmap s,
      inodes_bitmap = inodes_bitmap s, is_fs_mounted = True, disk = d'\<rparr>)
    \<and> current d' = Some n \<and> img d' = img (disk t)"
proof -
  note ok' = ok [unfolded sb_ok_def]
  obtain d where d: "dev_open D n t = (0, t\<lparr>disk := d\<rparr>)"
    "mounted_on current img (t\<lparr>disk := d\<rparr>) n B" "img d = img (disk t)"
    using dev_open_ok [OF c im] by blast
  have rd: "dev_read D b u = (0, B (unat b))" if "unat b < DISK_BLOCKS" "disk u = d" for b u
    using dev_read_mounted [of u n B b] d(2) that mounted_on_cong [of u "t\<lparr>disk := d\<rparr>"] by simp
  have r0: "dev_read D 0 u = (0, B 0)" if "disk u = d" for u
    using rd [of 0 u] that by (simp add: c_consts)
  note od' = od [unfolded on_disk_def]
  have "mount_fs D n t = Some (0, t\<lparr>disk := d, sb := sb s, dir_table := dir_table s,
      inodes_bitmap := inodes_bitmap s, blocks_bitmap := blocks_bitmap s,
      inode_table := inode_table s, fd_table := replicate MAX_NUM_FD empty_fd,
      is_fs_mounted := True\<rparr>)"
    using ok' od' nm by (simp add: mount_fs_def d r0 rd)
  with d show ?thesis by (cases t) (auto simp: mounted_on_def)
qed

end

end
