(* ===== verification/Fs_Dir.thy ===== *)
theory Fs_Dir
  imports Fs_Mount
begin

text \<open>
  The directory and descriptor operations of \<^verbatim>\<open>src/file_systems/src/fs.c\<close>: \<open>fs_open\<close>,
  \<open>fs_close\<close>, \<open>fs_create\<close>, \<open>fs_delete\<close>, \<open>fs_listfiles\<close>, \<open>fs_get_filesize\<close>,
  \<open>fs_lseek\<close> and \<open>fs_truncate\<close>. A C string argument is the list of its bytes before the
  terminator; \<open>strcmp\<close> compares up to the first zero byte (a stored name, which \<open>fs_create\<close>
  always terminates, is read within its 16 bytes). \<open>fildes\<close> and \<open>off_t\<close> arguments are integers
  of either sign; the \<open>uint32_t\<close> file size that \<open>fs_get_filesize\<close> returns as an \<open>int\<close> is read
  as a signed 32-bit number.
\<close>

fun find_idx :: "('a \<Rightarrow> bool) \<Rightarrow> 'a list \<Rightarrow> nat \<Rightarrow> nat option" where
  "find_idx P [] i = None"
| "find_idx P (x # xs) i = (if P x then Some i else find_idx P xs (Suc i))"

definition cstr :: "u8 list \<Rightarrow> u8 list" where
  "cstr bs = takeWhile (\<lambda>c. c \<noteq> 0) bs"

definition strcmp_eq :: "u8 list \<Rightarrow> u8 list \<Rightarrow> bool" where
  "strcmp_eq a b \<longleftrightarrow> cstr a = cstr b"

definition fs_open :: "u8 list \<Rightarrow> 'd fs \<Rightarrow> int \<times> 'd fs" where
  "fs_open name s =
    (case find_idx (\<lambda>e. strcmp_eq (de_name e) name) (dir_table s) 0 of
       None \<Rightarrow> (- 1, s)
     | Some i \<Rightarrow>
       (case find_idx (\<lambda>f. \<not> fd_is_used f) (fd_table s) 0 of
          None \<Rightarrow> (- 1, s)
        | Some fd_index \<Rightarrow>
          (int fd_index, s\<lparr>fd_table := (fd_table s)[fd_index :=
             \<lparr>fd_is_used = True, fd_inode_number = de_inode_number (dir_table s ! i), fd_offset = 0\<rparr>]\<rparr>)))"

definition fs_close :: "int \<Rightarrow> 'd fs \<Rightarrow> (int \<times> 'd fs) option" where
  "fs_close fildes s =
    (if fildes < 0 \<or> fildes > int MAX_NUM_FD - 1 then Some (- 1, s) else do {
     f \<leftarrow> nth_opt (fd_table s) (nat fildes);
     if \<not> fd_is_used f then Some (- 1, s) else
     Some (0, s\<lparr>fd_table := (fd_table s)[nat fildes := empty_fd]\<rparr>) })"

text \<open>\<open>sizeof(name)\<close> in \<open>fs_create\<close> is the size of a pointer.\<close>

definition sizeof_ptr :: nat where
  "sizeof_ptr = 8"

text \<open>The loop of \<open>fs_create\<close> that takes the first free inode, from index \<open>i\<close> on.\<close>

function create_entry :: "nat \<Rightarrow> u8 list \<Rightarrow> 'd fs \<Rightarrow> 'd fs option" where
  "create_entry i name s =
    (if i < MAX_NUM_FILES then do {
       b \<leftarrow> get_bit (of_nat i) (inodes_bitmap s);
       if b = 0 then do {
         n \<leftarrow> nth_opt (inode_table s) i;
         nm \<leftarrow> mem_write (replicate (MAX_FILENAME_LEN + 1) 0) 0 (cstr name @ [0]);
         tab \<leftarrow> upd_opt (dir_table s) i
           \<lparr>de_is_used = 1, de_name = nm, de_inode_number = inode_number n\<rparr>;
         bm \<leftarrow> set_bit_bm (of_nat i) (inodes_bitmap s);
         Some (s\<lparr>dir_table := tab, inodes_bitmap := bm\<rparr>) }
       else create_entry (Suc i) name s }
     else Some s)"
  by pat_completeness auto
termination
  by (relation "measure (\<lambda>(i, name, s). MAX_NUM_FILES - i)") auto

declare create_entry.simps [simp del]

definition fs_create :: "u8 list \<Rightarrow> 'd fs \<Rightarrow> (int \<times> 'd fs) option" where
  "fs_create name s =
    (if sizeof_ptr > MAX_FILENAME_LEN then Some (- 1, s)
     else if list_ex (\<lambda>e. strcmp_eq name (de_name e)) (dir_table s) then Some (- 1, s)
     else if list_all (\<lambda>e. de_is_used e \<noteq> 0) (dir_table s) then Some (- 1, s)
     else do { s' \<leftarrow> create_entry 0 name s; Some (0, s') })"

text \<open>\<open>for (...) if (b) clear_bit(b, blocks_bitmap)\<close> over an array of block numbers.\<close>

fun clear_blocks :: "u16 list \<Rightarrow> u8 list \<Rightarrow> u8 list option" where
  "clear_blocks [] bm = Some bm"
| "clear_blocks (b # bs) bm =
     (if b \<noteq> 0 then do { bm \<leftarrow> clear_bit b bm; clear_blocks bs bm } else clear_blocks bs bm)"

text \<open>
  Releasing the blocks named by the indirect block (lines 389-403 and 781-795 of \<^verbatim>\<open>fs.c\<close>):
  \<open>False\<close> when the indirect block cannot be read.
\<close>

definition clear_indirect :: "'d disk_ops \<Rightarrow> inode \<Rightarrow> 'd fs \<Rightarrow> (bool \<times> 'd fs) option" where
  "clear_indirect D n s =
    (let (rc, block) = dev_read D (single_indirect_block n) s in
     if rc \<noteq> 0 then Some (False, s) else do {
     raw \<leftarrow> mem_read block 0 BLOCK_SIZE;
     bm \<leftarrow> clear_blocks (dec16s 2048 raw) (blocks_bitmap s);
     Some (True, s\<lparr>blocks_bitmap := bm\<rparr>) })"

text \<open>Lines 382-404: the blocks of a deleted file, the indirect block itself excepted.\<close>

definition delete_blocks :: "'d disk_ops \<Rightarrow> inode \<Rightarrow> 'd fs \<Rightarrow> (bool \<times> 'd fs) option" where
  "delete_blocks D n s = do {
     bm \<leftarrow> clear_blocks (direct_block n) (blocks_bitmap s);
     let s = s\<lparr>blocks_bitmap := bm\<rparr>;
     if single_indirect_block n \<noteq> 0 \<and> unat (single_indirect_block n) < DISK_BLOCKS
     then clear_indirect D n s else Some (True, s) }"

definition fs_delete :: "'d disk_ops \<Rightarrow> u8 list \<Rightarrow> 'd fs \<Rightarrow> (int \<times> 'd fs) option" where
  "fs_delete D name s =
    (case find_idx (\<lambda>e. strcmp_eq (de_name e) name) (dir_table s) 0 of
       None \<Rightarrow> Some (- 1, s)
     | Some dentry_idx \<Rightarrow>
       if list_ex fd_is_used (fd_table s) then Some (- 1, s) else
       let inode_idx = unat (de_inode_number (dir_table s ! dentry_idx)) in
       if inode_idx > MAX_NUM_FILES - 1 then Some (- 1, s) else do {
       n \<leftarrow> nth_opt (inode_table s) inode_idx;
       (ok, s) \<leftarrow> delete_blocks D n s;
       if \<not> ok then Some (- 1, s) else do {
       ib \<leftarrow> clear_bit (of_nat inode_idx) (inodes_bitmap s);
       Some (0, s\<lparr>inode_table := (inode_table s)[inode_idx := n\<lparr>
                     direct_block := replicate NUM_DIRECT_BLOCKS 0, single_indirect_block := 0,
                     file_size := 0, file_type := 0\<rparr>],
                   inodes_bitmap := ib,
                   dir_table := (dir_table s)[dentry_idx := empty_dentry]\<rparr>) }})"

text \<open>
  \<open>fs_listfiles\<close> fills an array of \<open>MAX_NUM_FILES\<close> pointers and then stores a \<open>NULL\<close> after
  the last name: with every entry used, that is one past the end.
\<close>

definition fs_listfiles :: "'d fs \<Rightarrow> (int \<times> u8 list list) option" where
  "fs_listfiles s =
    (let files = map (\<lambda>e. cstr (de_name e)) (filter (\<lambda>e. de_is_used e \<noteq> 0) (dir_table s)) in
     if length files < MAX_NUM_FILES then Some (0, files) else None)"

definition fs_get_filesize :: "int \<Rightarrow> 'd fs \<Rightarrow> int option" where
  "fs_get_filesize fildes s =
    (if fildes < 0 \<or> fildes > int MAX_NUM_FD - 1 then Some (- 1) else do {
     f \<leftarrow> nth_opt (fd_table s) (nat fildes);
     if \<not> fd_is_used f then Some (- 1) else do {
     n \<leftarrow> nth_opt (inode_table s) (unat (fd_inode_number f));
     Some (sint (file_size n)) }})"

definition fs_lseek :: "int \<Rightarrow> int \<Rightarrow> 'd fs \<Rightarrow> (int \<times> 'd fs) option" where
  "fs_lseek fildes offset s =
    (if fildes < 0 \<or> fildes > int MAX_NUM_FD - 1 then Some (- 1, s) else do {
     f \<leftarrow> nth_opt (fd_table s) (nat fildes);
     n \<leftarrow> nth_opt (inode_table s) (unat (fd_inode_number f));
     if offset < 0 \<or> offset > int (unat (file_size n)) then Some (- 1, s) else do {
     o32 \<leftarrow> to_int (nat offset);
     Some (0, s\<lparr>fd_table := (fd_table s)[nat fildes := f\<lparr>fd_offset := o32\<rparr>]\<rparr>) }})"

text \<open>
  The first loop of \<open>fs_truncate\<close>: release the direct blocks from \<open>starting_block\<close> on, up to the
  first unused one; the final \<open>starting_block\<close> is returned with the bitmap.
\<close>

function truncate_direct :: "u16 list \<Rightarrow> nat \<Rightarrow> u8 list \<Rightarrow> (nat \<times> u8 list) option" where
  "truncate_direct ds i bm =
    (if i < NUM_DIRECT_BLOCKS then do {
       b \<leftarrow> nth_opt ds i;
       if b \<noteq> 0 then do { bm \<leftarrow> clear_bit b bm; truncate_direct ds (Suc i) bm } else Some (i, bm) }
     else Some (i, bm))"
  by pat_completeness auto
termination
  by (relation "measure (\<lambda>(ds, i, bm). NUM_DIRECT_BLOCKS - i)") auto

declare truncate_direct.simps [simp del]

text \<open>Releasing the blocks of a file beyond \<open>len\<close>; \<open>False\<close> when the indirect block cannot be read.\<close>

definition truncate_blocks :: "'d disk_ops \<Rightarrow> inode \<Rightarrow> nat \<Rightarrow> 'd fs \<Rightarrow> (bool \<times> 'd fs) option" where
  "truncate_blocks D n len s = do {
     (starting_block, bm) \<leftarrow> truncate_direct (direct_block n) (ceil_blocks len mod 2 ^ 16) (blocks_bitmap s);
     let s = s\<lparr>blocks_bitmap := bm\<rparr>;
     if single_indirect_block n \<noteq> 0 \<and> unat (single_indirect_block n) < DISK_BLOCKS
        \<and> starting_block \<ge> NUM_DIRECT_BLOCKS
     then clear_indirect D n s else Some (True, s) }"

definition fs_truncate :: "'d disk_ops \<Rightarrow> int \<Rightarrow> int \<Rightarrow> 'd fs \<Rightarrow> (int \<times> 'd fs) option" where
  "fs_truncate D fildes len s =
    (if fildes < 0 \<or> fildes > int MAX_NUM_FD - 1 then Some (- 1, s) else do {
     f \<leftarrow> nth_opt (fd_table s) (nat fildes);
     if \<not> fd_is_used f then Some (- 1, s) else do {
     n \<leftarrow> nth_opt (inode_table s) (unat (fd_inode_number f));
     if len < 0 \<or> len > int (unat (file_size n)) then Some (- 1, s)
     else if len = int (unat (file_size n)) then Some (0, s)
     else do {
     (ok, s) \<leftarrow> truncate_blocks D n (nat len) s;
     if \<not> ok then Some (- 1, s) else
     Some (0, s\<lparr>inode_table := (inode_table s)[unat (fd_inode_number f) := n\<lparr>file_size := word_of_int len\<rparr>],
                 fd_table := (if int (fd_offset f) > len
                    then (fd_table s)[nat fildes := f\<lparr>fd_offset := nat len\<rparr>] else fd_table s)\<rparr>) }}})"

end
