(* ===== verification/Fs_Dir_Spec.thy ===== *)
theory Fs_Dir_Spec
  imports Fs_Dir
begin

text \<open>
  The directory as an abstract map from names to inode indices. \<open>dir_wf\<close> is the invariant that ties
  the directory table, the inode bitmap and the inode numbers together; under it \<open>dir_map\<close> is what
  \<open>fs_open\<close>, \<open>fs_create\<close> and \<open>fs_delete\<close> look up, extend and shrink.
\<close>

lemma find_idx_Some:
  "find_idx P xs k = Some i \<longleftrightarrow>
    (\<exists>j. i = k + j \<and> j < length xs \<and> P (xs ! j) \<and> (\<forall>m < j. \<not> P (xs ! m)))"
proof (induction xs arbitrary: k)
  case Nil
  then show ?case by simp
next
  case (Cons x xs)
  show ?case
  proof (cases "P x")
    case True
    then have "(\<forall>m < j. \<not> P ((x # xs) ! m)) \<longleftrightarrow> j = 0" for j by (cases j) auto
    with True show ?thesis by auto
  next
    case False
    have "(\<exists>j. i = Suc k + j \<and> j < length xs \<and> P (xs ! j) \<and> (\<forall>m < j. \<not> P (xs ! m))) \<longleftrightarrow>
      (\<exists>j. i = k + j \<and> j < length (x # xs) \<and> P ((x # xs) ! j) \<and> (\<forall>m < j. \<not> P ((x # xs) ! m)))"
      (is "?L = ?R")
    proof
      assume ?L
      then obtain j where j: "i = Suc k + j" "j < length xs" "P (xs ! j)" "\<forall>m < j. \<not> P (xs ! m)" by blast
      then have "\<forall>m < Suc j. \<not> P ((x # xs) ! m)"
        using False by (auto simp: nth_Cons less_Suc_eq_le split: nat.splits)
      with j show ?R by (intro exI [of _ "Suc j"]) auto
    next
      assume ?R
      then obtain j where j: "i = k + j" "j < length (x # xs)" "P ((x # xs) ! j)"
        "\<forall>m < j. \<not> P ((x # xs) ! m)" by blast
      with False obtain j' where "j = Suc j'" by (cases j) auto
      with j show ?L by (intro exI [of _ j']) force
    qed
    with False Cons.IH [of "Suc k"] show ?thesis by simp
  qed
qed

lemma find_idx_0_Some:
  "find_idx P xs 0 = Some i \<longleftrightarrow> i < length xs \<and> P (xs ! i) \<and> (\<forall>m < i. \<not> P (xs ! m))"
  by (simp add: find_idx_Some)

lemma find_idx_None: "find_idx P xs k = None \<longleftrightarrow> (\<forall>x \<in> set xs. \<not> P x)"
  by (induction xs arbitrary: k) auto

lemma find_idx_unique:
  assumes "i < length xs" and "P (xs ! i)" and "\<And>j. j < length xs \<Longrightarrow> P (xs ! j) \<Longrightarrow> j = i"
  shows "find_idx P xs 0 = Some i"
proof -
  have "\<not> P (xs ! m)" if "m < i" for m using assms(3) [of m] that assms(1) by auto
  with assms(1,2) show ?thesis by (simp add: find_idx_0_Some)
qed

lemma find_idx_cong_nth:
  assumes "length xs = length ys" and "\<And>i. i < length xs \<Longrightarrow> P (xs ! i) = Q (ys ! i)"
  shows "find_idx P xs k = find_idx Q ys k"
  using assms
proof (induction xs ys arbitrary: k rule: list_induct2)
  case Nil
  then show ?case by simp
next
  case (Cons x xs y ys)
  from Cons.prems [of 0] have "P x = Q y" by simp
  moreover have "find_idx P xs (Suc k) = find_idx Q ys (Suc k)"
    by (rule Cons.IH) (use Cons.prems [of "Suc _"] in force)
  ultimately show ?case by simp
qed

lemma cstr_idem [simp]: "cstr (cstr a) = cstr a"
  by (simp add: cstr_def takeWhile_idem)

lemma cstr_no_zero: "0 \<notin> set a \<Longrightarrow> cstr a = a"
  by (auto simp: cstr_def takeWhile_eq_all_conv)

lemma cstr_append_zero: "0 \<notin> set a \<Longrightarrow> cstr (a @ 0 # bs) = a"
  unfolding cstr_def by (subst takeWhile_append2) auto

lemma zero_notin_cstr [simp]: "0 \<notin> set (cstr a)"
  by (auto simp: cstr_def dest: set_takeWhileD)

lemma cstr_empty_dentry [simp]: "cstr (de_name empty_dentry) = []"
  by (simp add: cstr_def empty_dentry_def)

lemma used_empty_dentry [simp]: "de_is_used empty_dentry = 0"
  by (simp add: empty_dentry_def)

section \<open>The directory invariant\<close>

definition slot_wf :: "'d fs \<Rightarrow> nat \<Rightarrow> bool" where
  "slot_wf s i \<longleftrightarrow>
     inode_number (inode_table s ! i) = of_nat i \<and>
     (let e = dir_table s ! i in
      if i \<in> bitset (inodes_bitmap s)
      then de_is_used e \<noteq> 0 \<and> de_inode_number e = of_nat i \<and> cstr (de_name e) \<noteq> []
      else e = empty_dentry \<and> inode_table s ! i = empty_inode i)"

definition dir_wf :: "'d fs \<Rightarrow> bool" where
  "dir_wf s \<longleftrightarrow> fs_typed s \<and> (\<forall>i < MAX_NUM_FILES. slot_wf s i) \<and>
     (\<forall>i < MAX_NUM_FILES. \<forall>j < MAX_NUM_FILES. i \<in> bitset (inodes_bitmap s) \<longrightarrow>
        cstr (de_name (dir_table s ! i)) = cstr (de_name (dir_table s ! j)) \<longrightarrow> i = j)"

definition dir_map :: "'d fs \<Rightarrow> u8 list \<Rightarrow> nat option" where
  "dir_map s nm = find_idx (\<lambda>e. de_is_used e \<noteq> 0 \<and> cstr (de_name e) = nm) (dir_table s) 0"

lemma dir_wf_typed: "dir_wf s \<Longrightarrow> fs_typed s"
  by (simp add: dir_wf_def)

lemma dir_wf_slot: "dir_wf s \<Longrightarrow> i < 64 \<Longrightarrow> slot_wf s i"
  by (simp add: dir_wf_def c_consts)

lemma dir_wf_used:
  assumes "dir_wf s" and "i < 64"
  shows "de_is_used (dir_table s ! i) \<noteq> 0 \<longleftrightarrow> i \<in> bitset (inodes_bitmap s)"
  using dir_wf_slot [OF assms] by (auto simp: slot_wf_def Let_def split: if_splits)

lemma dir_wf_free:
  assumes "dir_wf s" and "i < 64" and "i \<notin> bitset (inodes_bitmap s)"
  shows "dir_table s ! i = empty_dentry" and "inode_table s ! i = empty_inode i"
  using dir_wf_slot [OF assms(1,2)] assms(3) by (auto simp: slot_wf_def Let_def)

lemma dir_wf_inj:
  assumes "dir_wf s" and "i < 64" and "j < 64" and "i \<in> bitset (inodes_bitmap s)"
    and "cstr (de_name (dir_table s ! i)) = cstr (de_name (dir_table s ! j))"
  shows "i = j"
  using assms by (simp add: dir_wf_def c_consts)

lemma dir_map_Some:
  assumes "dir_wf s"
  shows "dir_map s nm = Some i \<longleftrightarrow>
    i < 64 \<and> i \<in> bitset (inodes_bitmap s) \<and> cstr (de_name (dir_table s ! i)) = nm"
proof
  note l = fs_typedD(3) [OF dir_wf_typed [OF assms]]
  show "i < 64 \<and> i \<in> bitset (inodes_bitmap s) \<and> cstr (de_name (dir_table s ! i)) = nm"
    if "dir_map s nm = Some i"
    using that l dir_wf_used [OF assms] by (auto simp: dir_map_def find_idx_0_Some)
  show "dir_map s nm = Some i"
    if "i < 64 \<and> i \<in> bitset (inodes_bitmap s) \<and> cstr (de_name (dir_table s ! i)) = nm"
    unfolding dir_map_def
    by (rule find_idx_unique) (use that l dir_wf_used [OF assms] dir_wf_inj [OF assms] in auto)
qed

lemma dir_map_None:
  assumes "dir_wf s"
  shows "dir_map s nm = None \<longleftrightarrow>
    (\<forall>i < 64. i \<in> bitset (inodes_bitmap s) \<longrightarrow> cstr (de_name (dir_table s ! i)) \<noteq> nm)"
  using dir_map_Some [OF assms] by (metis not_None_eq)

text \<open>For a non-empty name the search of the code is the lookup in the map.\<close>

lemma find_name_dir_map:
  assumes "dir_wf s" and "cstr name \<noteq> []"
  shows "find_idx (\<lambda>e. strcmp_eq (de_name e) name) (dir_table s) 0 = dir_map s (cstr name)"
  unfolding dir_map_def
proof (rule find_idx_cong_nth)
  fix i
  assume "i < length (dir_table s)"
  then have i: "i < 64" using fs_typedD(3) [OF dir_wf_typed [OF assms(1)]] by simp
  show "strcmp_eq (de_name (dir_table s ! i)) name \<longleftrightarrow>
      de_is_used (dir_table s ! i) \<noteq> 0 \<and> cstr (de_name (dir_table s ! i)) = cstr name"
    using dir_wf_used [OF assms(1) i] dir_wf_free(1) [OF assms(1) i] assms(2)
    by (auto simp: strcmp_eq_def)
qed simp

lemma find_empty_name:
  assumes "dir_wf s" and "cstr name = []" and "\<not> {..<64} \<subseteq> bitset (inodes_bitmap s)"
  shows "\<exists>k. find_idx (\<lambda>e. strcmp_eq (de_name e) name) (dir_table s) 0 = Some k \<and> dir_table s ! k = empty_dentry"
proof -
  note l = fs_typedD(3) [OF dir_wf_typed [OF assms(1)]]
  obtain i where i: "i < 64" "i \<notin> bitset (inodes_bitmap s)" using assms(3) by auto
  have "dir_table s ! i \<in> set (dir_table s)" using i(1) l by simp
  moreover have "strcmp_eq (de_name (dir_table s ! i)) name"
    using dir_wf_free(1) [OF assms(1) i] assms(2) by (simp add: strcmp_eq_def)
  ultimately obtain k where k: "find_idx (\<lambda>e. strcmp_eq (de_name e) name) (dir_table s) 0 = Some k"
    using find_idx_None [of "\<lambda>e. strcmp_eq (de_name e) name" "dir_table s" 0] by (metis not_Some_eq)
  then have "k < 64" "cstr (de_name (dir_table s ! k)) = []"
    using l assms(2) by (auto simp: find_idx_0_Some strcmp_eq_def)
  then have "dir_table s ! k = empty_dentry"
    using dir_wf_slot [OF assms(1), of k] by (auto simp: slot_wf_def Let_def split: if_splits)
  with k show ?thesis by blast
qed

lemma dir_wf_fresh:
  assumes "length bm = 1024"
  shows "dir_wf (fresh_fs bm d)"
  using fs_typed_fresh [OF assms]
  by (auto simp: dir_wf_def slot_wf_def fresh_fs_def empty_inode_def Let_def)

lemma dir_map_fresh: "length bm = 1024 \<Longrightarrow> dir_map (fresh_fs bm d) = Map.empty"
  by (auto simp: dir_map_def fresh_fs_def find_idx_None fun_eq_iff)


section \<open>Creating a file\<close>

definition new_dentry :: "u8 list \<Rightarrow> u16 \<Rightarrow> dir_entry" where
  "new_dentry nm k = \<lparr>de_is_used = 1, de_name = nm @ replicate (16 - length nm) 0, de_inode_number = k\<rparr>"

lemma new_dentry_simps [simp]:
  "de_is_used (new_dentry nm k) = 1" "de_inode_number (new_dentry nm k) = k"
  by (simp_all add: new_dentry_def)

lemma cstr_new_dentry [simp]:
  assumes "0 \<notin> set nm" and "length nm \<le> 15"
  shows "cstr (de_name (new_dentry nm k)) = nm"
proof -
  from assms(2) have "replicate (16 - length nm) 0 = 0 # replicate (15 - length nm) (0 :: u8)"
    by (simp add: Suc_diff_le flip: replicate_Suc)
  with assms(1) show ?thesis by (simp add: new_dentry_def cstr_append_zero)
qed

lemma dir_entry_ok_new: "length nm \<le> 15 \<Longrightarrow> dir_entry_ok (new_dentry nm k)"
  by (simp add: new_dentry_def dir_entry_ok_def c_consts)

lemma strcpy_name:
  assumes "length nm \<le> 15"
  shows "mem_write (replicate (MAX_FILENAME_LEN + 1) 0) 0 (nm @ [0])
    = Some (de_name (new_dentry nm k))"
  using assms by (simp add: mem_write_in overlay_0 new_dentry_def c_consts Suc_diff_le
      flip: replicate_Suc)

text \<open>A name that does not fit is copied past the end of the entry.\<close>

lemma strcpy_overflow:
  "length nm > 15 \<Longrightarrow> mem_write (replicate (MAX_FILENAME_LEN + 1) 0) 0 (nm @ [0]) = None"
  by (simp add: mem_write_def c_consts)

lemma create_entry_found:
  assumes "fs_typed s" and "k \<le> i" and "i < 64" and "i \<notin> bitset (inodes_bitmap s)"
    and "{k..<i} \<subseteq> bitset (inodes_bitmap s)"
  shows "create_entry k name s = do {
     nm \<leftarrow> mem_write (replicate (MAX_FILENAME_LEN + 1) 0) 0 (cstr name @ [0]);
     bm \<leftarrow> set_bit_bm (of_nat i) (inodes_bitmap s);
     Some (s\<lparr>dir_table := (dir_table s)[i := \<lparr>de_is_used = 1, de_name = nm,
       de_inode_number = inode_number (inode_table s ! i)\<rparr>], inodes_bitmap := bm\<rparr>) }"
  using assms(2,5)
proof (induction k rule: inc_induct)
  case base
  have "get_bit (of_nat i) (inodes_bitmap s) = Some 0"
    using get_bit_in [of "of_nat i" "inodes_bitmap s"] assms(3,4) fs_typedD(5) [OF assms(1)] by simp
  then show ?case
    using assms(3) fs_typedD(2,3) [OF assms(1)]
    by (subst create_entry.simps) (simp add: c_consts nth_opt_in upd_opt_in)
next
  case (step k)
  have k: "k \<in> bitset (inodes_bitmap s)" "k < 64" using step assms(3) by auto
  then have "get_bit (of_nat k) (inodes_bitmap s) = Some 1"
    using get_bit_in [of "of_nat k" "inodes_bitmap s"] fs_typedD(5) [OF assms(1)] by simp
  then have "create_entry k name s = create_entry (Suc k) name s"
    using k by (subst create_entry.simps) (simp add: c_consts)
  also have "\<dots> = do {
     nm \<leftarrow> mem_write (replicate (MAX_FILENAME_LEN + 1) 0) 0 (cstr name @ [0]);
     bm \<leftarrow> set_bit_bm (of_nat i) (inodes_bitmap s);
     Some (s\<lparr>dir_table := (dir_table s)[i := \<lparr>de_is_used = 1, de_name = nm,
       de_inode_number = inode_number (inode_table s ! i)\<rparr>], inodes_bitmap := bm\<rparr>) }"
    by (rule step.IH) (use step.prems in auto)
  finally show ?case .
qed

lemma least_free_inode:
  assumes "\<not> {..<64} \<subseteq> X"
  shows "\<exists>i < 64. i \<notin> X \<and> {..<i} \<subseteq> (X :: nat set)"
proof -
  define i where "i = (LEAST i. i < 64 \<and> i \<notin> X)"
  have "\<exists>i. i < 64 \<and> i \<notin> X" using assms by (auto simp: subset_iff)
  then have i: "i < 64 \<and> i \<notin> X" unfolding i_def by (rule LeastI_ex)
  have "j \<in> X" if "j < i" for j
    using not_less_Least [OF that [unfolded i_def]] less_trans [OF that, of 64] i by blast
  with i show ?thesis by auto
qed

text \<open>What the two checks before the loop of \<open>fs_create\<close> mean under the invariant.\<close>

lemma create_checks:
  assumes "dir_wf s" and "cstr name \<noteq> []"
  shows "list_ex (\<lambda>e. strcmp_eq name (de_name e)) (dir_table s) \<longleftrightarrow> dir_map s (cstr name) \<noteq> None"
    and "list_all (\<lambda>e. de_is_used e \<noteq> 0) (dir_table s) \<longleftrightarrow> {..<64} \<subseteq> bitset (inodes_bitmap s)"
proof -
  have "list_ex (\<lambda>e. strcmp_eq name (de_name e)) (dir_table s) \<longleftrightarrow>
    find_idx (\<lambda>e. strcmp_eq (de_name e) name) (dir_table s) 0 \<noteq> None"
    by (simp add: find_idx_None list_ex_iff strcmp_eq_def) metis
  then show "list_ex (\<lambda>e. strcmp_eq name (de_name e)) (dir_table s) \<longleftrightarrow> dir_map s (cstr name) \<noteq> None"
    by (simp add: find_name_dir_map [OF assms])
  show "list_all (\<lambda>e. de_is_used e \<noteq> 0) (dir_table s) \<longleftrightarrow> {..<64} \<subseteq> bitset (inodes_bitmap s)"
    using dir_wf_used [OF assms(1)] fs_typedD(3) [OF dir_wf_typed [OF assms(1)]]
    by (auto simp: list_all_length)
qed

lemma dir_wf_add:
  assumes wf: "dir_wf s" and i: "i < 64" "i \<notin> bitset (inodes_bitmap s)"
    and nm: "nm \<noteq> []" "0 \<notin> set nm" "length nm \<le> 15" "dir_map s nm = None"
    and bm: "length bm = 8" "bitset bm = insert i (bitset (inodes_bitmap s))"
  defines "s' \<equiv> s\<lparr>dir_table := (dir_table s)[i := new_dentry nm (of_nat i)], inodes_bitmap := bm\<rparr>"
  shows "dir_wf s'" and "dir_map s' = (dir_map s)(nm \<mapsto> i)"
proof -
  note l = fs_typedD(3) [OF dir_wf_typed [OF wf]]
  have t: "fs_typed s'"
    using dir_wf_typed [OF wf] bm(1) dir_entry_ok_new [OF nm(3)]
      Ball_set_update [of "dir_table s" dir_entry_ok "new_dentry nm (of_nat i)" i]
    by (simp add: fs_typed_def s'_def)
  have slots: "slot_wf s' j" if "j < 64" for j
    using dir_wf_slot [OF wf that] dir_wf_slot [OF wf i(1)] l i bm(2) nm that
    by (cases "j = i") (auto simp: slot_wf_def s'_def Let_def)
  have inj: "j = k"
    if "j < 64" "k < 64" "j \<in> bitset bm"
      "cstr (de_name (dir_table s' ! j)) = cstr (de_name (dir_table s' ! k))" for j k
  proof -
    have new: "cstr (de_name (dir_table s' ! i)) = nm" using nm l i by (simp add: s'_def)
    have old: "cstr (de_name (dir_table s ! m)) \<noteq> nm" if "m < 64" for m
      using nm(1,4) dir_map_None [OF wf, of nm] dir_wf_free(1) [OF wf that] that by force
    show ?thesis
      using that new old dir_wf_inj [OF wf, of j k] bm(2)
      by (cases "j = i"; cases "k = i") (auto simp: s'_def)
  qed
  show wf': "dir_wf s'" using t slots inj by (auto simp: dir_wf_def c_consts s'_def)
  have "dir_map s' x = Some j \<longleftrightarrow> ((dir_map s)(nm \<mapsto> i)) x = Some j" for x j
    using dir_map_Some [OF wf', of x j] dir_map_Some [OF wf, of x j] dir_map_None [OF wf, of nm] bm(2) l i nm
    by (cases "j = i"; cases "x = nm") (auto simp: s'_def)
  then show "dir_map s' = (dir_map s)(nm \<mapsto> i)"
    by (metis ext not_None_eq)
qed

lemma fs_create_refines:
  assumes wf: "dir_wf s" and nm: "cstr name \<noteq> []" "length (cstr name) \<le> 15"
    and new: "dir_map s (cstr name) = None" and room: "\<not> {..<64} \<subseteq> bitset (inodes_bitmap s)"
  shows "\<exists>i s'. fs_create name s = Some (0, s') \<and> i < 64 \<and> i \<notin> bitset (inodes_bitmap s)
    \<and> {..<i} \<subseteq> bitset (inodes_bitmap s) \<and> dir_wf s' \<and> dir_map s' = (dir_map s)(cstr name \<mapsto> i)
    \<and> (\<exists>bm tab. s' = s\<lparr>dir_table := tab, inodes_bitmap := bm\<rparr>
         \<and> bitset bm = insert i (bitset (inodes_bitmap s)))"
proof -
  obtain i where i: "i < 64" "i \<notin> bitset (inodes_bitmap s)" "{..<i} \<subseteq> bitset (inodes_bitmap s)"
    using least_free_inode [OF room] by blast
  note t = dir_wf_typed [OF wf]
  obtain bm where bm: "set_bit_bm (of_nat i) (inodes_bitmap s) = Some bm" "length bm = 8"
    "bitset bm = insert i (bitset (inodes_bitmap s))"
    using set_bit_bm_in [of "of_nat i" "inodes_bitmap s"] i(1) fs_typedD(5) [OF t] by auto
  let ?s = "s\<lparr>dir_table := (dir_table s)[i := new_dentry (cstr name) (of_nat i)], inodes_bitmap := bm\<rparr>"
  have "inode_number (inode_table s ! i) = of_nat i"
    using dir_wf_slot [OF wf i(1)] by (simp add: slot_wf_def)
  then have "create_entry 0 name s = Some ?s"
    using create_entry_found [OF t, of 0 i name] i strcpy_name [OF nm(2), of "of_nat i"] bm(1)
    by (auto simp: lessThan_atLeast0 new_dentry_def)
  then have "fs_create name s = Some (0, ?s)"
    using create_checks [OF wf nm(1)] new room by (simp add: fs_create_def sizeof_ptr_def c_consts)
  moreover note dir_wf_add [OF wf i(1,2) nm(1) zero_notin_cstr nm(2) new bm(2,3)]
  ultimately show ?thesis using i bm(3) by blast
qed


section \<open>Deleting a file\<close>

lemma clear_blocks_spec:
  assumes "\<forall>b \<in> set bs. unat b < 8 * length bm"
  shows "\<exists>bm'. clear_blocks bs bm = Some bm' \<and> length bm' = length bm
    \<and> bitset bm' = bitset bm - unat ` (set bs - {0})"
  using assms
proof (induction bs arbitrary: bm)
  case Nil
  then show ?case by simp
next
  case (Cons b bs)
  show ?case
  proof (cases "b = 0")
    case True
    with Cons show ?thesis by simp
  next
    case False
    obtain bm1 where bm1: "clear_bit b bm = Some bm1" "length bm1 = length bm"
      "bitset bm1 = bitset bm - {unat b}"
      using clear_bit_in [of b bm] Cons.prems by auto
    with Cons.IH [of bm1] Cons.prems obtain bm' where "clear_blocks bs bm1 = Some bm'"
      "length bm' = length bm" "bitset bm' = bitset bm1 - unat ` (set bs - {0})" by auto
    with False bm1 show ?thesis by (auto simp: insert_Diff_if)
  qed
qed

text \<open>The entries of the indirect block, and every block that \<open>fs_delete\<close> gives back.\<close>

definition indirect_entries :: "(nat \<Rightarrow> u8 list) \<Rightarrow> inode \<Rightarrow> u16 list" where
  "indirect_entries B n =
    (if single_indirect_block n \<noteq> 0 \<and> unat (single_indirect_block n) < DISK_BLOCKS
     then dec16s 2048 (B (unat (single_indirect_block n))) else [])"

definition file_blocks :: "(nat \<Rightarrow> u8 list) \<Rightarrow> inode \<Rightarrow> nat set" where
  "file_blocks B n = unat ` (set (direct_block n) \<union> set (indirect_entries B n) - {0})"

lemma dir_wf_remove:
  assumes wf: "dir_wf s" and i: "i < 64"
    and bm: "length ib = 8" "bitset ib = bitset (inodes_bitmap s) - {i}" and bl: "length bb = 1024"
    and nm: "dir_map s nm = Some i"
  defines "s' \<equiv> s\<lparr>inode_table := (inode_table s)[i := empty_inode i], inodes_bitmap := ib,
     blocks_bitmap := bb, dir_table := (dir_table s)[i := empty_dentry]\<rparr>"
  shows "dir_wf s'" and "dir_map s' = (dir_map s)(nm := None)"
proof -
  note l = fs_typedD(2,3) [OF dir_wf_typed [OF wf]]
  have "dir_entry_ok empty_dentry" "inode_ok (empty_inode i)"
    by (simp_all add: dir_entry_ok_def empty_dentry_def inode_ok_def empty_inode_def)
  then have t: "fs_typed s'"
    using dir_wf_typed [OF wf] bm(1) bl
      Ball_set_update [of "dir_table s" dir_entry_ok empty_dentry i]
      Ball_set_update [of "inode_table s" inode_ok "empty_inode i" i]
    by (simp add: fs_typed_def s'_def)
  have slots: "slot_wf s' j" if "j < 64" for j
    using dir_wf_slot [OF wf that] l i bm(2) that
    by (cases "j = i") (auto simp: slot_wf_def s'_def Let_def empty_inode_def)
  have inj: "j = k"
    if "j < 64" "k < 64" "j \<in> bitset ib"
      "cstr (de_name (dir_table s' ! j)) = cstr (de_name (dir_table s' ! k))" for j k
    using that dir_wf_inj [OF wf, of j k] dir_wf_slot [OF wf that(1)] bm(2) l
    by (cases "k = i") (auto simp: s'_def slot_wf_def Let_def)
  show wf': "dir_wf s'" using t slots inj by (auto simp: dir_wf_def c_consts s'_def)
  have "dir_map s' x = Some j \<longleftrightarrow> ((dir_map s)(nm := None)) x = Some j" for x j
    using dir_map_Some [OF wf', of x j] dir_map_Some [OF wf, of x j] dir_map_Some [OF wf, of nm i]
      dir_wf_inj [OF wf, of j i] nm bm(2) l i
    by (cases "j = i"; cases "x = nm") (auto simp: s'_def)
  then show "dir_map s' = (dir_map s)(nm := None)"
    by (metis ext not_None_eq)
qed

context disk_dev
begin

lemma clear_indirect_ok:
  assumes "mounted_on current img s n B" and "unat (single_indirect_block nd) < DISK_BLOCKS"
    and "length (blocks_bitmap s) = 1024"
    and "\<forall>b \<in> set (dec16s 2048 (B (unat (single_indirect_block nd)))). unat b < DISK_BLOCKS"
  shows "\<exists>bm. clear_indirect D nd s = Some (True, s\<lparr>blocks_bitmap := bm\<rparr>) \<and> length bm = 1024
    \<and> bitset bm = bitset (blocks_bitmap s)
        - unat ` (set (dec16s 2048 (B (unat (single_indirect_block nd)))) - {0})"
proof -
  have "length (B (unat (single_indirect_block nd))) = BLOCK_SIZE" by (rule mounted_block [OF assms(1)])
  then show ?thesis
    using clear_blocks_spec [of "dec16s 2048 (B (unat (single_indirect_block nd)))" "blocks_bitmap s"] assms(3,4)
    by (auto simp: clear_indirect_def dev_read_mounted [OF assms(1,2)] mem_read_in DISK_BLOCKS_def)
qed

text \<open>The effect of \<open>fs_delete\<close> once the entry \<open>k\<close> with inode \<open>i\<close> is found.\<close>

lemma fs_delete_entry:
  assumes t: "fs_typed s" and m: "mounted_on current img s n B"
    and k: "find_idx (\<lambda>e. strcmp_eq (de_name e) name) (dir_table s) 0 = Some k"
    and e: "de_inode_number (dir_table s ! k) = of_nat i" "i < 64" "inode_number (inode_table s ! i) = of_nat i"
    and idle: "\<forall>f \<in> set (fd_table s). \<not> fd_is_used f"
    and good: "file_blocks B (inode_table s ! i) \<subseteq> {..<DISK_BLOCKS}"
  shows "\<exists>bb ib. fs_delete D name s = Some (0, s\<lparr>inode_table := (inode_table s)[i := empty_inode i], inodes_bitmap := ib,
      blocks_bitmap := bb, dir_table := (dir_table s)[k := empty_dentry]\<rparr>) \<and>
    length bb = 1024 \<and> bitset bb = bitset (blocks_bitmap s) - file_blocks B (inode_table s ! i) \<and>
    length ib = 8 \<and> bitset ib = bitset (inodes_bitmap s) - {i}"
proof -
  let ?n = "inode_table s ! i"
  have good1: "\<forall>b \<in> set (direct_block ?n). unat b < 8 * length (blocks_bitmap s)"
    using good fs_typedD(4) [OF t] by (force simp: file_blocks_def DISK_BLOCKS_def)
  obtain b1 where b1: "clear_blocks (direct_block ?n) (blocks_bitmap s) = Some b1"
    "length b1 = 1024" "bitset b1 = bitset (blocks_bitmap s) - unat ` (set (direct_block ?n) - {0})"
    using clear_blocks_spec [OF good1] fs_typedD(4) [OF t] by auto
  let ?ind = "single_indirect_block ?n \<noteq> 0 \<and> unat (single_indirect_block ?n) < DISK_BLOCKS"
  obtain b2 where b2: "(if ?ind then clear_indirect D ?n (s\<lparr>blocks_bitmap := b1\<rparr>)
      else Some (True, s\<lparr>blocks_bitmap := b1\<rparr>)) = Some (True, s\<lparr>blocks_bitmap := b2\<rparr>)"
    "length b2 = 1024" "bitset b2 = bitset b1 - unat ` (set (indirect_entries B ?n) - {0})"
  proof (cases ?ind)
    case True
    then have "\<forall>b \<in> set (dec16s 2048 (B (unat (single_indirect_block ?n)))). unat b < DISK_BLOCKS"
      using good by (force simp: file_blocks_def indirect_entries_def DISK_BLOCKS_def)
    with clear_indirect_ok [of "s\<lparr>blocks_bitmap := b1\<rparr>" n B ?n] m b1(2) True that show ?thesis
      by (auto simp: mounted_on_def indirect_entries_def)
  next
    case False
    with b1 that [of b1] show ?thesis by (auto simp: indirect_entries_def)
  qed
  obtain ib where ib: "clear_bit (of_nat i) (inodes_bitmap s) = Some ib" "length ib = 8"
    "bitset ib = bitset (inodes_bitmap s) - {i}"
    using clear_bit_in [of "of_nat i" "inodes_bitmap s"] e(2) fs_typedD(5) [OF t] by auto
  have clear: "?n\<lparr>direct_block := replicate NUM_DIRECT_BLOCKS 0, single_indirect_block := 0,
      file_size := 0, file_type := 0\<rparr> = empty_inode i"
    using e(3) by (simp add: empty_inode_def)
  have "\<not> list_ex fd_is_used (fd_table s)" using idle by (simp add: list_ex_iff)
  moreover have "nth_opt (inode_table s) i = Some ?n" using e(2) fs_typedD(2) [OF t] by (simp add: nth_opt_in)
  ultimately have "fs_delete D name s = Some (0, s\<lparr>inode_table := (inode_table s)[i := empty_inode i],
      inodes_bitmap := ib, blocks_bitmap := b2, dir_table := (dir_table s)[k := empty_dentry]\<rparr>)"
    using k e(1,2) b1(1) b2(1) ib(1) clear by (simp add: fs_delete_def delete_blocks_def Let_def c_consts)
  moreover have "bitset b2 = bitset (blocks_bitmap s) - file_blocks B ?n"
    using b1(3) b2(3) by (auto simp: file_blocks_def)
  ultimately show ?thesis using b2(2) ib(2,3) by blast
qed

lemma fs_delete_refines:
  assumes wf: "dir_wf s" and m: "mounted_on current img s n B"
    and nm: "dir_map s (cstr name) = Some i" and idle: "\<forall>f \<in> set (fd_table s). \<not> fd_is_used f"
    and good: "file_blocks B (inode_table s ! i) \<subseteq> {..<DISK_BLOCKS}"
  shows "\<exists>s'. fs_delete D name s = Some (0, s') \<and> dir_wf s'
    \<and> dir_map s' = (dir_map s)(cstr name := None) \<and> inode_table s' ! i = empty_inode i
    \<and> bitset (blocks_bitmap s') = bitset (blocks_bitmap s) - file_blocks B (inode_table s ! i)
    \<and> disk s' = disk s \<and> fd_table s' = fd_table s \<and> (\<forall>j. j \<noteq> i \<longrightarrow> inode_table s' ! j = inode_table s ! j)"
proof -
  note t = dir_wf_typed [OF wf]
  from dir_map_Some [OF wf] nm have i: "i < 64" "i \<in> bitset (inodes_bitmap s)"
    "cstr (de_name (dir_table s ! i)) = cstr name" by auto
  from dir_wf_slot [OF wf i(1)] i have e: "de_inode_number (dir_table s ! i) = of_nat i"
    "cstr name \<noteq> []" "inode_number (inode_table s ! i) = of_nat i" by (auto simp: slot_wf_def Let_def)
  from find_name_dir_map [OF wf e(2)] nm
  have "find_idx (\<lambda>e. strcmp_eq (de_name e) name) (dir_table s) 0 = Some i" by simp
  from fs_delete_entry [OF t m this e(1) i(1) e(3) idle good] obtain bb ib where
    d: "fs_delete D name s = Some (0, s\<lparr>inode_table := (inode_table s)[i := empty_inode i], inodes_bitmap := ib,
      blocks_bitmap := bb, dir_table := (dir_table s)[i := empty_dentry]\<rparr>)"
    "length bb = 1024" "bitset bb = bitset (blocks_bitmap s) - file_blocks B (inode_table s ! i)"
    "length ib = 8" "bitset ib = bitset (inodes_bitmap s) - {i}" by blast
  with dir_wf_remove [OF wf i(1) d(4,5,2) nm] i(1) fs_typedD(2) [OF t] show ?thesis by auto
qed

text \<open>
  The empty name is equal to the name of an unused entry, whose inode number is 0: \<open>fs_delete\<close>
  then releases inode 0 and its blocks and leaves the directory as it was.
\<close>

lemma fs_delete_empty_name:
  assumes wf: "dir_wf s" and m: "mounted_on current img s n B" and nm: "cstr name = []"
    and room: "\<not> {..<64} \<subseteq> bitset (inodes_bitmap s)" and idle: "\<forall>f \<in> set (fd_table s). \<not> fd_is_used f"
    and good: "file_blocks B (inode_table s ! 0) \<subseteq> {..<DISK_BLOCKS}"
  shows "\<exists>s'. fs_delete D name s = Some (0, s') \<and> dir_table s' = dir_table s \<and> inode_table s' ! 0 = empty_inode 0 \<and>
    bitset (inodes_bitmap s') = bitset (inodes_bitmap s) - {0} \<and>
    bitset (blocks_bitmap s') = bitset (blocks_bitmap s) - file_blocks B (inode_table s ! 0)"
proof -
  note t = dir_wf_typed [OF wf]
  obtain k where k: "find_idx (\<lambda>e. strcmp_eq (de_name e) name) (dir_table s) 0 = Some k" "dir_table s ! k = empty_dentry"
    using find_empty_name [OF wf nm room] by blast
  have e: "de_inode_number (dir_table s ! k) = of_nat 0" "inode_number (inode_table s ! 0) = of_nat 0"
    using k(2) dir_wf_slot [OF wf, of 0] by (simp_all add: empty_dentry_def slot_wf_def)
  have "(dir_table s)[k := empty_dentry] = dir_table s" using k(2) by (metis list_update_id)
  with fs_delete_entry [OF t m k(1) e(1) _ e(2) idle good] fs_typedD(2) [OF t] show ?thesis by auto
qed

end


section \<open>Descriptors\<close>

text \<open>An open descriptor names an inode in use.\<close>

definition fd_wf :: "'d fs \<Rightarrow> bool" where
  "fd_wf s \<longleftrightarrow> (\<forall>f \<in> set (fd_table s). fd_is_used f \<longrightarrow>
     unat (fd_inode_number f) < MAX_NUM_FILES \<and> unat (fd_inode_number f) \<in> bitset (inodes_bitmap s))"

definition fs_inv :: "'d fs \<Rightarrow> bool" where
  "fs_inv s \<longleftrightarrow> dir_wf s \<and> fd_wf s"

lemma fs_invD: "fs_inv s \<Longrightarrow> dir_wf s" "fs_inv s \<Longrightarrow> fd_wf s"
  by (simp_all add: fs_inv_def)

lemma slot_wf_cong:
  assumes "inode_table s' = inode_table s" and "dir_table s' = dir_table s"
    and "inodes_bitmap s' = inodes_bitmap s"
  shows "slot_wf s' i = slot_wf s i"
  using assms by (simp add: slot_wf_def)

text \<open>The directory invariant and the map do not look at descriptors, the block bitmap or the disk.\<close>

lemma dir_wf_cong:
  assumes "inode_table s' = inode_table s" and "dir_table s' = dir_table s"
    and "inodes_bitmap s' = inodes_bitmap s" and "length (fd_table s') = length (fd_table s)"
    and "length (blocks_bitmap s') = length (blocks_bitmap s)"
  shows "dir_wf s' = dir_wf s" and "dir_map s' = dir_map s"
  using assms slot_wf_cong [OF assms(1-3)]
  by (simp_all add: dir_wf_def fs_typed_def dir_map_def fun_eq_iff)

text \<open>Changing the inode of a file in use keeps the directory.\<close>

lemma dir_wf_inode:
  assumes wf: "dir_wf s" and i: "i < 64" "i \<in> bitset (inodes_bitmap s)"
    and n: "inode_ok n" "inode_number n = inode_number (inode_table s ! i)"
  shows "dir_wf (s\<lparr>inode_table := (inode_table s)[i := n]\<rparr>)"
    and "dir_map (s\<lparr>inode_table := (inode_table s)[i := n]\<rparr>) = dir_map s"
proof -
  let ?s = "s\<lparr>inode_table := (inode_table s)[i := n]\<rparr>"
  note l = fs_typedD(2) [OF dir_wf_typed [OF wf]]
  have "slot_wf ?s j" if "j < 64" for j
    using dir_wf_slot [OF wf that] i n l by (cases "j = i") (auto simp: slot_wf_def Let_def)
  moreover have "fs_typed ?s"
    using dir_wf_typed [OF wf] Ball_set_update [of "inode_table s" inode_ok n i] n(1)
    by (simp add: fs_typed_def)
  ultimately show "dir_wf ?s" using wf by (simp add: dir_wf_def c_consts)
  show "dir_map ?s = dir_map s" by (simp add: dir_map_def fun_eq_iff)
qed

lemma fs_open_ok:
  assumes wf: "dir_wf s" and nm: "dir_map s (cstr name) = Some i" and free: "\<exists>f \<in> set (fd_table s). \<not> fd_is_used f"
  shows "\<exists>fd < 32. \<not> fd_is_used (fd_table s ! fd) \<and> (\<forall>j < fd. fd_is_used (fd_table s ! j)) \<and>
    fs_open name s = (int fd, s\<lparr>fd_table := (fd_table s)[fd :=
      \<lparr>fd_is_used = True, fd_inode_number = of_nat i, fd_offset = 0\<rparr>]\<rparr>)"
proof -
  from dir_map_Some [OF wf] nm have i: "i < 64" "i \<in> bitset (inodes_bitmap s)"
    "cstr (de_name (dir_table s ! i)) = cstr name" by auto
  from dir_wf_slot [OF wf i(1)] i have e: "de_inode_number (dir_table s ! i) = of_nat i"
    "cstr name \<noteq> []" by (auto simp: slot_wf_def Let_def)
  from free obtain fd where fd: "find_idx (\<lambda>f. \<not> fd_is_used f) (fd_table s) 0 = Some fd"
    using find_idx_None [of "\<lambda>f. \<not> fd_is_used f" "fd_table s" 0] by fastforce
  then have "fs_open name s = (int fd, s\<lparr>fd_table := (fd_table s)[fd :=
      \<lparr>fd_is_used = True, fd_inode_number = of_nat i, fd_offset = 0\<rparr>]\<rparr>)"
    using find_name_dir_map [OF wf e(2)] nm e(1) by (simp add: fs_open_def)
  then show ?thesis
    using fd fs_typedD(1) [OF dir_wf_typed [OF wf]] by (auto simp: find_idx_0_Some)
qed

lemma fs_open_empty_name:
  assumes "dir_wf s" and "cstr name = []" and "\<not> {..<64} \<subseteq> bitset (inodes_bitmap s)"
    and "find_idx (\<lambda>f. \<not> fd_is_used f) (fd_table s) 0 = Some fd"
  shows "fs_open name s = (int fd, s\<lparr>fd_table := (fd_table s)[fd :=
      \<lparr>fd_is_used = True, fd_inode_number = 0, fd_offset = 0\<rparr>]\<rparr>)"
  using find_empty_name [OF assms(1-3)] assms(4) by (auto simp: fs_open_def empty_dentry_def)

lemma fs_open_fails:
  assumes "dir_wf s" and "cstr name \<noteq> []"
    and "dir_map s (cstr name) = None \<or> (\<forall>f \<in> set (fd_table s). fd_is_used f)"
  shows "fs_open name s = (- 1, s)"
proof -
  have "\<forall>f \<in> set (fd_table s). fd_is_used f \<Longrightarrow> find_idx (\<lambda>f. \<not> fd_is_used f) (fd_table s) 0 = None"
    by (simp add: find_idx_None)
  with assms(3) show ?thesis
    using find_name_dir_map [OF assms(1,2)] by (auto simp: fs_open_def split: option.splits)
qed

lemma fd_wf_update:
  assumes "fd_wf s" and "fd_is_used f \<Longrightarrow> unat (fd_inode_number f) < MAX_NUM_FILES
    \<and> unat (fd_inode_number f) \<in> bitset (inodes_bitmap s)"
  shows "fd_wf (s\<lparr>fd_table := (fd_table s)[k := f]\<rparr>)"
  using assms set_update_subset_insert [of "fd_table s" k f] by (auto simp: fd_wf_def)

end
