(* ===== verification/Fs_Io.thy ===== *)
theory Fs_Io
  imports Fs_Dir_Spec
begin

text \<open>
  \<open>fs_read\<close> and \<open>fs_write\<close> of \<^verbatim>\<open>src/file_systems/src/fs.c\<close>, loop by loop. Block buffers that the
  source allocates and forgets to free have no effect here. The caller's buffer is a list; a copy
  that would leave it is \<open>None\<close>. A result \<open>Inl\<close> of a loop is a \<open>return\<close> inside it.
\<close>

section \<open>Reading\<close>

text \<open>Lines 454-469 (and again 489-504): copy one block that was read to the caller's buffer.\<close>

definition read_copy :: "nat \<Rightarrow> nat \<Rightarrow> nat \<Rightarrow> bool \<Rightarrow> nat \<Rightarrow> u8 list \<Rightarrow> u8 list \<Rightarrow> (nat \<times> u8 list) option" where
  "read_copy fsize cursor nbyte first_block bytes_read read_block buf =
    (if first_block then
       let room = BLOCK_SIZE - cursor mod BLOCK_SIZE;
           read_size = (if nbyte > room then room else nbyte);
           read_size = (if usub fsize cursor > read_size then read_size else usub fsize cursor)
       in do {
         bs \<leftarrow> mem_read read_block (cursor mod BLOCK_SIZE) read_size;
         buf \<leftarrow> mem_write buf 0 bs;
         Some (bytes_read + read_size, buf) }
     else if usub nbyte bytes_read < BLOCK_SIZE then do {
         bs \<leftarrow> mem_read read_block 0 (usub nbyte bytes_read);
         buf \<leftarrow> mem_write buf bytes_read bs;
         Some (nbyte, buf) }
     else do {
         bs \<leftarrow> mem_read read_block 0 BLOCK_SIZE;
         buf \<leftarrow> mem_write buf bytes_read bs;
         Some (bytes_read + BLOCK_SIZE, buf) })"

function read_direct :: "'d disk_ops \<Rightarrow> 'd fs \<Rightarrow> inode \<Rightarrow> nat \<Rightarrow> nat \<Rightarrow> nat \<Rightarrow> bool \<Rightarrow> nat \<Rightarrow> u8 list
    \<Rightarrow> ((int \<times> u8 list) + (bool \<times> nat \<times> u8 list)) option" where
  "read_direct D s n cursor nbyte i first_block bytes_read buf =
    (if i < NUM_DIRECT_BLOCKS \<and> usub nbyte bytes_read > 0 \<and> unat (file_size n) > bytes_read + cursor then do {
       b \<leftarrow> nth_opt (direct_block n) i;
       if b \<noteq> 0 then
         let (rc, block) = dev_read D b s in
         if rc \<noteq> 0 then Some (Inl (- 1, buf)) else do {
         (br, buf) \<leftarrow> read_copy (unat (file_size n)) cursor nbyte first_block bytes_read block buf;
         read_direct D s n cursor nbyte (Suc i) False br buf }
       else read_direct D s n cursor nbyte (Suc i) first_block bytes_read buf }
     else Some (Inr (first_block, bytes_read, buf)))"
  by pat_completeness auto
termination
  by (relation "measure (\<lambda>(D, s, n, cursor, nbyte, i, first_block, bytes_read, buf). NUM_DIRECT_BLOCKS - i)") auto

declare read_direct.simps [simp del]

function read_indirect :: "'d disk_ops \<Rightarrow> 'd fs \<Rightarrow> inode \<Rightarrow> u16 list \<Rightarrow> nat \<Rightarrow> nat \<Rightarrow> nat \<Rightarrow> nat \<Rightarrow> bool \<Rightarrow> nat \<Rightarrow> u8 list
    \<Rightarrow> ((int \<times> u8 list) + (nat \<times> u8 list)) option" where
  "read_indirect D s n ind_block cursor nbyte blocks_needed i first_block bytes_read buf =
    (if i < blocks_needed then do {
       b \<leftarrow> nth_opt ind_block i;
       if b \<noteq> 0 then
         let (rc, block) = dev_read D b s in
         if rc \<noteq> 0 then Some (Inl (- 1, buf)) else do {
         (br, buf) \<leftarrow> read_copy (unat (file_size n)) cursor nbyte first_block bytes_read block buf;
         read_indirect D s n ind_block cursor nbyte blocks_needed (Suc i) False br buf }
       else read_indirect D s n ind_block cursor nbyte blocks_needed (Suc i) first_block bytes_read buf }
     else Some (Inr (bytes_read, buf)))"
  by pat_completeness auto
termination
  by (relation "measure (\<lambda>(D, s, n, ind_block, cursor, nbyte, blocks_needed, i, first_block, bytes_read, buf).
       blocks_needed - i)") auto

declare read_indirect.simps [simp del]

text \<open>Lines 475-508, the indirect part.\<close>

definition read_rest :: "'d disk_ops \<Rightarrow> 'd fs \<Rightarrow> inode \<Rightarrow> nat \<Rightarrow> nat \<Rightarrow> bool \<Rightarrow> nat \<Rightarrow> u8 list
    \<Rightarrow> ((int \<times> u8 list) + (nat \<times> u8 list)) option" where
  "read_rest D s n cursor nbyte first_block bytes_read buf =
    (if usub nbyte bytes_read > 0 \<and> single_indirect_block n \<noteq> 0 \<and> unat (file_size n) > bytes_read + cursor then
       let (rc, block) = dev_read D (single_indirect_block n) s in
       if rc \<noteq> 0 then Some (Inl (- 1, buf)) else do {
       raw \<leftarrow> mem_read block 0 BLOCK_SIZE;
       let blocks_needed = ceil_blocks (usub nbyte bytes_read) mod 2 ^ 16;
       let starting_block = cursor div BLOCK_SIZE;
       read_indirect D s n (dec16s 2048 raw) cursor nbyte blocks_needed
         (if starting_block < NUM_DIRECT_BLOCKS then 0 else starting_block) first_block bytes_read buf }
     else Some (Inr (bytes_read, buf)))"

text \<open>
  Lines 438-513: the call once its arguments are checked and clipped. The result is the return
  value, the caller's buffer and the new state.
\<close>

definition read_body :: "'d disk_ops \<Rightarrow> int \<Rightarrow> inode \<Rightarrow> nat \<Rightarrow> nat \<Rightarrow> u8 list \<Rightarrow> 'd fs \<Rightarrow> (int \<times> u8 list \<times> 'd fs) option" where
  "read_body D fildes n cursor nbyte buf s = do {
     r \<leftarrow> (if cursor div BLOCK_SIZE < NUM_DIRECT_BLOCKS
           then read_direct D s n cursor nbyte (cursor div BLOCK_SIZE) True 0 buf
           else Some (Inr (True, 0, buf)));
     (case r of Inl (rc, buf) \<Rightarrow> Some (rc, buf, s) | Inr (first_block, bytes_read, buf) \<Rightarrow> do {
       r \<leftarrow> read_rest D s n cursor nbyte first_block bytes_read buf;
       (case r of Inl (rc, buf) \<Rightarrow> Some (rc, buf, s) | Inr (bytes_read, buf) \<Rightarrow> do {
         cursor \<leftarrow> to_int (cursor + bytes_read);
         Some (int bytes_read, buf, s\<lparr>fd_table := (fd_table s)[nat fildes :=
           (fd_table s ! nat fildes)\<lparr>fd_offset := cursor\<rparr>]\<rparr>) }) }) }"

definition fs_read :: "'d disk_ops \<Rightarrow> int \<Rightarrow> u8 list \<Rightarrow> nat \<Rightarrow> 'd fs \<Rightarrow> (int \<times> u8 list \<times> 'd fs) option" where
  "fs_read D fildes buf nbyte0 s =
    (if fildes < 0 \<or> fildes > int MAX_NUM_FD - 1 then Some (- 1, buf, s) else do {
     f \<leftarrow> nth_opt (fd_table s) (nat fildes);
     if \<not> fd_is_used f then Some (- 1, buf, s) else do {
     let nbyte = (if nbyte0 > MAX_FILE_SIZE then MAX_FILE_SIZE else nbyte0);
     n \<leftarrow> nth_opt (inode_table s) (unat (fd_inode_number f));
     read_body D fildes n (fd_offset f) nbyte buf s }})"

section \<open>Writing\<close>

text \<open>
  The statements before every regular return of \<open>fs_write\<close> (lines 569-572, 618-621, 659-662 and
  700-704): advance the offset, extend the size, return the count.
\<close>

definition write_done :: "int \<Rightarrow> nat \<Rightarrow> nat \<Rightarrow> nat \<Rightarrow> 'd fs \<Rightarrow> (int \<times> 'd fs) option" where
  "write_done fildes inode_idx cursor bytes_written s = do {
     cursor \<leftarrow> to_int (cursor + bytes_written);
     n \<leftarrow> nth_opt (inode_table s) inode_idx;
     f \<leftarrow> nth_opt (fd_table s) (nat fildes);
     Some (int bytes_written,
       s\<lparr>inode_table := (inode_table s)[inode_idx := n\<lparr>file_size :=
            (if cursor > unat (file_size n) then of_nat cursor else file_size n)\<rparr>],
         fd_table := (fd_table s)[nat fildes := f\<lparr>fd_offset := cursor\<rparr>]\<rparr>) }"

text \<open>Lines 548-560 (and 638-650): the first block, when the offset is inside it.\<close>

definition write_first :: "'d disk_ops \<Rightarrow> u16 \<Rightarrow> nat \<Rightarrow> nat \<Rightarrow> u8 list \<Rightarrow> 'd fs \<Rightarrow> (int + nat) option \<times> 'd fs" where
  "write_first D b cursor nbyte buf s =
    (let (rc, block) = dev_read D b s in
     if rc \<noteq> 0 then (Some (Inl (- 1)), s) else
     let room = BLOCK_SIZE - cursor mod BLOCK_SIZE;
         write_size = (if nbyte > room then room else nbyte)
     in case do { bs \<leftarrow> mem_read buf 0 write_size; mem_write block (cursor mod BLOCK_SIZE) bs } of
          None \<Rightarrow> (None, s)
        | Some block \<Rightarrow>
            let (rc, s) = dev_write D b block s in
            if rc \<noteq> 0 then (Some (Inl (- 1)), s) else (Some (Inr write_size), s))"

text \<open>
  Taking a free block: the number found, 0 when there is none, with the state in which a found
  block is marked.
\<close>

definition take_free_block :: "'d fs \<Rightarrow> (u16 \<times> 'd fs) option" where
  "take_free_block s = do {
     free_block \<leftarrow> find_free_bit (blocks_bitmap s);
     if free_block = 0 then Some (0, s) else do {
     bm \<leftarrow> set_bit_bm free_block (blocks_bitmap s);
     Some (free_block, s\<lparr>blocks_bitmap := bm\<rparr>) } }"

text \<open>Lines 566-579: the block for direct index \<open>i\<close>, allocated if the inode has none.\<close>

definition direct_for_write :: "nat \<Rightarrow> nat \<Rightarrow> 'd fs \<Rightarrow> (u16 \<times> 'd fs) option" where
  "direct_for_write inode_idx i s = do {
     n \<leftarrow> nth_opt (inode_table s) inode_idx;
     b \<leftarrow> nth_opt (direct_block n) i;
     if b \<noteq> 0 then Some (b, s) else do {
     (free_block, s) \<leftarrow> take_free_block s;
     if free_block = 0 then Some (0, s) else
     Some (free_block, s\<lparr>inode_table := (inode_table s)[inode_idx :=
       n\<lparr>direct_block := (direct_block n)[i := free_block]\<rparr>]\<rparr>) } }"

text \<open>
  Lines 580-599: a whole block, or the rest of the data padded with zeros; the new count. In the
  indirect loop (lines 669-688) the padded form is used for the last block only.
\<close>

definition write_out :: "'d disk_ops \<Rightarrow> u16 \<Rightarrow> bool \<Rightarrow> nat \<Rightarrow> u8 list \<Rightarrow> nat \<Rightarrow> 'd fs \<Rightarrow> ((int + nat) \<times> 'd fs) option" where
  "write_out D b whole nbyte buf bytes_written s =
    (if whole then do {
       bs \<leftarrow> mem_read buf bytes_written BLOCK_SIZE;
       let (rc, s) = dev_write D b bs s;
       if rc \<noteq> 0 then Some (Inl (- 1), s) else Some (Inr (bytes_written + BLOCK_SIZE), s) }
     else do {
       bs \<leftarrow> mem_read buf bytes_written (usub nbyte bytes_written);
       block \<leftarrow> mem_write zero_block 0 bs;
       let (rc, s) = dev_write D b block s;
       if rc \<noteq> 0 then Some (Inl (- 1), s) else Some (Inr nbyte, s) })"

function write_direct :: "'d disk_ops \<Rightarrow> int \<Rightarrow> nat \<Rightarrow> nat \<Rightarrow> nat \<Rightarrow> u8 list \<Rightarrow> bool \<Rightarrow> nat \<Rightarrow> nat \<Rightarrow> 'd fs
    \<Rightarrow> ((int + (bool \<times> nat)) \<times> 'd fs) option" where
  "write_direct D fildes inode_idx cursor nbyte buf first_block bytes_written i s =
    (if bytes_written < nbyte \<and> i < NUM_DIRECT_BLOCKS then
       if first_block \<and> cursor mod BLOCK_SIZE \<noteq> 0 then do {
         n \<leftarrow> nth_opt (inode_table s) inode_idx;
         b \<leftarrow> nth_opt (direct_block n) i;
         (case write_first D b cursor nbyte buf s of
            (None, s) \<Rightarrow> None
          | (Some (Inl rc), s) \<Rightarrow> Some (Inl rc, s)
          | (Some (Inr ws), s) \<Rightarrow>
              write_direct D fildes inode_idx cursor nbyte buf False (bytes_written + ws) (Suc i) s) }
       else do {
         (b, s) \<leftarrow> direct_for_write inode_idx i s;
         if b = 0 then do {
           (rc, s) \<leftarrow> write_done fildes inode_idx cursor bytes_written s; Some (Inl rc, s) }
         else do {
         (r, s) \<leftarrow> write_out D b (usub nbyte bytes_written \<ge> BLOCK_SIZE) nbyte buf bytes_written s;
         (case r of
            Inl rc \<Rightarrow> Some (Inl rc, s)
          | Inr bw \<Rightarrow> write_direct D fildes inode_idx cursor nbyte buf False bw (Suc i) s) } }
     else Some (Inr (first_block, bytes_written), s))"
  by pat_completeness auto
termination
  by (relation "measure (\<lambda>(D, fildes, inode_idx, cursor, nbyte, buf, first_block, bytes_written, i, s).
       NUM_DIRECT_BLOCKS - i)") auto

declare write_direct.simps [simp del]

text \<open>The loop of lines 633-692; the result carries the indirect block as it was filled in.\<close>

function write_indirect :: "'d disk_ops \<Rightarrow> int \<Rightarrow> nat \<Rightarrow> nat \<Rightarrow> nat \<Rightarrow> u8 list \<Rightarrow> nat \<Rightarrow> nat \<Rightarrow> bool \<Rightarrow> nat \<Rightarrow> u16 list \<Rightarrow> 'd fs
    \<Rightarrow> ((int + (nat \<times> u16 list)) \<times> 'd fs) option" where
  "write_indirect D fildes inode_idx cursor nbyte buf blocks_needed i first_block bytes_written ind_block s =
    (if i < blocks_needed then
       if first_block \<and> cursor mod BLOCK_SIZE \<noteq> 0 then do {
         b \<leftarrow> nth_opt ind_block i;
         (case write_first D b cursor nbyte buf s of
            (None, s) \<Rightarrow> None
          | (Some (Inl rc), s) \<Rightarrow> Some (Inl rc, s)
          | (Some (Inr ws), s) \<Rightarrow>
              write_indirect D fildes inode_idx cursor nbyte buf blocks_needed (Suc i) False
                (bytes_written + ws) ind_block s) }
       else do {
         b0 \<leftarrow> nth_opt ind_block i;
         (b, s) \<leftarrow> (if b0 \<noteq> 0 then Some (b0, s) else take_free_block s);
         if b = 0 then do {
           (rc, s) \<leftarrow> write_done fildes inode_idx cursor bytes_written s; Some (Inl rc, s) }
         else do {
         (r, s) \<leftarrow> write_out D b (\<not> (int i = int blocks_needed - 1 \<and> usub nbyte bytes_written < BLOCK_SIZE))
            nbyte buf bytes_written s;
         (case r of
            Inl rc \<Rightarrow> Some (Inl rc, s)
          | Inr bw \<Rightarrow>
              write_indirect D fildes inode_idx cursor nbyte buf blocks_needed (Suc i) False bw
                (ind_block[i := b]) s) } }
     else Some (Inr (bytes_written, ind_block), s))"
  by pat_completeness auto
termination
  by (relation "measure (\<lambda>(D, fildes, inode_idx, cursor, nbyte, buf, blocks_needed, i, first_block, bytes_written, ind_block, s).
       blocks_needed - i)") auto

declare write_indirect.simps [simp del]

text \<open>
  Lines 607-626: the indirect block, the index in it to start at and its number; read from disk, or
  new and empty if the file has none.
\<close>

definition indirect_for_write :: "'d disk_ops \<Rightarrow> int \<Rightarrow> nat \<Rightarrow> nat \<Rightarrow> nat \<Rightarrow> 'd fs
    \<Rightarrow> ((int + (u16 list \<times> nat \<times> u16)) \<times> 'd fs) option" where
  "indirect_for_write D fildes inode_idx cursor bytes_written s = do {
     n \<leftarrow> nth_opt (inode_table s) inode_idx;
     if single_indirect_block n \<noteq> 0 then
       let (rc, block) = dev_read D (single_indirect_block n) s in
       if rc \<noteq> 0 then Some (Inl (- 1), s) else do {
       raw \<leftarrow> mem_read block 0 BLOCK_SIZE;
       Some (Inr (dec16s 2048 raw, cursor div BLOCK_SIZE, single_indirect_block n), s) }
     else do {
       (b, s) \<leftarrow> take_free_block s;
       if b = 0 then do {
         (rc, s) \<leftarrow> write_done fildes inode_idx cursor bytes_written s; Some (Inl rc, s) }
       else Some (Inr (replicate 2048 0, 0, b),
         s\<lparr>inode_table := (inode_table s)[inode_idx := n\<lparr>single_indirect_block := b\<rparr>]\<rparr>) } }"

text \<open>Lines 605-698: the part that goes to the indirect block.\<close>

definition write_rest :: "'d disk_ops \<Rightarrow> int \<Rightarrow> nat \<Rightarrow> nat \<Rightarrow> nat \<Rightarrow> u8 list \<Rightarrow> bool \<Rightarrow> nat \<Rightarrow> 'd fs
    \<Rightarrow> ((int + nat) \<times> 'd fs) option" where
  "write_rest D fildes inode_idx cursor nbyte buf first_block bytes_written s =
    (if usub nbyte bytes_written > 0 then do {
       (r, s) \<leftarrow> indirect_for_write D fildes inode_idx cursor bytes_written s;
       (case r of
          Inl rc \<Rightarrow> Some (Inl rc, s)
        | Inr (ind_block, ind_block_idx, sib) \<Rightarrow> do {
            let blocks_needed = ceil_blocks (usub nbyte bytes_written) mod 2 ^ 16;
            (r, s) \<leftarrow> write_indirect D fildes inode_idx cursor nbyte buf blocks_needed ind_block_idx
              first_block bytes_written ind_block s;
            (case r of
               Inl rc \<Rightarrow> Some (Inl rc, s)
             | Inr (bw, ind_block) \<Rightarrow>
                 let (rc, s) = dev_write D sib (enc16s ind_block) s in
                 if rc \<noteq> 0 then Some (Inl (- 1), s) else Some (Inr bw, s)) }) }
     else Some (Inr bytes_written, s))"

text \<open>Lines 537-704: the call once its arguments are checked and clipped.\<close>

definition write_body :: "'d disk_ops \<Rightarrow> int \<Rightarrow> nat \<Rightarrow> nat \<Rightarrow> nat \<Rightarrow> u8 list \<Rightarrow> 'd fs \<Rightarrow> (int \<times> 'd fs) option" where
  "write_body D fildes inode_idx cursor nbyte buf s = do {
     (r, s) \<leftarrow> write_direct D fildes inode_idx cursor nbyte buf True 0 (cursor div BLOCK_SIZE) s;
     (case r of
        Inl rc \<Rightarrow> Some (rc, s)
      | Inr (first_block, bytes_written) \<Rightarrow> do {
          (r, s) \<leftarrow> write_rest D fildes inode_idx cursor nbyte buf first_block bytes_written s;
          (case r of
             Inl rc \<Rightarrow> Some (rc, s)
           | Inr bytes_written \<Rightarrow> write_done fildes inode_idx cursor bytes_written s) }) }"

definition fs_write :: "'d disk_ops \<Rightarrow> int \<Rightarrow> u8 list \<Rightarrow> nat \<Rightarrow> 'd fs \<Rightarrow> (int \<times> 'd fs) option" where
  "fs_write D fildes buf nbyte0 s =
    (if fildes < 0 \<or> fildes > int MAX_NUM_FD - 1 then Some (- 1, s) else do {
     f \<leftarrow> nth_opt (fd_table s) (nat fildes);
     if \<not> fd_is_used f then Some (- 1, s) else
     let inode_idx = unat (fd_inode_number f) in
     if inode_idx > MAX_NUM_FILES - 1 then Some (- 1, s) else
     let cursor = fd_offset f;
         nbyte = (if (cursor + nbyte0) mod 2 ^ 64 > MAX_FILE_SIZE then usub MAX_FILE_SIZE cursor else nbyte0)
     in write_body D fildes inode_idx cursor nbyte buf s })"

end
