(* ===== verification/Fs_Read_Spec.thy ===== *)
theory Fs_Read_Spec
  imports Fs_Io
begin

text \<open>
  What a file holds, and that \<open>fs_read\<close> returns it. The pointers of an inode (direct ones and the
  entries of the indirect block) give its blocks, \<open>fview\<close>; \<open>fbyte\<close> is the byte at a position of
  the file and \<open>content\<close> all of them up to the size.
\<close>

definition pdata :: "(nat \<Rightarrow> u8 list) \<Rightarrow> u16 list \<Rightarrow> nat \<Rightarrow> u8 list option" where
  "pdata B ps k = (if k < length ps \<and> ps ! k \<noteq> 0 then Some (B (unat (ps ! k))) else None)"

definition fview :: "(nat \<Rightarrow> u8 list) \<Rightarrow> inode \<Rightarrow> nat \<Rightarrow> u8 list option" where
  "fview B n k = (if k < NUM_DIRECT_BLOCKS then pdata B (direct_block n) k
     else pdata B (indirect_entries B n) (k - NUM_DIRECT_BLOCKS))"

definition fbyte :: "(nat \<Rightarrow> u8 list) \<Rightarrow> inode \<Rightarrow> nat \<Rightarrow> u8" where
  "fbyte B n p = (case fview B n (p div BLOCK_SIZE) of None \<Rightarrow> 0 | Some bs \<Rightarrow> bs ! (p mod BLOCK_SIZE))"

definition fbytes :: "(nat \<Rightarrow> u8 list) \<Rightarrow> inode \<Rightarrow> nat \<Rightarrow> nat \<Rightarrow> u8 list" where
  "fbytes B n p k = map (fbyte B n) [p..<p + k]"

definition content :: "(nat \<Rightarrow> u8 list) \<Rightarrow> inode \<Rightarrow> u8 list" where
  "content B n = fbytes B n 0 (unat (file_size n))"

text \<open>Every block that holds a byte below \<open>m\<close> is there, with a number the disk has.\<close>

definition backed :: "(nat \<Rightarrow> u8 list) \<Rightarrow> inode \<Rightarrow> nat \<Rightarrow> bool" where
  "backed B n m \<longleftrightarrow> (\<forall>k. k * BLOCK_SIZE < m \<longrightarrow> fview B n k \<noteq> None) \<and>
     (\<forall>b \<in> set (direct_block n) \<union> set (indirect_entries B n). unat b < DISK_BLOCKS) \<and>
     unat (single_indirect_block n) < DISK_BLOCKS"

lemma length_fbytes [simp]: "length (fbytes B n p k) = k"
  by (simp add: fbytes_def)

lemma fbytes_0 [simp]: "fbytes B n p 0 = []"
  by (simp add: fbytes_def)

lemma fbytes_add: "fbytes B n p (k + l) = fbytes B n p k @ fbytes B n (p + k) l"
  using upt_add_eq_append [of p "p + k" l] by (simp add: fbytes_def add.assoc)

lemma fbytes_content:
  assumes "p + k \<le> unat (file_size n)"
  shows "fbytes B n p k = take k (drop p (content B n))"
  using assms by (simp add: content_def fbytes_def drop_map take_map)

lemma fbytes_block:
  assumes "fview B n j = Some bs" and "length bs = BLOCK_SIZE" and "off + k \<le> BLOCK_SIZE"
  shows "fbytes B n (j * BLOCK_SIZE + off) k = take k (drop off bs)"
proof (rule nth_equalityI)
  show "length (fbytes B n (j * BLOCK_SIZE + off) k) = length (take k (drop off bs))"
    using assms by simp
next
  fix i
  assume "i < length (fbytes B n (j * BLOCK_SIZE + off) k)"
  then have i: "i < k" by simp
  with assms(3) have "(j * BLOCK_SIZE + off + i) div BLOCK_SIZE = j"
    "(j * BLOCK_SIZE + off + i) mod BLOCK_SIZE = off + i"
    by (simp_all add: add.assoc div_mult_self3 BLOCK_SIZE_def)
  with assms i show "fbytes B n (j * BLOCK_SIZE + off) k ! i = take k (drop off bs) ! i"
    by (simp add: fbytes_def fbyte_def)
qed

lemma ceil_blocks_step: "0 < k \<Longrightarrow> ceil_blocks k = Suc (ceil_blocks (k - BLOCK_SIZE))"
  by (cases "k < BLOCK_SIZE") (auto simp: ceil_blocks_def BLOCK_SIZE_def le_div_geq le_mod_geq)

lemma ceil_blocks_le_iff: "ceil_blocks n \<le> j \<longleftrightarrow> n \<le> j * BLOCK_SIZE"
proof -
  define q r where "q = n div BLOCK_SIZE" and "r = n mod BLOCK_SIZE"
  have n: "n = q * BLOCK_SIZE + r" and r: "r < BLOCK_SIZE" by (simp_all add: q_def r_def BLOCK_SIZE_def)
  have c: "ceil_blocks n = (if r = 0 then q else Suc q)" by (simp add: ceil_blocks_def q_def r_def)
  have "Suc q \<le> j \<longleftrightarrow> q * BLOCK_SIZE + r \<le> j * BLOCK_SIZE" if "r \<noteq> 0"
  proof
    assume "Suc q \<le> j"
    then have "Suc q * BLOCK_SIZE \<le> j * BLOCK_SIZE" by (rule mult_le_mono1)
    then show "q * BLOCK_SIZE + r \<le> j * BLOCK_SIZE" using r by simp
  next
    assume "q * BLOCK_SIZE + r \<le> j * BLOCK_SIZE"
    then have "q * BLOCK_SIZE < j * BLOCK_SIZE" using that by linarith
    then show "Suc q \<le> j" by simp
  qed
  then show ?thesis using n unfolding c by (cases "r = 0") (simp_all add: BLOCK_SIZE_def)
qed

lemma ceil_blocks_eq: "j * BLOCK_SIZE < n \<Longrightarrow> n \<le> Suc j * BLOCK_SIZE \<Longrightarrow> ceil_blocks n = Suc j"
  using ceil_blocks_le_iff [of n j] ceil_blocks_le_iff [of n "Suc j"] by simp

lemma ceil_blocks_le: "n \<le> ceil_blocks n * BLOCK_SIZE"
  using ceil_blocks_le_iff [of n "ceil_blocks n"] by simp

lemma ceil_blocks_less: "j * BLOCK_SIZE < n \<longleftrightarrow> j < ceil_blocks n"
  using ceil_blocks_le_iff [of n j] by auto

text \<open>Copying one block that is not the first of the call.\<close>

lemma read_copy_next:
  assumes "br \<le> nbyte" and "nbyte \<le> length buf" and "nbyte < 2 ^ 64" and "length bs = BLOCK_SIZE"
  shows "read_copy fsz cursor nbyte False br bs buf
    = Some (min nbyte (br + BLOCK_SIZE), overlay br (take (nbyte - br) bs) buf)"
  using assms
  by (auto simp: read_copy_def usub_le mem_read_in mem_write_in min_def)

lemma read_copy_first:
  assumes "cursor + nbyte \<le> fsz" and "nbyte \<le> length buf" and "fsz < 2 ^ 64" and "length bs = BLOCK_SIZE"
    and m: "m = min nbyte (BLOCK_SIZE - cursor mod BLOCK_SIZE)"
  shows "read_copy fsz cursor nbyte True 0 bs buf
    = Some (m, overlay 0 (take m (drop (cursor mod BLOCK_SIZE) bs)) buf)"
proof -
  have "cursor mod BLOCK_SIZE < BLOCK_SIZE" by (simp add: BLOCK_SIZE_def)
  moreover have "(if nbyte > BLOCK_SIZE - cursor mod BLOCK_SIZE then BLOCK_SIZE - cursor mod BLOCK_SIZE else nbyte) = m"
    by (simp add: m min_def)
  moreover have "(if usub fsz cursor > m then m else usub fsz cursor) = m"
    using assms(1,3) by (auto simp: usub_le m min_def)
  moreover have "m \<le> nbyte" "m \<le> BLOCK_SIZE - cursor mod BLOCK_SIZE" by (simp_all add: m)
  ultimately show ?thesis
    using assms(2,4) unfolding read_copy_def Let_def
    by (simp only: if_True) (simp add: mem_read_in mem_write_in)
qed

context disk_dev
begin

lemma dev_read_fview:
  assumes "mounted_on current img s nm B" and "backed B n m" and "k < NUM_DIRECT_BLOCKS"
    and "k * BLOCK_SIZE < m" and "inode_ok n"
  shows "\<exists>bs. nth_opt (direct_block n) k = Some (direct_block n ! k) \<and> direct_block n ! k \<noteq> 0 \<and>
    dev_read D (direct_block n ! k) s = (0, bs) \<and> fview B n k = Some bs \<and> length bs = BLOCK_SIZE"
proof -
  from assms have "fview B n k \<noteq> None" by (simp add: backed_def)
  with assms(3,5) have k: "k < length (direct_block n)" "direct_block n ! k \<noteq> 0"
    "fview B n k = Some (B (unat (direct_block n ! k)))"
    by (auto simp: fview_def pdata_def inode_ok_def split: if_splits)
  moreover from k(1) assms(2) have "unat (direct_block n ! k) < DISK_BLOCKS" by (auto simp: backed_def)
  ultimately show ?thesis
    using dev_read_mounted [OF assms(1)] mounted_block [OF assms(1)] by (simp add: nth_opt_in)
qed

lemma read_direct_loop:
  assumes m: "mounted_on current img s nm B" and n: "inode_ok n"
    and sz: "cursor + nbyte \<le> unat (file_size n)" and bk: "backed B n (cursor + nbyte)"
  shows "br + cursor = i * BLOCK_SIZE \<Longrightarrow> br \<le> nbyte \<Longrightarrow> i \<le> NUM_DIRECT_BLOCKS \<Longrightarrow> nbyte \<le> length buf \<Longrightarrow>
    stop = min nbyte (NUM_DIRECT_BLOCKS * BLOCK_SIZE - cursor) \<Longrightarrow>
    read_direct D s n cursor nbyte i False br buf
      = Some (Inr (False, stop, overlay br (fbytes B n (cursor + br) (stop - br)) buf))"
proof (induction "NUM_DIRECT_BLOCKS - i" arbitrary: i br buf)
  case 0
  then have "br = stop" by (simp add: c_consts)
  with 0 show ?case by (subst read_direct.simps) simp
next
  case (Suc x)
  have lt: "nbyte < 2 ^ 64"
    using sz unsigned_less [of "file_size n", where 'a = nat] by simp
  show ?case
  proof (cases "br = nbyte")
    case True
    with Suc.prems have "stop = nbyte" by (auto simp: c_consts min_def)
    with True lt show ?thesis by (subst read_direct.simps) (simp add: usub_le)
  next
    case False
    with Suc have br: "br < nbyte" and i: "i < NUM_DIRECT_BLOCKS" by auto
    with Suc.prems(1) have "i * BLOCK_SIZE < cursor + nbyte" by simp
    from dev_read_fview [OF m bk i this n] obtain bs where bs:
      "nth_opt (direct_block n) i = Some (direct_block n ! i)" "direct_block n ! i \<noteq> 0"
      "dev_read D (direct_block n ! i) s = (0, bs)" "fview B n i = Some bs" "length bs = BLOCK_SIZE"
      by blast
    let ?br = "min nbyte (br + BLOCK_SIZE)" and ?buf = "overlay br (take (nbyte - br) bs) buf"
    have step: "read_direct D s n cursor nbyte i False br buf
        = read_direct D s n cursor nbyte (Suc i) False ?br ?buf"
      using i br sz lt bs read_copy_next [OF Suc.prems(2,4) lt bs(5)]
      by (subst read_direct.simps) (simp add: usub_le)
    have st: "?br \<le> stop" and bl: "?br - br \<le> BLOCK_SIZE" and tk: "take (nbyte - br) bs = take (?br - br) bs"
      using Suc.prems i bs(5) by (auto simp: min_def c_consts)
    have fb: "fbytes B n (cursor + br) (?br - br) = take (?br - br) bs"
      using fbytes_block [OF bs(4,5), of 0 "?br - br"] Suc.prems(1) bl by (simp add: add.commute)
    have len: "length ?buf = length buf"
      by (rule length_overlay) (use Suc.prems(4) br in \<open>auto simp: min_def\<close>)
    have fin: "overlay ?br (fbytes B n (cursor + ?br) (stop - ?br)) ?buf
        = overlay br (fbytes B n (cursor + br) (stop - br)) buf"
    proof -
      have "stop - br = (?br - br) + (stop - ?br)" "cursor + ?br = cursor + br + (?br - br)"
        using st br by auto
      then show ?thesis
        using fb tk fbytes_add [of B n "cursor + br" "?br - br" "stop - ?br"] br bs(5) bl Suc.prems(4)
          overlay_overlay [of br "take (?br - br) bs" buf "fbytes B n (cursor + ?br) (stop - ?br)"]
        by (auto simp: min_absorb2)
    qed
    show ?thesis
    proof (cases "br + BLOCK_SIZE \<le> nbyte")
      case True
      then have "?br + cursor = Suc i * BLOCK_SIZE" using Suc.prems(1) by simp
      from Suc.hyps(1) [of "Suc i", OF _ this _ _ _ Suc.prems(5)] Suc.hyps(2) i True len Suc.prems(4) step fin
      show ?thesis by simp
    next
      case False
      then have "?br = nbyte" by simp
      moreover from this st Suc.prems(5) have "stop = nbyte" by simp
      ultimately show ?thesis
        using step fin lt by (subst (asm) (2) read_direct.simps) (simp add: usub_le)
    qed
  qed
qed


lemma dev_read_indirect:
  assumes "mounted_on current img s nm B" and "backed B n m"
    and "(NUM_DIRECT_BLOCKS + i) * BLOCK_SIZE < m"
  defines "ind \<equiv> indirect_entries B n"
  shows "\<exists>bs. nth_opt ind i = Some (ind ! i) \<and> ind ! i \<noteq> 0 \<and>
    dev_read D (ind ! i) s = (0, bs) \<and> fview B n (NUM_DIRECT_BLOCKS + i) = Some bs \<and> length bs = BLOCK_SIZE"
proof -
  from assms have "fview B n (NUM_DIRECT_BLOCKS + i) \<noteq> None" by (auto simp: backed_def)
  then have k: "i < length ind" "ind ! i \<noteq> 0"
    "fview B n (NUM_DIRECT_BLOCKS + i) = Some (B (unat (ind ! i)))"
    by (auto simp: fview_def pdata_def ind_def split: if_splits)
  moreover from k(1) assms(2) have "unat (ind ! i) < DISK_BLOCKS" by (auto simp: backed_def ind_def)
  ultimately show ?thesis
    using dev_read_mounted [OF assms(1)] mounted_block [OF assms(1)] by (simp add: nth_opt_in)
qed

lemma read_indirect_loop:
  assumes m: "mounted_on current img s nm B" and sz: "nbyte < 2 ^ 64"
    and bk: "backed B n (cursor + nbyte)"
  shows "bn = i + ceil_blocks (nbyte - br) \<Longrightarrow> br \<le> nbyte \<Longrightarrow> nbyte \<le> length buf \<Longrightarrow>
    br = nbyte \<or> br + cursor = (NUM_DIRECT_BLOCKS + i) * BLOCK_SIZE \<Longrightarrow>
    read_indirect D s n (indirect_entries B n) cursor nbyte bn i False br buf
      = Some (Inr (nbyte, overlay br (fbytes B n (cursor + br) (nbyte - br)) buf))"
proof (induction "ceil_blocks (nbyte - br)" arbitrary: i br buf)
  case 0
  then have "br = nbyte" using ceil_blocks_step [of "nbyte - br"] by fastforce
  with 0 show ?case by (subst read_indirect.simps) simp
next
  case (Suc x)
  then have br: "br < nbyte" by (cases "br = nbyte") (auto simp: ceil_blocks_def)
  let ?ind = "indirect_entries B n"
  have "(NUM_DIRECT_BLOCKS + i) * BLOCK_SIZE < cursor + nbyte" using br Suc.prems(4) by linarith
  from dev_read_indirect [OF m bk this] obtain bs where bs:
    "nth_opt ?ind i = Some (?ind ! i)" "?ind ! i \<noteq> 0" "dev_read D (?ind ! i) s = (0, bs)"
    "fview B n (NUM_DIRECT_BLOCKS + i) = Some bs" "length bs = BLOCK_SIZE" by blast
  let ?br = "min nbyte (br + BLOCK_SIZE)" and ?buf = "overlay br (take (nbyte - br) bs) buf"
  have cb: "ceil_blocks (nbyte - br) = Suc (ceil_blocks (nbyte - ?br))"
    using ceil_blocks_step [of "nbyte - br"] br by (simp add: min_def)
  have step: "read_indirect D s n ?ind cursor nbyte bn i False br buf
      = read_indirect D s n ?ind cursor nbyte bn (Suc i) False ?br ?buf"
    using cb Suc.prems bs read_copy_next [OF Suc.prems(2,3) sz bs(5)]
    by (subst read_indirect.simps) simp
  have fb: "fbytes B n (cursor + br) (?br - br) = take (?br - br) bs"
    using fbytes_block [OF bs(4,5), of 0 "?br - br"] Suc.prems(4) br by (simp add: add.commute)
  have len: "length ?buf = length buf"
    by (rule length_overlay) (use Suc.prems(3) br in \<open>auto simp: min_def\<close>)
  have tk: "take (nbyte - br) bs = take (?br - br) bs" using bs(5) by (simp add: min_def)
  have fin: "overlay ?br (fbytes B n (cursor + ?br) (nbyte - ?br)) ?buf
      = overlay br (fbytes B n (cursor + br) (nbyte - br)) buf"
  proof -
    have "nbyte - br = (?br - br) + (nbyte - ?br)" "cursor + ?br = cursor + br + (?br - br)"
      using br by auto
    then show ?thesis
      using fb tk fbytes_add [of B n "cursor + br" "?br - br" "nbyte - ?br"] br bs(5) Suc.prems(3)
        overlay_overlay [of br "take (?br - br) bs" buf "fbytes B n (cursor + ?br) (nbyte - ?br)"]
      by (auto simp: min_absorb2)
  qed
  have "read_indirect D s n ?ind cursor nbyte bn (Suc i) False ?br ?buf
      = Some (Inr (nbyte, overlay ?br (fbytes B n (cursor + ?br) (nbyte - ?br)) ?buf))"
    by (rule Suc.hyps(1)) (use Suc.hyps(2) Suc.prems cb len br in \<open>auto simp: min_def algebra_simps\<close>)
  with step fin show ?case by simp
qed


lemma read_direct_all:
  assumes m: "mounted_on current img s nm B" and n: "inode_ok n"
    and sz: "cursor + nbyte \<le> unat (file_size n)" and bk: "backed B n (cursor + nbyte)"
    and c: "cursor < NUM_DIRECT_BLOCKS * BLOCK_SIZE" and buf: "nbyte \<le> length buf" and pos: "0 < nbyte"
  defines "stop \<equiv> min nbyte (NUM_DIRECT_BLOCKS * BLOCK_SIZE - cursor)"
  shows "read_direct D s n cursor nbyte (cursor div BLOCK_SIZE) True 0 buf
      = Some (Inr (False, stop, overlay 0 (fbytes B n cursor stop) buf))"
proof -
  let ?i = "cursor div BLOCK_SIZE" and ?off = "cursor mod BLOCK_SIZE"
  define k where "k = min nbyte (BLOCK_SIZE - ?off)"
  have i: "?i < NUM_DIRECT_BLOCKS" using c by (simp add: c_consts)
  have off: "cursor = ?i * BLOCK_SIZE + ?off" "?off < BLOCK_SIZE" by (simp_all add: BLOCK_SIZE_def)
  then have "?i * BLOCK_SIZE < cursor + nbyte" using pos by linarith
  from dev_read_fview [OF m bk i this n] obtain bs where bs:
    "nth_opt (direct_block n) ?i = Some (direct_block n ! ?i)" "direct_block n ! ?i \<noteq> 0"
    "dev_read D (direct_block n ! ?i) s = (0, bs)" "fview B n ?i = Some bs" "length bs = BLOCK_SIZE"
    by blast
  have lt: "unat (file_size n) < 2 ^ 64"
    using unsigned_less [of "file_size n", where 'a = nat] by simp
  let ?buf = "overlay 0 (take k (drop ?off bs)) buf"
  have step: "read_direct D s n cursor nbyte ?i True 0 buf
      = read_direct D s n cursor nbyte (Suc ?i) False k ?buf"
    using i pos sz lt bs read_copy_first [OF sz buf lt bs(5) k_def]
    by (subst read_direct.simps) (simp add: usub_le)
  have "(?i + 1) * BLOCK_SIZE \<le> NUM_DIRECT_BLOCKS * BLOCK_SIZE" using i by (intro mult_le_mono1) simp
  then have "?i * BLOCK_SIZE + BLOCK_SIZE \<le> NUM_DIRECT_BLOCKS * BLOCK_SIZE" by (simp only: add_mult_distrib mult_1)
  then have "BLOCK_SIZE - ?off \<le> NUM_DIRECT_BLOCKS * BLOCK_SIZE - cursor" using off by linarith
  then have k: "k \<le> nbyte" "?off + k \<le> BLOCK_SIZE" "k \<le> stop"
    using off(2) by (auto simp: k_def stop_def min_def)
  have fb: "fbytes B n cursor k = take k (drop ?off bs)"
    using fbytes_block [OF bs(4,5) k(2)] off(1) by simp
  have len: "length ?buf = length buf" by (rule length_overlay) (use k buf in \<open>simp add: min_def\<close>)
  have fin: "overlay k (fbytes B n (cursor + k) (stop - k)) ?buf = overlay 0 (fbytes B n cursor stop) buf"
    unfolding fb [symmetric]
    using overlay_overlay [of 0 "fbytes B n cursor k" buf "fbytes B n (cursor + k) (stop - k)"]
      fbytes_add [of B n cursor k "stop - k"] k buf by simp
  show ?thesis
  proof (cases "k = nbyte")
    case True
    then have "stop = nbyte" using k(3) by (simp add: stop_def)
    with True step fin lt sz show ?thesis
      by (subst (asm) (2) read_direct.simps) (simp add: usub_le)
  next
    case False
    then have "k = BLOCK_SIZE - ?off" by (simp add: k_def min_def split: if_splits)
    then have "k + cursor = Suc ?i * BLOCK_SIZE" using off unfolding mult_Suc by linarith
    from read_direct_loop [OF m n sz bk this k(1) _ _ stop_def [THEN meta_eq_to_obj_eq]] i buf len step fin
    show ?thesis by simp
  qed
qed

lemma read_rest_ok:
  assumes m: "mounted_on current img s nm B" and sz: "cursor + nbyte \<le> unat (file_size n)"
    and max: "unat (file_size n) \<le> MAX_FILE_SIZE"
    and bk: "backed B n (cursor + nbyte)" and buf: "nbyte \<le> length buf"
    and c: "cursor < NUM_DIRECT_BLOCKS * BLOCK_SIZE"
    and br: "br = min nbyte (NUM_DIRECT_BLOCKS * BLOCK_SIZE - cursor)" and fb: "0 < nbyte \<longrightarrow> \<not> fb"
  shows "read_rest D s n cursor nbyte fb br buf
    = Some (Inr (nbyte, overlay br (fbytes B n (cursor + br) (nbyte - br)) buf))"
proof -
  have lt: "nbyte < 2 ^ 64" using sz max by (simp add: c_consts)
  show ?thesis
  proof (cases "br = nbyte")
    case True
    with lt show ?thesis by (simp add: read_rest_def usub_le)
  next
    case False
    with br c have br': "br < nbyte" "br + cursor = (NUM_DIRECT_BLOCKS + 0) * BLOCK_SIZE" by auto
    then have "fview B n NUM_DIRECT_BLOCKS \<noteq> None" using bk by (simp add: backed_def)
    then have ind: "single_indirect_block n \<noteq> 0" "unat (single_indirect_block n) < DISK_BLOCKS"
      using bk by (auto simp: fview_def pdata_def indirect_entries_def split: if_splits)
    have bn: "ceil_blocks (nbyte - br) mod 2 ^ 16 = 0 + ceil_blocks (nbyte - br)"
    proof -
      have "nbyte - br \<le> 2 ^ 20" using sz max by (simp add: c_consts)
      then have "ceil_blocks (nbyte - br) \<le> 257"
        using div_le_mono [of "nbyte - br" "2 ^ 20" BLOCK_SIZE] by (simp add: ceil_blocks_def BLOCK_SIZE_def)
      then show ?thesis by simp
    qed
    have "dev_read D (single_indirect_block n) s = (0, B (unat (single_indirect_block n)))"
      by (rule dev_read_mounted [OF m ind(2)])
    moreover have "\<not> fb" "cursor div BLOCK_SIZE < NUM_DIRECT_BLOCKS"
      using fb br'(1) c by (auto simp: c_consts)
    ultimately show ?thesis
      using br' sz lt ind mounted_block [OF m, of "unat (single_indirect_block n)"]
        read_indirect_loop [OF m lt bk bn less_imp_le [OF br'(1)] buf]
      by (simp add: read_rest_def usub_le mem_read_in indirect_entries_def)
  qed
qed

lemma fs_read_content:
  assumes m: "mounted_on current img s nm B" and t: "fs_typed s"
    and fd: "0 \<le> fd" "fd < 32" "fd_is_used (fd_table s ! nat fd)"
    and nd: "unat (fd_inode_number (fd_table s ! nat fd)) < 64"
      "n = inode_table s ! unat (fd_inode_number (fd_table s ! nat fd))"
    and cur: "cursor = fd_offset (fd_table s ! nat fd)" "cursor < NUM_DIRECT_BLOCKS * BLOCK_SIZE"
    and sz: "cursor + nbyte \<le> unat (file_size n)" and max: "unat (file_size n) \<le> MAX_FILE_SIZE"
    and bk: "backed B n (cursor + nbyte)" and buf: "nbyte \<le> length buf"
  shows "fs_read D fd buf nbyte s = Some (int nbyte,
    overlay 0 (take nbyte (drop cursor (content B n))) buf,
    s\<lparr>fd_table := (fd_table s)[nat fd := (fd_table s ! nat fd)\<lparr>fd_offset := cursor + nbyte\<rparr>]\<rparr>)"
proof -
  define stop where "stop = min nbyte (NUM_DIRECT_BLOCKS * BLOCK_SIZE - cursor)"
  have ok: "inode_ok n" using fs_typedD(6) [OF t nd(1)] nd(2) by simp
  let ?buf = "overlay 0 (fbytes B n cursor stop) buf"
  have len: "length ?buf = length buf" by (rule length_overlay) (use buf in \<open>simp add: stop_def\<close>)
  obtain fb where fb: "read_direct D s n cursor nbyte (cursor div BLOCK_SIZE) True 0 buf
      = Some (Inr (fb, stop, ?buf))" "0 < nbyte \<longrightarrow> \<not> fb"
  proof (cases "nbyte = 0")
    case True
    then show ?thesis
      using that [of True] by (simp add: read_direct.simps [of D s n cursor] usub_le stop_def)
  next
    case False
    then show ?thesis
      using that [of False] read_direct_all [OF m ok sz bk cur(2) buf] by (simp add: stop_def)
  qed
  have "overlay stop (fbytes B n (cursor + stop) (nbyte - stop)) ?buf
      = overlay 0 (fbytes B n cursor nbyte) buf"
    using overlay_overlay [of 0 "fbytes B n cursor stop" buf "fbytes B n (cursor + stop) (nbyte - stop)"]
      fbytes_add [of B n cursor stop "nbyte - stop"] buf by (simp add: stop_def)
  also have "fbytes B n cursor nbyte = take nbyte (drop cursor (content B n))"
    by (rule fbytes_content [OF sz])
  finally have rest: "read_rest D s n cursor nbyte fb stop ?buf
      = Some (Inr (nbyte, overlay 0 (take nbyte (drop cursor (content B n))) buf))"
    using read_rest_ok [OF m sz max bk _ cur(2) stop_def fb(2)] buf len by simp
  have "nbyte \<le> MAX_FILE_SIZE" "cursor + nbyte < 2 ^ 31" "cursor div BLOCK_SIZE < NUM_DIRECT_BLOCKS"
    using sz max cur(2) by (simp_all add: c_consts)
  then show ?thesis
    using fd nd fb(1) rest cur(1) fs_typedD(1,2) [OF t]
    by (simp add: fs_read_def read_body_def nth_opt_in to_int_in MAX_NUM_FD_def Let_def)
qed

end

end
