(* ===== verification/Fs_Write_Spec.thy ===== *)
theory Fs_Write_Spec
  imports Fs_Read_Spec
begin

text \<open>
  That \<open>fs_write\<close> puts the caller's bytes at the offset of the descriptor and touches no block of
  another file. \<open>pinv bm X ps\<close> says of an array \<open>ps\<close> of block pointers that its non-zero entries
  are marked in the bitmap, pairwise different and outside \<open>X\<close>, a set of marked blocks that
  belong to somebody else (block 0 is always one of them).
\<close>

lemma distinct_filter_iff:
  "distinct (filter P xs) \<longleftrightarrow>
    (\<forall>i < length xs. \<forall>j < length xs. P (xs ! i) \<longrightarrow> xs ! i = xs ! j \<longrightarrow> i = j)"
proof (induction xs)
  case Nil
  then show ?case by simp
next
  case (Cons x xs)
  have "(\<forall>i < length (x # xs). \<forall>j < length (x # xs). P ((x # xs) ! i) \<longrightarrow> (x # xs) ! i = (x # xs) ! j \<longrightarrow> i = j)
    \<longleftrightarrow> (P x \<longrightarrow> x \<notin> set xs) \<and>
        (\<forall>i < length xs. \<forall>j < length xs. P (xs ! i) \<longrightarrow> xs ! i = xs ! j \<longrightarrow> i = j)"
    by (auto simp: All_less_Suc2 in_set_conv_nth)
  with Cons show ?case by auto
qed

definition pinv :: "u8 list \<Rightarrow> nat set \<Rightarrow> u16 list \<Rightarrow> bool" where
  "pinv bm X ps \<longleftrightarrow> (\<forall>p \<in> set ps. p \<noteq> 0 \<longrightarrow> unat p \<in> bitset bm \<and> unat p \<notin> X) \<and>
     distinct (filter (\<lambda>p. p \<noteq> 0) ps) \<and> X \<subseteq> bitset bm \<and> 0 \<in> X"

definition nfree :: "u8 list \<Rightarrow> nat" where
  "nfree bm = card ({..<DISK_BLOCKS} - bitset bm)"

definition blocks_of :: "u16 list \<Rightarrow> nat set" where
  "blocks_of ps = unat ` (set ps - {0})"

lemma blocks_of_append [simp]: "blocks_of (ps @ qs) = blocks_of ps \<union> blocks_of qs"
  by (auto simp: blocks_of_def)

lemma blocks_of_Nil [simp]: "blocks_of [] = {}"
  by (simp add: blocks_of_def)

lemma blocks_of_Cons: "blocks_of (p # ps) = (if p = 0 then {} else {unat p}) \<union> blocks_of ps"
  by (auto simp: blocks_of_def)

lemma unat_in_blocks_of: "p \<noteq> 0 \<Longrightarrow> unat p \<in> blocks_of ps \<longleftrightarrow> p \<in> set ps"
  by (auto simp: blocks_of_def simp flip: u16_eq_iff)

lemma pinv_append:
  "pinv bm X (ps @ qs) \<longleftrightarrow> pinv bm (X \<union> blocks_of qs) ps \<and> pinv bm X qs"
  by (auto simp: pinv_def unat_in_blocks_of) (auto simp: blocks_of_def)

lemma pinv_swap: "pinv bm X (ps @ qs) \<longleftrightarrow> pinv bm X (qs @ ps)"
  by (auto simp: pinv_def)

lemma pinv_mono: "pinv bm X ps \<Longrightarrow> bitset bm \<subseteq> bitset bm' \<Longrightarrow> pinv bm' X ps"
  by (auto simp: pinv_def)

lemma pinv_subset: "pinv bm X ps \<Longrightarrow> Y \<subseteq> X \<Longrightarrow> 0 \<in> Y \<Longrightarrow> pinv bm Y ps"
  by (auto simp: pinv_def)

lemma pinv_nth:
  assumes "pinv bm X ps" and "length bm = 1024" and "k < length ps" and "ps ! k \<noteq> 0"
  shows "unat (ps ! k) \<in> bitset bm" and "unat (ps ! k) \<notin> X" and "unat (ps ! k) < DISK_BLOCKS"
  using assms bitset_bound [of "unat (ps ! k)" bm] by (auto simp: pinv_def DISK_BLOCKS_def)

lemma nfree_insert:
  assumes "bitset bm' = insert k (bitset bm)"
  shows "nfree bm \<le> Suc (nfree bm')"
proof -
  have "{..<DISK_BLOCKS} - bitset bm \<subseteq> insert k ({..<DISK_BLOCKS} - bitset bm')" using assms by auto
  then have "nfree bm \<le> card (insert k ({..<DISK_BLOCKS} - bitset bm'))"
    unfolding nfree_def by (intro card_mono) auto
  also have "\<dots> \<le> Suc (nfree bm')" by (simp add: nfree_def card_insert_le_m1 card_insert_if)
  finally show ?thesis .
qed

lemma take_free_block_ok:
  assumes l: "length (blocks_bitmap s) = 1024" and z: "0 \<in> bitset (blocks_bitmap s)"
    and f: "0 < nfree (blocks_bitmap s)"
  shows "\<exists>b bm. take_free_block s = Some (b, s\<lparr>blocks_bitmap := bm\<rparr>) \<and> b \<noteq> 0 \<and>
    unat b < DISK_BLOCKS \<and> unat b \<notin> bitset (blocks_bitmap s) \<and> length bm = 1024 \<and>
    bitset bm = insert (unat b) (bitset (blocks_bitmap s))"
proof -
  have cap: "8 * length (blocks_bitmap s) = DISK_BLOCKS" using l by (simp add: DISK_BLOCKS_def)
  obtain b where b: "find_free_bit (blocks_bitmap s) = Some b" using bm.find_total [OF cap] by blast
  from f have "\<not> {..<DISK_BLOCKS} \<subseteq> bitset (blocks_bitmap s)"
    by (auto simp: nfree_def Diff_eq_empty_iff [THEN iffD2])
  with bm.find_zero_iff_full [OF cap z b] have "b \<noteq> 0" by simp
  with bm.alloc_fresh [OF cap z b] bm.find_free [OF cap z b] b l show ?thesis
    by (auto simp: take_free_block_def DISK_BLOCKS_def)
qed

lemma pdata_update:
  assumes "k < length ps" and "b \<noteq> 0" and "distinct (filter (\<lambda>p. p \<noteq> 0) (ps[k := b]))"
  shows "pdata (B(unat b := c)) (ps[k := b]) = (pdata B ps)(k \<mapsto> c)"
proof
  fix j
  have "ps ! j \<noteq> b" if "j < length ps" "j \<noteq> k"
    using assms(3) [unfolded distinct_filter_iff, rule_format, of k j] assms(1,2) that by auto
  with assms(1,2) show "pdata (B(unat b := c)) (ps[k := b]) j = ((pdata B ps)(k \<mapsto> c)) j"
    by (cases "j = k") (auto simp: pdata_def u16_eq_iff)
qed

lemma pinv_new:
  assumes "pinv bm X ps" and "bitset bm' = insert (unat b) (bitset bm)"
    and "unat b \<notin> bitset bm" and "k < length ps" and "ps ! k = 0"
  shows "pinv bm' X (ps[k := b])"
proof -
  have new: "\<forall>p \<in> set ps. p \<noteq> 0 \<longrightarrow> p \<noteq> b" using assms(1,3) by (auto simp: pinv_def)
  have "distinct (filter (\<lambda>p. p \<noteq> 0) (ps[k := b]))"
    unfolding distinct_filter_iff
  proof (intro allI impI)
    fix i j
    assume a: "i < length (ps[k := b])" "j < length (ps[k := b])" "ps[k := b] ! i \<noteq> 0"
      "ps[k := b] ! i = ps[k := b] ! j"
    with new assms(4,5) have "i = k \<longleftrightarrow> j = k" by (auto simp: nth_list_update split: if_splits)
    moreover have "distinct (filter (\<lambda>p. p \<noteq> 0) ps)" using assms(1) by (simp add: pinv_def)
    ultimately show "i = j"
      using a unfolding distinct_filter_iff by (cases "i = k") auto
  qed
  moreover have "\<forall>p \<in> set (ps[k := b]). p \<noteq> 0 \<longrightarrow> unat p \<in> bitset bm' \<and> unat p \<notin> X"
    by (rule Ball_set_update) (use assms in \<open>auto simp: pinv_def\<close>)
  ultimately show ?thesis using assms(1,2) by (auto simp: pinv_def)
qed

text \<open>The block for pointer \<open>k\<close>: the one that is there, or a new one.\<close>

lemma pointer_block:
  assumes l: "length (blocks_bitmap s) = 1024" and p: "pinv (blocks_bitmap s) X ps"
    and k: "k < length ps" and f: "ps ! k \<noteq> 0 \<or> 0 < nfree (blocks_bitmap s)"
  shows "\<exists>b bm. (if ps ! k \<noteq> 0 then Some (ps ! k, s) else take_free_block s) = Some (b, s\<lparr>blocks_bitmap := bm\<rparr>)
    \<and> b \<noteq> 0 \<and> unat b < DISK_BLOCKS \<and> unat b \<notin> X \<and> length bm = 1024 \<and> bitset (blocks_bitmap s) \<subseteq> bitset bm
    \<and> pinv bm X (ps[k := b]) \<and> nfree (blocks_bitmap s) \<le> Suc (nfree bm)
    \<and> (\<forall>B c. pdata (B(unat b := c)) (ps[k := b]) = (pdata B ps)(k \<mapsto> c))"
proof (cases "ps ! k = 0")
  case False
  with pinv_nth [OF p l k False] l p pdata_update [OF k False]
  show ?thesis
    by (intro exI [of _ "ps ! k"] exI [of _ "blocks_bitmap s"]) (auto simp: pinv_def)
next
  case True
  from p have z: "0 \<in> bitset (blocks_bitmap s)" by (auto simp: pinv_def)
  from take_free_block_ok [OF l z] f True obtain b bm where b:
    "take_free_block s = Some (b, s\<lparr>blocks_bitmap := bm\<rparr>)" "b \<noteq> 0" "unat b < DISK_BLOCKS"
    "unat b \<notin> bitset (blocks_bitmap s)" "length bm = 1024"
    "bitset bm = insert (unat b) (bitset (blocks_bitmap s))" by auto
  note q = pinv_new [OF p b(6,4) k True]
  then have "\<forall>B c. pdata (B(unat b := c)) (ps[k := b]) = (pdata B ps)(k \<mapsto> c)"
    using pdata_update [OF k b(2)] by (simp add: pinv_def)
  moreover have "unat b \<notin> X" using p b(4) by (auto simp: pinv_def)
  ultimately show ?thesis
    using True b q nfree_insert [OF b(6)] by (intro exI [of _ b] exI [of _ bm]) auto
qed


section \<open>The block-level effect of a write\<close>

lemma fit_take: "BLOCK_SIZE \<le> k \<Longrightarrow> fit (take k xs) = fit xs"
  by (auto simp: fit_def min_def)

definition put_blocks :: "nat \<Rightarrow> u8 list \<Rightarrow> (nat \<Rightarrow> u8 list option) \<Rightarrow> nat \<Rightarrow> u8 list option" where
  "put_blocks k data f j = (if k \<le> j \<and> j < k + ceil_blocks (length data)
     then Some (fit (drop ((j - k) * BLOCK_SIZE) data)) else f j)"

lemma put_blocks_Nil [simp]: "put_blocks k [] f = f"
  by (auto simp: put_blocks_def ceil_blocks_def fun_eq_iff)

lemma put_blocks_step:
  assumes "data \<noteq> []"
  shows "put_blocks k data f = put_blocks (Suc k) (drop BLOCK_SIZE data) (f(k \<mapsto> fit data))"
proof
  fix j
  have c: "ceil_blocks (length data) = Suc (ceil_blocks (length data - BLOCK_SIZE))"
    using assms by (intro ceil_blocks_step) simp
  show "put_blocks k data f j = put_blocks (Suc k) (drop BLOCK_SIZE data) (f(k \<mapsto> fit data)) j"
  proof (cases "j \<le> k")
    case True
    then show ?thesis by (auto simp: put_blocks_def c)
  next
    case False
    then have "(j - k) * BLOCK_SIZE = (j - Suc k) * BLOCK_SIZE + BLOCK_SIZE"
      using mult_Suc [of "j - Suc k" BLOCK_SIZE] by (simp add: Suc_diff_Suc)
    with False show ?thesis by (auto simp: put_blocks_def c)
  qed
qed

context disk_dev
begin

lemma write_out_ok:
  assumes m: "mounted_on current img s nm B" and b: "unat b < DISK_BLOCKS" and bw: "bw < nbyte"
    and buf: "nbyte \<le> length buf" and lt: "nbyte < 2 ^ 64" and w: "whole \<longleftrightarrow> BLOCK_SIZE \<le> nbyte - bw"
  shows "\<exists>d'. write_out D b whole nbyte buf bw s = Some (Inr (min nbyte (bw + BLOCK_SIZE)), s\<lparr>disk := d'\<rparr>)
    \<and> mounted_on current img (s\<lparr>disk := d'\<rparr>) nm (B(unat b := fit (drop bw (take nbyte buf))))"
proof (cases whole)
  case True
  let ?c = "take BLOCK_SIZE (drop bw buf)"
  have "?c = fit (drop bw (take nbyte buf))"
    using True w bw buf by (auto simp: fit_def drop_take min_def)
  moreover have "length ?c = BLOCK_SIZE" using True w bw buf by simp
  from dev_write_mounted [OF m b this] True w bw buf obtain d' where
    "dev_write D b ?c s = (0, s\<lparr>disk := d'\<rparr>)" "mounted_on current img (s\<lparr>disk := d'\<rparr>) nm (B(unat b := ?c))"
    by blast
  moreover have "min nbyte (bw + BLOCK_SIZE) = bw + BLOCK_SIZE" using True w bw by simp
  ultimately show ?thesis
    using True w bw buf by (intro exI [of _ d']) (simp add: write_out_def mem_read_in)
next
  case False
  let ?c = "overlay 0 (take (nbyte - bw) (drop bw buf)) zero_block"
  have "?c = fit (drop bw (take nbyte buf))"
    using False w bw buf by (simp add: fit_def drop_take overlay_def zero_block_def)
  moreover have "length ?c = BLOCK_SIZE" using False w bw buf by simp
  from dev_write_mounted [OF m b this] obtain d' where
    "dev_write D b ?c s = (0, s\<lparr>disk := d'\<rparr>)" "mounted_on current img (s\<lparr>disk := d'\<rparr>) nm (B(unat b := ?c))"
    by blast
  moreover have "min nbyte (bw + BLOCK_SIZE) = nbyte" using False w bw by simp
  ultimately show ?thesis
    using False w bw buf lt
    by (intro exI [of _ d']) (simp add: write_out_def mem_read_in mem_write_in usub_le)
qed

end

text \<open>The states that writing through direct pointers leads to.\<close>

definition upd_file :: "'d fs \<Rightarrow> nat \<Rightarrow> u16 list \<Rightarrow> u8 list \<Rightarrow> 'd \<Rightarrow> 'd fs" where
  "upd_file s i0 ds bm d = s\<lparr>blocks_bitmap := bm, disk := d,
     inode_table := (inode_table s)[i0 := (inode_table s ! i0)\<lparr>direct_block := ds\<rparr>]\<rparr>"

lemma upd_file_simps [simp]:
  "blocks_bitmap (upd_file s i0 ds bm d) = bm" "disk (upd_file s i0 ds bm d) = d"
  "fd_table (upd_file s i0 ds bm d) = fd_table s"
  "length (inode_table (upd_file s i0 ds bm d)) = length (inode_table s)"
  by (simp_all add: upd_file_def)

lemma upd_file_inode [simp]:
  "i0 < length (inode_table s) \<Longrightarrow>
    inode_table (upd_file s i0 ds bm d) ! i0 = (inode_table s ! i0)\<lparr>direct_block := ds\<rparr>"
  by (simp add: upd_file_def)

lemma upd_file_upd_file [simp]:
  "i0 < length (inode_table s) \<Longrightarrow>
    upd_file (upd_file s i0 ds bm d) i0 ds' bm' d' = upd_file s i0 ds' bm' d'"
  by (simp add: upd_file_def)

lemma upd_file_id:
  "upd_file s i0 (direct_block (inode_table s ! i0)) (blocks_bitmap s) (disk s) = s"
  by (simp add: upd_file_def)

lemma direct_for_write_ok:
  assumes l: "length (blocks_bitmap s) = 1024" and i0: "i0 < length (inode_table s)"
    and p: "pinv (blocks_bitmap s) X (direct_block (inode_table s ! i0))"
    and k: "k < length (direct_block (inode_table s ! i0))"
    and f: "direct_block (inode_table s ! i0) ! k \<noteq> 0 \<or> 0 < nfree (blocks_bitmap s)"
  defines "ds \<equiv> direct_block (inode_table s ! i0)"
  shows "\<exists>b bm. direct_for_write i0 k s = Some (b, upd_file s i0 (ds[k := b]) bm (disk s))
    \<and> b \<noteq> 0 \<and> unat b < DISK_BLOCKS \<and> unat b \<notin> X \<and> length bm = 1024 \<and> bitset (blocks_bitmap s) \<subseteq> bitset bm
    \<and> pinv bm X (ds[k := b]) \<and> nfree (blocks_bitmap s) \<le> Suc (nfree bm)
    \<and> (\<forall>B c. pdata (B(unat b := c)) (ds[k := b]) = (pdata B ds)(k \<mapsto> c))"
proof -
  from pointer_block [OF l p k f] obtain b bm where b:
    "(if ds ! k \<noteq> 0 then Some (ds ! k, s) else take_free_block s) = Some (b, s\<lparr>blocks_bitmap := bm\<rparr>)"
    "b \<noteq> 0" and rest: "unat b < DISK_BLOCKS \<and> unat b \<notin> X \<and> length bm = 1024 \<and> bitset (blocks_bitmap s) \<subseteq> bitset bm
    \<and> pinv bm X (ds[k := b]) \<and> nfree (blocks_bitmap s) \<le> Suc (nfree bm)
    \<and> (\<forall>B c. pdata (B(unat b := c)) (ds[k := b]) = (pdata B ds)(k \<mapsto> c))"
    unfolding ds_def by blast
  have "direct_for_write i0 k s = Some (b, upd_file s i0 (ds[k := b]) bm (disk s))"
  proof (cases "ds ! k = 0")
    case True
    with b i0 k show ?thesis by (simp add: direct_for_write_def nth_opt_in ds_def upd_file_def)
  next
    case False
    with b have "b = ds ! k" "s\<lparr>blocks_bitmap := bm\<rparr> = s" by auto
    moreover from this have "bm = blocks_bitmap s" by (metis fs.select_convs(5) fs.surjective fs.update_convs(5))
    ultimately show ?thesis
      using False i0 k upd_file_id [of s i0] by (simp add: direct_for_write_def nth_opt_in ds_def)
  qed
  with b(2) rest show ?thesis by blast
qed


context disk_dev
begin

lemma write_direct_loop:
  assumes buf: "nbyte \<le> length buf" and lt: "nbyte < 2 ^ 64"
    and stop: "stop = min nbyte (NUM_DIRECT_BLOCKS * BLOCK_SIZE - cursor)"
  shows "mounted_on current img s nm B \<Longrightarrow> length (blocks_bitmap s) = 1024 \<Longrightarrow> i0 < length (inode_table s) \<Longrightarrow>
    ds = direct_block (inode_table s ! i0) \<Longrightarrow> length ds = NUM_DIRECT_BLOCKS \<Longrightarrow> pinv (blocks_bitmap s) X ds \<Longrightarrow>
    bw \<le> stop \<Longrightarrow> bw = nbyte \<or> bw + cursor = i * BLOCK_SIZE \<Longrightarrow>
    ceil_blocks (stop - bw) \<le> nfree (blocks_bitmap s) \<Longrightarrow>
    \<exists>ds' bm' d' B'. write_direct D fildes i0 cursor nbyte buf False bw i s
        = Some (Inr (False, stop), upd_file s i0 ds' bm' d')
      \<and> mounted_on current img (upd_file s i0 ds' bm' d') nm B'
      \<and> length bm' = 1024 \<and> length ds' = NUM_DIRECT_BLOCKS \<and> pinv bm' X ds'
      \<and> pdata B' ds' = put_blocks i (drop bw (take stop buf)) (pdata B ds)
      \<and> (\<forall>x \<in> X. B' x = B x) \<and> bitset (blocks_bitmap s) \<subseteq> bitset bm'
      \<and> nfree (blocks_bitmap s) \<le> nfree bm' + ceil_blocks (stop - bw)"
proof (induction "ceil_blocks (stop - bw)" arbitrary: i bw s B ds)
  case 0
  then have bw: "bw = stop" using ceil_blocks_step [of "stop - bw"] by fastforce
  then have "\<not> (bw < nbyte \<and> i < NUM_DIRECT_BLOCKS)"
    using 0(8,9) stop by (auto simp: c_consts min_def split: if_splits)
  then have "write_direct D fildes i0 cursor nbyte buf False bw i s = Some (Inr (False, stop), s)"
    using bw by (subst write_direct.simps) auto
  with 0 bw upd_file_id [of s i0] show ?case
    by (intro exI [of _ ds] exI [of _ "blocks_bitmap s"] exI [of _ "disk s"] exI [of _ B]) simp
next
  case (Suc x)
  then have "stop - bw \<noteq> 0" by (auto simp: ceil_blocks_def)
  then have bw: "bw < stop" "bw < nbyte" using stop by auto
  with Suc.prems(8) have pos: "bw + cursor = i * BLOCK_SIZE" by simp
  with bw(1) stop have i: "i < NUM_DIRECT_BLOCKS"
    by (auto simp: c_consts)
  have f: "0 < nfree (blocks_bitmap s)" using Suc.prems(9) Suc.hyps(2) by simp
  from direct_for_write_ok [OF Suc.prems(2,3) Suc.prems(6) [unfolded Suc.prems(4)], of i]
    i f Suc.prems(4,5) obtain b bm1 where b:
    "direct_for_write i0 i s = Some (b, upd_file s i0 (ds[i := b]) bm1 (disk s))"
    "b \<noteq> 0" "unat b < DISK_BLOCKS" "unat b \<notin> X" "length bm1 = 1024"
    "bitset (blocks_bitmap s) \<subseteq> bitset bm1" "pinv bm1 X (ds[i := b])"
    "nfree (blocks_bitmap s) \<le> Suc (nfree bm1)"
    "\<forall>B c. pdata (B(unat b := c)) (ds[i := b]) = (pdata B ds)(i \<mapsto> c)" by auto
  let ?s1 = "upd_file s i0 (ds[i := b]) bm1 (disk s)" and ?bw = "min nbyte (bw + BLOCK_SIZE)"
  let ?B1 = "B(unat b := fit (drop bw (take nbyte buf)))"
  have "mounted_on current img ?s1 nm B" using Suc.prems(1) by (simp add: mounted_on_def)
  from write_out_ok [OF this b(3) bw(2) buf lt refl] obtain d1 where d1:
    "write_out D b (BLOCK_SIZE \<le> nbyte - bw) nbyte buf bw ?s1 = Some (Inr ?bw, ?s1\<lparr>disk := d1\<rparr>)"
    "mounted_on current img (?s1\<lparr>disk := d1\<rparr>) nm ?B1" by blast
  let ?s2 = "upd_file s i0 (ds[i := b]) bm1 d1"
  have s2: "?s1\<lparr>disk := d1\<rparr> = ?s2" by (simp add: upd_file_def)
  have step: "write_direct D fildes i0 cursor nbyte buf False bw i s
      = write_direct D fildes i0 cursor nbyte buf False ?bw (Suc i) ?s2"
    using bw i b(1,2) d1(1) lt s2 by (subst write_direct.simps) (simp add: usub_le)
  have rest: "?bw \<le> stop" "stop - ?bw = stop - bw - BLOCK_SIZE"
    using stop bw pos i by (auto simp: min_def c_consts)
  have cb: "ceil_blocks (stop - bw) = Suc (ceil_blocks (stop - ?bw))"
    using ceil_blocks_step [of "stop - bw"] bw rest(2) by simp
  have nxt: "?bw = nbyte \<or> ?bw + cursor = Suc i * BLOCK_SIZE" using pos by (auto simp: min_def)
  have x: "x = ceil_blocks (stop - ?bw)" and enough: "ceil_blocks (stop - ?bw) \<le> nfree bm1"
    using cb Suc.hyps(2) Suc.prems(9) b(8) by simp_all
  from Suc.hyps(1) [OF x, of ?s2 ?B1 "ds[i := b]" "Suc i"] d1(2) s2 b(5,7) Suc.prems(3,4,5) rest(1) nxt enough
  obtain ds' bm' d' B' where ih:
    "write_direct D fildes i0 cursor nbyte buf False ?bw (Suc i) ?s2
      = Some (Inr (False, stop), upd_file s i0 ds' bm' d')"
    "mounted_on current img (upd_file s i0 ds' bm' d') nm B'" "length bm' = 1024"
    "length ds' = NUM_DIRECT_BLOCKS" "pinv bm' X ds'"
    "pdata B' ds' = put_blocks (Suc i) (drop ?bw (take stop buf)) (pdata ?B1 (ds[i := b]))"
    "\<forall>x \<in> X. B' x = ?B1 x" "bitset bm1 \<subseteq> bitset bm'"
    "nfree bm1 \<le> nfree bm' + ceil_blocks (stop - ?bw)" by auto
  have "pdata B' ds' = put_blocks i (drop bw (take stop buf)) (pdata B ds)"
  proof -
    have "stop = nbyte \<or> BLOCK_SIZE \<le> stop - bw" using rest(1) stop by (auto simp: min_def split: if_splits)
    then have "fit (drop bw (take nbyte buf)) = fit (drop bw (take stop buf))"
      using stop by (auto simp: drop_take fit_take)
    moreover have "drop ?bw (take stop buf) = drop BLOCK_SIZE (drop bw (take stop buf))"
      using stop by (cases "nbyte \<le> bw + BLOCK_SIZE") (simp_all add: add.commute)
    moreover have "stop \<le> length buf" using buf stop by simp
    then have "drop bw (take stop buf) \<noteq> []" using bw(1) by simp
    ultimately show ?thesis using ih(6) b(9) by (simp add: put_blocks_step)
  qed
  moreover have "\<forall>x \<in> X. B' x = B x" using ih(7) b(4) by auto
  ultimately show ?case using step ih b(6,8) cb
    by (intro exI [of _ ds'] exI [of _ bm'] exI [of _ d'] exI [of _ B']) auto
qed


lemma write_indirect_loop:
  assumes buf: "nbyte \<le> length buf" and lt: "nbyte < 2 ^ 64"
  shows "mounted_on current img s nm B \<Longrightarrow> length (blocks_bitmap s) = 1024 \<Longrightarrow>
    bn = i + ceil_blocks (nbyte - bw) \<Longrightarrow> bn \<le> length ind \<Longrightarrow> pinv (blocks_bitmap s) X ind \<Longrightarrow>
    bw \<le> nbyte \<Longrightarrow> ceil_blocks (nbyte - bw) \<le> nfree (blocks_bitmap s) \<Longrightarrow>
    \<exists>ind' bm' d' B'. write_indirect D fildes i0 cursor nbyte buf bn i False bw ind s
        = Some (Inr (nbyte, ind'), s\<lparr>blocks_bitmap := bm', disk := d'\<rparr>)
      \<and> mounted_on current img (s\<lparr>blocks_bitmap := bm', disk := d'\<rparr>) nm B'
      \<and> length bm' = 1024 \<and> length ind' = length ind \<and> pinv bm' X ind'
      \<and> pdata B' ind' = put_blocks i (drop bw (take nbyte buf)) (pdata B ind)
      \<and> (\<forall>x \<in> X. B' x = B x) \<and> bitset (blocks_bitmap s) \<subseteq> bitset bm'
      \<and> nfree (blocks_bitmap s) \<le> nfree bm' + ceil_blocks (nbyte - bw)"
proof (induction "ceil_blocks (nbyte - bw)" arbitrary: i bw s B ind)
  case 0
  then have bw: "bw = nbyte" using ceil_blocks_step [of "nbyte - bw"] by fastforce
  then have "write_indirect D fildes i0 cursor nbyte buf bn i False bw ind s = Some (Inr (nbyte, ind), s)"
    using 0 by (subst write_indirect.simps) auto
  with 0 bw show ?case
    by (intro exI [of _ ind] exI [of _ "blocks_bitmap s"] exI [of _ "disk s"] exI [of _ B]) simp
next
  case (Suc x)
  then have "nbyte - bw \<noteq> 0" by (auto simp: ceil_blocks_def)
  then have bw: "bw < nbyte" by simp
  have i: "i < length ind" "i < bn" using Suc.prems(3,4) Suc.hyps(2) by auto
  have "0 < nfree (blocks_bitmap s)" using Suc.prems(7) Suc.hyps(2) by simp
  with pointer_block [OF Suc.prems(2,5) i(1)] obtain b bm1 where b:
    "(if ind ! i \<noteq> 0 then Some (ind ! i, s) else take_free_block s) = Some (b, s\<lparr>blocks_bitmap := bm1\<rparr>)"
    "b \<noteq> 0" "unat b < DISK_BLOCKS" "unat b \<notin> X" "length bm1 = 1024"
    "bitset (blocks_bitmap s) \<subseteq> bitset bm1" "pinv bm1 X (ind[i := b])"
    "nfree (blocks_bitmap s) \<le> Suc (nfree bm1)"
    "\<forall>B c. pdata (B(unat b := c)) (ind[i := b]) = (pdata B ind)(i \<mapsto> c)" by blast
  let ?s1 = "s\<lparr>blocks_bitmap := bm1\<rparr>" and ?bw = "min nbyte (bw + BLOCK_SIZE)"
  let ?B1 = "B(unat b := fit (drop bw (take nbyte buf)))"
  let ?whole = "\<not> (int i = int bn - 1 \<and> usub nbyte bw < BLOCK_SIZE)"
  have rest: "nbyte - ?bw = nbyte - bw - BLOCK_SIZE" by (auto simp: min_def)
  have cb: "ceil_blocks (nbyte - bw) = Suc (ceil_blocks (nbyte - ?bw))"
    using ceil_blocks_step [of "nbyte - bw"] bw rest by simp
  have "nbyte - bw < BLOCK_SIZE \<longrightarrow> int i = int bn - 1"
  proof
    assume "nbyte - bw < BLOCK_SIZE"
    then have "nbyte - ?bw = 0" using rest by simp
    then have "ceil_blocks (nbyte - bw) = 1" unfolding cb by (simp add: ceil_blocks_def)
    then show "int i = int bn - 1" using Suc.prems(3) by simp
  qed
  then have w: "?whole \<longleftrightarrow> BLOCK_SIZE \<le> nbyte - bw"
    using bw lt by (cases "nbyte - bw < BLOCK_SIZE") (simp_all add: usub_le)
  have "mounted_on current img ?s1 nm B" using Suc.prems(1) by (simp add: mounted_on_def)
  from write_out_ok [OF this b(3) bw buf lt w] obtain d1 where d1:
    "write_out D b ?whole nbyte buf bw ?s1 = Some (Inr ?bw, ?s1\<lparr>disk := d1\<rparr>)"
    "mounted_on current img (?s1\<lparr>disk := d1\<rparr>) nm ?B1" by blast
  let ?s2 = "s\<lparr>blocks_bitmap := bm1, disk := d1\<rparr>"
  have step: "write_indirect D fildes i0 cursor nbyte buf bn i False bw ind s
      = write_indirect D fildes i0 cursor nbyte buf bn (Suc i) False ?bw (ind[i := b]) ?s2"
    using i b(1,2) d1(1) by (subst write_indirect.simps) (simp add: nth_opt_in del: not_less de_Morgan_conj)
  have x: "x = ceil_blocks (nbyte - ?bw)" and enough: "ceil_blocks (nbyte - ?bw) \<le> nfree bm1"
    and bn: "bn = Suc i + ceil_blocks (nbyte - ?bw)"
    using cb Suc.hyps(2) Suc.prems(3,7) b(8) by simp_all
  from Suc.hyps(1) [OF x, of ?s2 ?B1 "Suc i" "ind[i := b]"] d1(2) b(5,7) Suc.prems(4) bn enough
  obtain ind' bm' d' B' where ih:
    "write_indirect D fildes i0 cursor nbyte buf bn (Suc i) False ?bw (ind[i := b]) ?s2
      = Some (Inr (nbyte, ind'), s\<lparr>blocks_bitmap := bm', disk := d'\<rparr>)"
    "mounted_on current img (s\<lparr>blocks_bitmap := bm', disk := d'\<rparr>) nm B'" "length bm' = 1024"
    "length ind' = length ind" "pinv bm' X ind'"
    "pdata B' ind' = put_blocks (Suc i) (drop ?bw (take nbyte buf)) (pdata ?B1 (ind[i := b]))"
    "\<forall>x \<in> X. B' x = ?B1 x" "bitset bm1 \<subseteq> bitset bm'"
    "nfree bm1 \<le> nfree bm' + ceil_blocks (nbyte - ?bw)" by auto
  have "pdata B' ind' = put_blocks i (drop bw (take nbyte buf)) (pdata B ind)"
  proof -
    have "drop ?bw (take nbyte buf) = drop BLOCK_SIZE (drop bw (take nbyte buf))"
      by (cases "nbyte \<le> bw + BLOCK_SIZE") (simp_all add: add.commute)
    moreover have "drop bw (take nbyte buf) \<noteq> []" using bw buf by simp
    ultimately show ?thesis using ih(6) b(9) by (simp add: put_blocks_step)
  qed
  moreover have "\<forall>x \<in> X. B' x = B x" using ih(7) b(4) by auto
  ultimately show ?case using step ih b(6,8) cb
    by (intro exI [of _ ind'] exI [of _ bm'] exI [of _ d'] exI [of _ B']) auto
qed

end

end
