(* ===== verification/Fs_Write_Content.thy ===== *)
theory Fs_Write_Content
  imports Fs_Write_Spec
begin

text \<open>
  The effect of a whole \<open>fs_write\<close>. \<open>wview cursor data f\<close> is the block view \<open>f\<close> of a file after
  \<open>data\<close> was written at \<open>cursor\<close>: the block that holds an unaligned start is changed in place,
  every later one is replaced, the last of them padded with zeros.
\<close>

definition wview :: "nat \<Rightarrow> u8 list \<Rightarrow> (nat \<Rightarrow> u8 list option) \<Rightarrow> nat \<Rightarrow> u8 list option" where
  "wview cursor data f k =
    (if cursor div BLOCK_SIZE \<le> k \<and> k * BLOCK_SIZE < cursor + length data then
       if k * BLOCK_SIZE < cursor
       then map_option (overlay (cursor mod BLOCK_SIZE) (take (BLOCK_SIZE - cursor mod BLOCK_SIZE) data)) (f k)
       else Some (fit (drop (k * BLOCK_SIZE - cursor) data))
     else f k)"

lemma less_ceil_blocks: "j < ceil_blocks m \<longleftrightarrow> j * BLOCK_SIZE < m"
proof (induction j arbitrary: m)
  case 0
  then show ?case using ceil_blocks_step [of m] by (cases "m = 0") (auto simp: ceil_blocks_def)
next
  case (Suc j)
  show ?case
  proof (cases "m = 0")
    case True
    then show ?thesis by (simp add: ceil_blocks_def)
  next
    case False
    with Suc [of "m - BLOCK_SIZE"] ceil_blocks_step [of m] show ?thesis by (auto simp: less_diff_conv)
  qed
qed

lemma ceil_blocks_mono: "a \<le> b \<Longrightarrow> ceil_blocks a \<le> ceil_blocks b"
  using less_ceil_blocks [of "ceil_blocks b" a] less_ceil_blocks [of "ceil_blocks b" b]
  by (meson less_irrefl not_less order_trans)

lemma ceil_blocks_add_le: "ceil_blocks a + ceil_blocks b \<le> ceil_blocks (a + b) + 1"
proof (induction "ceil_blocks a" arbitrary: a)
  case 0
  then show ?case using ceil_blocks_mono [of b "a + b"] by simp
next
  case (Suc x)
  then have pos: "a > 0" by (auto simp: ceil_blocks_def intro: ccontr)
  show ?case
  proof (cases "a \<le> BLOCK_SIZE")
    case True
    with pos ceil_blocks_step [of a] have "ceil_blocks a = 1" by (simp add: ceil_blocks_def)
    then show ?thesis using ceil_blocks_mono [of b "a + b"] by simp
  next
    case False
    then have "a + b - BLOCK_SIZE = (a - BLOCK_SIZE) + b" by simp
    with Suc.hyps(1) [of "a - BLOCK_SIZE"] Suc.hyps(2) ceil_blocks_step [OF pos]
      ceil_blocks_step [of "a + b"] pos show ?thesis by simp
  qed
qed

lemma cursor_split: "cursor = cursor div BLOCK_SIZE * BLOCK_SIZE + cursor mod BLOCK_SIZE"
  "cursor mod BLOCK_SIZE < BLOCK_SIZE"
  by (simp_all add: BLOCK_SIZE_def)

lemma block_before: "k * BLOCK_SIZE < cursor \<Longrightarrow> k \<le> cursor div BLOCK_SIZE"
  using div_le_mono [of "k * BLOCK_SIZE" cursor BLOCK_SIZE] by (simp add: BLOCK_SIZE_def)

lemma block_after: "cursor \<le> k * BLOCK_SIZE \<Longrightarrow> cursor div BLOCK_SIZE \<le> k"
  using div_le_mono [of cursor "k * BLOCK_SIZE" BLOCK_SIZE] by (simp add: BLOCK_SIZE_def)

text \<open>The two ways the loops start agree with \<open>wview\<close>.\<close>

lemma wview_aligned:
  assumes "cursor = i * BLOCK_SIZE"
  shows "put_blocks i data f = wview cursor data f"
proof
  fix k
  have "i \<le> k \<Longrightarrow> k < i + ceil_blocks (length data) \<longleftrightarrow> k * BLOCK_SIZE < cursor + length data"
    using less_ceil_blocks [of "k - i" "length data"] assms
    by (auto simp: diff_mult_distrib less_diff_conv2 less_diff_conv algebra_simps)
  moreover have "cursor div BLOCK_SIZE = i" using assms by (simp add: BLOCK_SIZE_def)
  moreover have "i \<le> k \<Longrightarrow> \<not> k * BLOCK_SIZE < cursor" using assms by simp
  ultimately show "put_blocks i data f k = wview cursor data f k"
    using assms by (auto simp: put_blocks_def wview_def diff_mult_distrib)
qed

lemma wview_unaligned:
  assumes off: "cursor mod BLOCK_SIZE \<noteq> 0" and i: "i = cursor div BLOCK_SIZE" and f: "f i = Some blk"
    and m: "m = min (length data) (BLOCK_SIZE - cursor mod BLOCK_SIZE)" and ne: "data \<noteq> []"
  shows "put_blocks (Suc i) (drop m data) (f(i \<mapsto> overlay (cursor mod BLOCK_SIZE) (take m data) blk))
    = wview cursor data f"
proof
  fix k
  let ?off = "cursor mod BLOCK_SIZE"
  note c = cursor_split [of cursor, folded i]
  consider "k < i" | "k = i" | "i < k" by linarith
  then show "put_blocks (Suc i) (drop m data) (f(i \<mapsto> overlay ?off (take m data) blk)) k
    = wview cursor data f k"
  proof cases
    case 1
    then show ?thesis using i by (simp add: put_blocks_def wview_def)
  next
    case 2
    have "take m data = take (BLOCK_SIZE - ?off) data" by (simp add: m min_def)
    moreover have "i * BLOCK_SIZE < cursor" using c off by linarith
    ultimately show ?thesis using 2 f i ne by (simp add: put_blocks_def wview_def)
  next
    case 3
    then obtain j where k: "k = Suc i + j" using less_imp_Suc_add by fastforce
    have "Suc i * BLOCK_SIZE = cursor + (BLOCK_SIZE - ?off)" using c by simp
    then have kb: "k * BLOCK_SIZE = cursor + (BLOCK_SIZE - ?off) + j * BLOCK_SIZE"
      unfolding k add_mult_distrib by simp
    have "j < ceil_blocks (length data - m) \<longleftrightarrow> k * BLOCK_SIZE < cursor + length data"
      unfolding less_ceil_blocks kb m by auto
    moreover have "fit (drop (j * BLOCK_SIZE) (drop m data)) = fit (drop (k * BLOCK_SIZE - cursor) data)"
      unfolding kb m by (cases "length data \<le> BLOCK_SIZE - ?off") (simp_all add: min_def add.commute)
    ultimately show ?thesis using 3 k i kb by (auto simp: put_blocks_def wview_def)
  qed
qed

lemma wview_split:
  assumes c: "cursor < m * BLOCK_SIZE" and st: "stop = m * BLOCK_SIZE - cursor" and len: "stop < length data"
  shows "wview cursor data f k = (if k < m then wview cursor (take stop data) f k
    else put_blocks 0 (drop stop data) (\<lambda>k. f (m + k)) (k - m))"
proof (cases "k < m")
  case True
  then have "Suc k * BLOCK_SIZE \<le> m * BLOCK_SIZE" by (intro mult_le_mono1) simp
  then have km: "k * BLOCK_SIZE + BLOCK_SIZE \<le> m * BLOCK_SIZE" by simp
  then have "k * BLOCK_SIZE < m * BLOCK_SIZE" using cursor_split(2) [of cursor] by linarith
  moreover have "length (take stop data) = stop" using len by simp
  ultimately have "k * BLOCK_SIZE < cursor + length data \<and> k * BLOCK_SIZE < cursor + length (take stop data)"
    using c st len by linarith
  moreover have "BLOCK_SIZE - cursor mod BLOCK_SIZE \<le> stop"
    if "cursor div BLOCK_SIZE \<le> k" using that km st cursor_split [of cursor] mult_le_mono1 [OF that, of BLOCK_SIZE]
    by linarith
  moreover have "fit (drop (k * BLOCK_SIZE - cursor) (take stop data)) = fit (drop (k * BLOCK_SIZE - cursor) data)"
    if "\<not> k * BLOCK_SIZE < cursor"
    unfolding drop_take by (rule fit_take) (use km st that in linarith)
  ultimately show ?thesis using True by (simp add: wview_def min_def)
next
  case False
  then obtain j where k: "k = m + j" using le_Suc_ex not_less by blast
  have kb: "k * BLOCK_SIZE = cursor + stop + j * BLOCK_SIZE" using st c by (simp add: k add_mult_distrib)
  then have "cursor div BLOCK_SIZE \<le> k" by (intro block_after) simp
  moreover have "j < ceil_blocks (length data - stop) \<longleftrightarrow> k * BLOCK_SIZE < cursor + length data"
    unfolding less_ceil_blocks kb by auto
  ultimately show ?thesis using kb k by (simp add: wview_def put_blocks_def add.commute)
qed


section \<open>The direct part\<close>

context disk_dev
begin

lemma write_first_ok:
  assumes m: "mounted_on current img s nm B" and b: "unat b < DISK_BLOCKS" and buf: "nbyte \<le> length buf"
    and k: "k = min nbyte (BLOCK_SIZE - cursor mod BLOCK_SIZE)"
  shows "\<exists>d. write_first D b cursor nbyte buf s = (Some (Inr k), s\<lparr>disk := d\<rparr>) \<and>
    mounted_on current img (s\<lparr>disk := d\<rparr>) nm
      (B(unat b := overlay (cursor mod BLOCK_SIZE) (take k buf) (B (unat b))))"
proof -
  have l: "length (B (unat b)) = BLOCK_SIZE" by (rule mounted_block [OF m])
  have k': "k \<le> length buf" "cursor mod BLOCK_SIZE + k \<le> BLOCK_SIZE"
    using k buf cursor_split(2) [of cursor] by (auto simp: min_def)
  have ws: "(if nbyte > BLOCK_SIZE - cursor mod BLOCK_SIZE then BLOCK_SIZE - cursor mod BLOCK_SIZE else nbyte) = k"
    by (simp add: k min_def)
  let ?c = "overlay (cursor mod BLOCK_SIZE) (take k buf) (B (unat b))"
  have "length ?c = BLOCK_SIZE" using k' l by simp
  from dev_write_mounted [OF m b this] obtain d where
    "dev_write D b ?c s = (0, s\<lparr>disk := d\<rparr>)" "mounted_on current img (s\<lparr>disk := d\<rparr>) nm (B(unat b := ?c))"
    by blast
  then show ?thesis
    using k' l unfolding write_first_def dev_read_mounted [OF m b] Let_def ws
    by (intro exI [of _ d]) (simp add: mem_read_in mem_write_in ws)
qed

lemma write_direct_all:
  assumes buf: "nbyte \<le> length buf" and lt: "nbyte < 2 ^ 64" and pos: "0 < nbyte"
    and stop: "stop = min nbyte (NUM_DIRECT_BLOCKS * BLOCK_SIZE - cursor)"
    and m: "mounted_on current img s nm B" and l: "length (blocks_bitmap s) = 1024"
    and i0: "i0 < length (inode_table s)" and ds: "ds = direct_block (inode_table s ! i0)"
    and ld: "length ds = NUM_DIRECT_BLOCKS" and p: "pinv (blocks_bitmap s) X ds"
    and c: "cursor < NUM_DIRECT_BLOCKS * BLOCK_SIZE"
    and first: "cursor mod BLOCK_SIZE \<noteq> 0 \<longrightarrow> ds ! (cursor div BLOCK_SIZE) \<noteq> 0"
    and room: "ceil_blocks stop \<le> nfree (blocks_bitmap s)"
  shows "\<exists>ds' bm' d' B'. write_direct D fildes i0 cursor nbyte buf True 0 (cursor div BLOCK_SIZE) s
        = Some (Inr (False, stop), upd_file s i0 ds' bm' d')
      \<and> mounted_on current img (upd_file s i0 ds' bm' d') nm B'
      \<and> length bm' = 1024 \<and> length ds' = NUM_DIRECT_BLOCKS \<and> pinv bm' X ds'
      \<and> pdata B' ds' = wview cursor (take stop buf) (pdata B ds)
      \<and> (\<forall>x \<in> X. B' x = B x) \<and> bitset (blocks_bitmap s) \<subseteq> bitset bm'
      \<and> nfree (blocks_bitmap s) \<le> nfree bm' + ceil_blocks stop"
proof (cases "cursor mod BLOCK_SIZE = 0")
  case True
  let ?i = "cursor div BLOCK_SIZE"
  have i: "?i < NUM_DIRECT_BLOCKS" using c by (simp add: c_consts)
  have "write_direct D fildes i0 cursor nbyte buf True 0 ?i s = write_direct D fildes i0 cursor nbyte buf False 0 ?i s"
    using True pos i by (subst (1 2) write_direct.simps) simp
  moreover have "cursor = ?i * BLOCK_SIZE" using True cursor_split [of cursor] by simp
  ultimately show ?thesis
    using write_direct_loop [OF buf lt stop m l i0 ds ld p, of 0 ?i fildes] room wview_aligned
    by simp
next
  case False
  let ?i = "cursor div BLOCK_SIZE" and ?off = "cursor mod BLOCK_SIZE"
  define k where "k = min nbyte (BLOCK_SIZE - ?off)"
  have i: "?i < length ds" "?i < NUM_DIRECT_BLOCKS" using c ld by (simp_all add: c_consts)
  have nz: "ds ! ?i \<noteq> 0" using first False by simp
  note q = pinv_nth [OF p l i(1) nz]
  let ?c = "overlay ?off (take k buf) (B (unat (ds ! ?i)))"
  let ?B1 = "B(unat (ds ! ?i) := ?c)"
  obtain d1 where d1: "write_first D (ds ! ?i) cursor nbyte buf s = (Some (Inr k), s\<lparr>disk := d1\<rparr>)"
    "mounted_on current img (s\<lparr>disk := d1\<rparr>) nm ?B1"
    using write_first_ok [OF m q(3) buf k_def] by blast
  have step: "write_direct D fildes i0 cursor nbyte buf True 0 ?i s
      = write_direct D fildes i0 cursor nbyte buf False k (Suc ?i) (s\<lparr>disk := d1\<rparr>)"
    using False pos i i0 ds d1(1) by (subst write_direct.simps) (simp add: nth_opt_in)
  have "Suc ?i * BLOCK_SIZE \<le> NUM_DIRECT_BLOCKS * BLOCK_SIZE" using i(2) by (intro mult_le_mono1) simp
  then have "BLOCK_SIZE - ?off \<le> NUM_DIRECT_BLOCKS * BLOCK_SIZE - cursor"
    using cursor_split [of cursor] unfolding mult_Suc by linarith
  then have ks: "k \<le> stop" unfolding k_def stop by (simp add: min_le_iff_disj)
  have nxt: "k = nbyte \<or> k + cursor = Suc ?i * BLOCK_SIZE"
    using cursor_split [of cursor] unfolding k_def mult_Suc by (cases "nbyte \<le> BLOCK_SIZE - ?off") (simp, linarith)
  have "ceil_blocks (stop - k) \<le> ceil_blocks stop" by (rule ceil_blocks_mono) simp
  then have r: "ceil_blocks (stop - k) \<le> nfree (blocks_bitmap (s\<lparr>disk := d1\<rparr>))" using room by simp
  have up: "upd_file (s\<lparr>disk := d1\<rparr>) i0 x y z = upd_file s i0 x y z" for x y z by (simp add: upd_file_def)
  have old: "pdata ?B1 ds = (pdata B ds)(?i \<mapsto> ?c)"
    using pdata_update [OF i(1) nz] p by (simp add: pinv_def)
  from write_direct_loop [OF buf lt stop d1(2) _ _ _ ld _ ks nxt r, of i0 X fildes] l i0 ds p up
  obtain ds' bm' d' B' where w:
    "write_direct D fildes i0 cursor nbyte buf False k (Suc ?i) (s\<lparr>disk := d1\<rparr>)
        = Some (Inr (False, stop), upd_file s i0 ds' bm' d')"
    "mounted_on current img (upd_file s i0 ds' bm' d') nm B'" "length bm' = 1024"
    "length ds' = NUM_DIRECT_BLOCKS" "pinv bm' X ds'"
    "pdata B' ds' = put_blocks (Suc ?i) (drop k (take stop buf)) (pdata ?B1 ds)"
    "\<forall>x \<in> X. B' x = ?B1 x" "bitset (blocks_bitmap s) \<subseteq> bitset bm'"
    "nfree (blocks_bitmap s) \<le> nfree bm' + ceil_blocks (stop - k)" by auto
  have "pdata B' ds' = wview cursor (take stop buf) (pdata B ds)"
  proof -
    have "pdata B ds ?i = Some (B (unat (ds ! ?i)))" using i(1) nz by (simp add: pdata_def)
    moreover have "k = min (length (take stop buf)) (BLOCK_SIZE - ?off)" "take k (take stop buf) = take k buf"
      using ks stop buf by (auto simp: k_def min_def)
    moreover have "take stop buf \<noteq> []" using stop buf pos c by auto
    ultimately show ?thesis using w(6) old wview_unaligned [OF False refl, of "pdata B ds" _ k "take stop buf"] by simp
  qed
  moreover have "\<forall>x \<in> X. B' x = B x" using w(7) q(2) by auto
  moreover have "nfree (blocks_bitmap s) \<le> nfree bm' + ceil_blocks stop"
    using w(9) ceil_blocks_mono [of "stop - k" stop] by simp
  ultimately show ?thesis using step w by (intro exI [of _ ds'] exI [of _ bm'] exI [of _ d'] exI [of _ B']) simp
qed


section \<open>The indirect part\<close>

lemma indirect_for_write_ok:
  assumes m: "mounted_on current img s nm B" and l: "length (blocks_bitmap s) = 1024"
    and i0: "i0 < length (inode_table s)" and n: "n = inode_table s ! i0"
    and p: "pinv (blocks_bitmap s) X (single_indirect_block n # indirect_entries B n)"
    and st: "single_indirect_block n = 0 \<or> cursor div BLOCK_SIZE = 0"
    and room: "Suc k \<le> nfree (blocks_bitmap s)"
  shows "\<exists>ind b bm. indirect_for_write D fildes i0 cursor bw s = Some (Inr (ind, 0, b),
        s\<lparr>blocks_bitmap := bm, inode_table := (inode_table s)[i0 := n\<lparr>single_indirect_block := b\<rparr>]\<rparr>)
      \<and> b \<noteq> 0 \<and> unat b < DISK_BLOCKS \<and> unat b \<notin> X \<and> length bm = 1024 \<and> length ind = 2048
      \<and> bitset (blocks_bitmap s) \<subseteq> bitset bm \<and> pinv bm (insert (unat b) X) ind
      \<and> pdata B ind = pdata B (indirect_entries B n) \<and> k \<le> nfree bm"
proof (cases "single_indirect_block n = 0")
  case True
  from p have z: "0 \<in> bitset (blocks_bitmap s)" by (auto simp: pinv_def)
  from take_free_block_ok [OF l z] room obtain b bm where b:
    "take_free_block s = Some (b, s\<lparr>blocks_bitmap := bm\<rparr>)" "b \<noteq> 0" "unat b < DISK_BLOCKS"
    "unat b \<notin> bitset (blocks_bitmap s)" "length bm = 1024"
    "bitset bm = insert (unat b) (bitset (blocks_bitmap s))" by auto
  have "indirect_for_write D fildes i0 cursor bw s = Some (Inr (replicate 2048 0, 0, b),
      s\<lparr>blocks_bitmap := bm, inode_table := (inode_table s)[i0 := n\<lparr>single_indirect_block := b\<rparr>]\<rparr>)"
    using True b i0 n by (simp add: indirect_for_write_def nth_opt_in)
  moreover have "pinv bm (insert (unat b) X) (replicate 2048 0)" using p b(6) by (auto simp: pinv_def)
  moreover have "pdata B (replicate 2048 0) = pdata B (indirect_entries B n)"
    using True by (simp add: pdata_def indirect_entries_def fun_eq_iff)
  moreover have "unat b \<notin> X" using p b(4) by (auto simp: pinv_def)
  ultimately show ?thesis
    using b room nfree_insert [OF b(6)]
    by (intro exI [of _ "replicate 2048 0"] exI [of _ b] exI [of _ bm]) auto
next
  case False
  let ?b = "single_indirect_block n" and ?ind = "indirect_entries B n"
  from p False have b: "unat ?b \<in> bitset (blocks_bitmap s)" "unat ?b \<notin> X" by (auto simp: pinv_def)
  then have lt: "unat ?b < DISK_BLOCKS" using bitset_bound [of "unat ?b" "blocks_bitmap s"] l
    by (simp add: DISK_BLOCKS_def)
  have ind: "?ind = dec16s 2048 (B (unat ?b))" using False lt by (simp add: indirect_entries_def)
  have "s\<lparr>blocks_bitmap := blocks_bitmap s, inode_table := (inode_table s)[i0 := n\<lparr>single_indirect_block := ?b\<rparr>]\<rparr> = s"
    using n i0 by simp
  moreover have "indirect_for_write D fildes i0 cursor bw s = Some (Inr (?ind, 0, ?b), s)"
    using False st i0 n dev_read_mounted [OF m lt] mounted_block [OF m, of "unat ?b"]
    unfolding ind by (simp add: indirect_for_write_def nth_opt_in mem_read_in)
  moreover have "pinv (blocks_bitmap s) (insert (unat ?b) X) ?ind"
    using p pinv_swap [of _ X "[?b]" ?ind] pinv_append [of _ X ?ind "[?b]"] False
    by (simp add: blocks_of_Cons)
  ultimately show ?thesis
    using False b lt l ind room by (intro exI [of _ ?ind] exI [of _ ?b] exI [of _ "blocks_bitmap s"]) auto
qed

lemma blocks_needed_small:
  assumes "k \<le> MAX_FILE_SIZE"
  shows "ceil_blocks k mod 2 ^ 16 = ceil_blocks k" and "ceil_blocks k \<le> 2048"
proof -
  have "ceil_blocks k \<le> ceil_blocks MAX_FILE_SIZE" by (rule ceil_blocks_mono [OF assms])
  also have "\<dots> = 256" by (simp add: ceil_blocks_def c_consts)
  finally show "ceil_blocks k mod 2 ^ 16 = ceil_blocks k" "ceil_blocks k \<le> 2048" by simp_all
qed

lemma write_rest_some:
  assumes m: "mounted_on current img s nm B" and l: "length (blocks_bitmap s) = 1024"
    and i0: "i0 < length (inode_table s)" and n: "n = inode_table s ! i0"
    and p: "pinv (blocks_bitmap s) X (single_indirect_block n # indirect_entries B n)"
    and st: "single_indirect_block n = 0 \<or> cursor div BLOCK_SIZE = 0"
    and room: "Suc (ceil_blocks (nbyte - bw)) \<le> nfree (blocks_bitmap s)"
    and bw: "bw < nbyte" and max: "nbyte \<le> MAX_FILE_SIZE" and buf: "nbyte \<le> length buf"
  shows "\<exists>b bm d B'. write_rest D fildes i0 cursor nbyte buf False bw s = Some (Inr nbyte,
        s\<lparr>blocks_bitmap := bm, disk := d,
          inode_table := (inode_table s)[i0 := n\<lparr>single_indirect_block := b\<rparr>]\<rparr>)
      \<and> mounted_on current img (s\<lparr>blocks_bitmap := bm, disk := d,
          inode_table := (inode_table s)[i0 := n\<lparr>single_indirect_block := b\<rparr>]\<rparr>) nm B'
      \<and> length bm = 1024 \<and> bitset (blocks_bitmap s) \<subseteq> bitset bm \<and> (\<forall>x \<in> X. B' x = B x)
      \<and> pinv bm X (b # indirect_entries B' (n\<lparr>single_indirect_block := b\<rparr>))
      \<and> pdata B' (indirect_entries B' (n\<lparr>single_indirect_block := b\<rparr>))
          = put_blocks 0 (drop bw (take nbyte buf)) (pdata B (indirect_entries B n))"
proof -
  have lt: "nbyte < 2 ^ 64" using max by (simp add: c_consts)
  from indirect_for_write_ok [OF m l i0 n p st room] obtain ind b bm1 where a:
    "indirect_for_write D fildes i0 cursor bw s = Some (Inr (ind, 0, b),
        s\<lparr>blocks_bitmap := bm1, inode_table := (inode_table s)[i0 := n\<lparr>single_indirect_block := b\<rparr>]\<rparr>)"
    "b \<noteq> 0" "unat b < DISK_BLOCKS" "unat b \<notin> X" "length bm1 = 1024" "length ind = 2048"
    "bitset (blocks_bitmap s) \<subseteq> bitset bm1" "pinv bm1 (insert (unat b) X) ind"
    "pdata B ind = pdata B (indirect_entries B n)" "ceil_blocks (nbyte - bw) \<le> nfree bm1" by blast
  let ?n = "n\<lparr>single_indirect_block := b\<rparr>"
  let ?s1 = "s\<lparr>blocks_bitmap := bm1, inode_table := (inode_table s)[i0 := ?n]\<rparr>"
  have m1: "mounted_on current img ?s1 nm B" using m by (simp add: mounted_on_def)
  have small: "ceil_blocks (nbyte - bw) mod 2 ^ 16 = ceil_blocks (nbyte - bw)" "ceil_blocks (nbyte - bw) \<le> 2048"
    using blocks_needed_small [of "nbyte - bw"] max by simp_all
  from write_indirect_loop [OF buf lt m1, of "0 + ceil_blocks (nbyte - bw)" 0 bw ind "insert (unat b) X" fildes i0 cursor]
    a(5,6,8,10) small(2) bw obtain ind' bm2 d2 B2 where w:
    "write_indirect D fildes i0 cursor nbyte buf (ceil_blocks (nbyte - bw)) 0 False bw ind ?s1
      = Some (Inr (nbyte, ind'), ?s1\<lparr>blocks_bitmap := bm2, disk := d2\<rparr>)"
    "mounted_on current img (?s1\<lparr>blocks_bitmap := bm2, disk := d2\<rparr>) nm B2" "length bm2 = 1024"
    "length ind' = 2048" "pinv bm2 (insert (unat b) X) ind'"
    "pdata B2 ind' = put_blocks 0 (drop bw (take nbyte buf)) (pdata B ind)"
    "\<forall>x \<in> insert (unat b) X. B2 x = B x" "bitset bm1 \<subseteq> bitset bm2" by auto
  let ?s2 = "?s1\<lparr>blocks_bitmap := bm2, disk := d2\<rparr>" and ?B3 = "B2(unat b := enc16s ind')"
  have "length (enc16s ind') = BLOCK_SIZE" using w(4) by (simp add: c_consts)
  from dev_write_mounted [OF w(2) a(3) this] obtain d3 where d3:
    "dev_write D b (enc16s ind') ?s2 = (0, ?s2\<lparr>disk := d3\<rparr>)"
    "mounted_on current img (?s2\<lparr>disk := d3\<rparr>) nm ?B3" by blast
  have ent: "indirect_entries ?B3 ?n = ind'"
    using a(2,3) w(4) dec16s_enc16s [of ind' 2048 "[]"] by (simp add: indirect_entries_def)
  have "pdata ?B3 ind' = pdata B2 ind'"
    using w(5) by (auto simp: pdata_def pinv_def fun_eq_iff)
  moreover have "pinv bm2 X (b # ind')"
  proof -
    have "pinv bm2 (X \<union> blocks_of [b]) ind'" using w(5) a(2) by (simp add: blocks_of_Cons)
    moreover have "0 \<in> X" using p by (simp add: pinv_def)
    then have "pinv bm2 X [b]" using w(5) a(4) by (auto simp: pinv_def)
    ultimately show ?thesis using pinv_swap [of bm2 X "[b]" ind'] pinv_append [of bm2 X ind' "[b]"] by simp
  qed
  moreover have "write_rest D fildes i0 cursor nbyte buf False bw s = Some (Inr nbyte, ?s2\<lparr>disk := d3\<rparr>)"
    using a(1) w(1) d3(1) small(1) bw lt by (simp add: write_rest_def usub_le)
  moreover have "\<forall>x \<in> X. ?B3 x = B x" using w(7) a(4) by auto
  ultimately show ?thesis
    using d3(2) w(3,6,8) a(7,9) ent
    by (intro exI [of _ b] exI [of _ bm2] exI [of _ d3] exI [of _ ?B3]) (simp add: mounted_on_def)
qed


end

section \<open>The whole call\<close>

definition ptrs :: "(nat \<Rightarrow> u8 list) \<Rightarrow> inode \<Rightarrow> u16 list" where
  "ptrs B n = direct_block n @ single_indirect_block n # indirect_entries B n"

lemma file_size_irrelevant [simp]:
  "indirect_entries B (n\<lparr>file_size := x\<rparr>) = indirect_entries B n"
  "ptrs B (n\<lparr>file_size := x\<rparr>) = ptrs B n" "fview B (n\<lparr>file_size := x\<rparr>) = fview B n"
  by (simp_all add: indirect_entries_def ptrs_def fview_def fun_eq_iff)

lemma pinv_append2:
  "pinv bm X (ps @ qs) \<longleftrightarrow> pinv bm (X \<union> blocks_of ps) qs \<and> pinv bm X ps"
  using pinv_append pinv_swap by blast

lemma pdata_cong:
  assumes "\<forall>x \<in> blocks_of ps. B' x = B x"
  shows "pdata B' ps = pdata B ps"
  using assms by (auto simp: pdata_def fun_eq_iff blocks_of_def)

lemma wview_beyond:
  assumes "cursor + length data \<le> m * BLOCK_SIZE" and "m \<le> k"
  shows "wview cursor data f k = f k"
proof -
  have "m * BLOCK_SIZE \<le> k * BLOCK_SIZE" using assms(2) by (rule mult_le_mono1)
  with assms(1) have "\<not> k * BLOCK_SIZE < cursor + length data" by linarith
  then show ?thesis by (simp add: wview_def)
qed

lemma wview_cong: "f k = g k \<Longrightarrow> wview cursor data f k = wview cursor data g k"
  by (simp add: wview_def)

text \<open>Writing through the direct pointers leaves the indirect block and its entries alone.\<close>

lemma indirect_entries_keep:
  assumes e: "single_indirect_block n' = single_indirect_block n"
    and k: "\<forall>x \<in> blocks_of (single_indirect_block n # indirect_entries B n). B' x = B x"
  shows "indirect_entries B' n' = indirect_entries B n"
    and "pdata B' (indirect_entries B n) = pdata B (indirect_entries B n)"
  using e k by (auto simp: indirect_entries_def blocks_of_Cons intro!: pdata_cong)

lemma fview_direct_write:
  assumes c: "cursor + length data \<le> NUM_DIRECT_BLOCKS * BLOCK_SIZE"
    and d: "pdata B' (direct_block n') = wview cursor data (pdata B (direct_block n))"
    and e: "pdata B' (indirect_entries B' n') = pdata B (indirect_entries B n)"
  shows "fview B' n' = wview cursor data (fview B n)"
proof
  fix k
  show "fview B' n' k = wview cursor data (fview B n) k"
  proof (cases "k < NUM_DIRECT_BLOCKS")
    case True
    then have "wview cursor data (pdata B (direct_block n)) k = wview cursor data (fview B n) k"
      by (intro wview_cong) (simp add: fview_def)
    with True d show ?thesis by (simp add: fview_def)
  next
    case False
    with wview_beyond [OF c, of k "fview B n"] e show ?thesis by (simp add: fview_def)
  qed
qed

lemma fview_indirect_write:
  assumes c: "cursor < NUM_DIRECT_BLOCKS * BLOCK_SIZE" and st: "stop = NUM_DIRECT_BLOCKS * BLOCK_SIZE - cursor"
    and len: "stop < length data"
    and d: "pdata B' (direct_block n') = wview cursor (take stop data) (pdata B (direct_block n))"
    and e: "pdata B' (indirect_entries B' n') = put_blocks 0 (drop stop data) (pdata B (indirect_entries B n))"
  shows "fview B' n' = wview cursor data (fview B n)"
proof
  fix k
  show "fview B' n' k = wview cursor data (fview B n) k"
  proof (cases "k < NUM_DIRECT_BLOCKS")
    case True
    then have "wview cursor (take stop data) (pdata B (direct_block n)) k
        = wview cursor (take stop data) (fview B n) k"
      by (intro wview_cong) (simp add: fview_def)
    with True d wview_split [OF c st len, of "fview B n" k] show ?thesis by (simp add: fview_def)
  next
    case False
    moreover have "(\<lambda>k. fview B n (NUM_DIRECT_BLOCKS + k)) = pdata B (indirect_entries B n)"
      by (simp add: fview_def fun_eq_iff)
    ultimately show ?thesis using e wview_split [OF c st len, of "fview B n" k] by (simp add: fview_def)
  qed
qed

context disk_dev
begin

lemma write_blocks_ok:
  assumes m: "mounted_on current img s nm B" and l: "length (blocks_bitmap s) = 1024"
    and i0: "i0 < length (inode_table s)" and n: "n = inode_table s ! i0" and ok: "inode_ok n"
    and c: "cursor < NUM_DIRECT_BLOCKS * BLOCK_SIZE" and pos: "0 < nbyte"
    and max: "cursor + nbyte \<le> MAX_FILE_SIZE" and buf: "nbyte \<le> length buf"
    and own: "pinv (blocks_bitmap s) X (ptrs B n)"
    and first: "cursor mod BLOCK_SIZE \<noteq> 0 \<longrightarrow> direct_block n ! (cursor div BLOCK_SIZE) \<noteq> 0"
    and shape: "cursor + nbyte \<le> NUM_DIRECT_BLOCKS * BLOCK_SIZE \<or> single_indirect_block n = 0 \<or> cursor < BLOCK_SIZE"
    and room: "ceil_blocks nbyte + 2 \<le> nfree (blocks_bitmap s)"
  shows "\<exists>s1 bw ds b bm d B'.
      write_direct D fildes i0 cursor nbyte buf True 0 (cursor div BLOCK_SIZE) s = Some (Inr (False, bw), s1)
    \<and> write_rest D fildes i0 cursor nbyte buf False bw s1 = Some (Inr nbyte, s\<lparr>blocks_bitmap := bm, disk := d,
        inode_table := (inode_table s)[i0 := n\<lparr>direct_block := ds, single_indirect_block := b\<rparr>]\<rparr>)
    \<and> current d = Some nm \<and> img d nm = Some B' \<and> length bm = 1024 \<and> bitset (blocks_bitmap s) \<subseteq> bitset bm
    \<and> length ds = NUM_DIRECT_BLOCKS \<and> pinv bm X (ptrs B' (n\<lparr>direct_block := ds, single_indirect_block := b\<rparr>))
    \<and> fview B' (n\<lparr>direct_block := ds, single_indirect_block := b\<rparr>) = wview cursor (take nbyte buf) (fview B n)
    \<and> (\<forall>x \<in> X. B' x = B x)"
proof -
  define stop where "stop = min nbyte (NUM_DIRECT_BLOCKS * BLOCK_SIZE - cursor)"
  let ?sib = "single_indirect_block n" and ?ind = "indirect_entries B n" and ?bm = "blocks_bitmap s"
  have lt: "nbyte < 2 ^ 64" using max by (simp add: c_consts)
  have ld: "length (direct_block n) = NUM_DIRECT_BLOCKS" using ok by (simp add: inode_ok_def)
  from own have p: "pinv ?bm (X \<union> blocks_of (?sib # ?ind)) (direct_block n)" "pinv ?bm X (?sib # ?ind)"
    by (simp_all only: ptrs_def pinv_append)
  have add: "ceil_blocks stop + ceil_blocks (nbyte - stop) \<le> ceil_blocks nbyte + 1"
    using ceil_blocks_add_le [of stop "nbyte - stop"] by (simp add: stop_def)
  from write_direct_all [OF buf lt pos stop_def m l i0 _ ld p(1) c first, of fildes] n room add
  obtain ds bm1 d1 B1 where w:
    "write_direct D fildes i0 cursor nbyte buf True 0 (cursor div BLOCK_SIZE) s
      = Some (Inr (False, stop), upd_file s i0 ds bm1 d1)"
    "mounted_on current img (upd_file s i0 ds bm1 d1) nm B1" "length bm1 = 1024"
    "length ds = NUM_DIRECT_BLOCKS" "pinv bm1 (X \<union> blocks_of (?sib # ?ind)) ds"
    "pdata B1 ds = wview cursor (take stop buf) (pdata B (direct_block n))"
    "\<forall>x \<in> X \<union> blocks_of (?sib # ?ind). B1 x = B x" "bitset ?bm \<subseteq> bitset bm1"
    "nfree ?bm \<le> nfree bm1 + ceil_blocks stop" by auto
  let ?s1 = "upd_file s i0 ds bm1 d1" and ?n1 = "n\<lparr>direct_block := ds\<rparr>"
  have n1: "?n1 = inode_table ?s1 ! i0" using i0 n by simp
  have ent: "indirect_entries B1 ?n1 = ?ind" "pdata B1 ?ind = pdata B ?ind"
    using indirect_entries_keep [of ?n1 n B B1] w(7) by auto
  have p1: "pinv bm1 X (ptrs B1 ?n1)"
    using w(5) pinv_mono [OF p(2) w(8)] by (simp only: ptrs_def pinv_append) (simp add: ent)
  show ?thesis
  proof (cases "stop = nbyte")
    case True
    then have "write_rest D fildes i0 cursor nbyte buf False stop ?s1 = Some (Inr nbyte, ?s1)"
      using lt by (simp add: write_rest_def usub_le)
    moreover have "fview B1 ?n1 = wview cursor (take nbyte buf) (fview B n)"
      by (rule fview_direct_write) (use True w(6) ent buf c in \<open>auto simp: stop_def min_def split: if_splits\<close>)
    ultimately show ?thesis
      using w p1 n by (intro exI [of _ ?s1] exI [of _ stop] exI [of _ ds] exI [of _ ?sib] exI [of _ bm1]
        exI [of _ d1] exI [of _ B1]) (simp add: upd_file_def mounted_on_def)
  next
    case False
    then have st: "stop = NUM_DIRECT_BLOCKS * BLOCK_SIZE - cursor" "stop < nbyte" by (auto simp: stop_def)
    then have sh: "single_indirect_block ?n1 = 0 \<or> cursor div BLOCK_SIZE = 0" using shape by auto
    have p2: "pinv bm1 (X \<union> blocks_of ds) (single_indirect_block ?n1 # indirect_entries B1 ?n1)"
      using p1 by (simp add: ptrs_def pinv_append2)
    have room2: "Suc (ceil_blocks (nbyte - stop)) \<le> nfree bm1" using w(9) room add by linarith
    have "nbyte \<le> MAX_FILE_SIZE" using max by simp
    from write_rest_some [OF w(2) _ _ n1 _ sh _ st(2) this buf, of "X \<union> blocks_of ds" fildes] w(3) i0 p2 room2
    obtain b bm2 d2 B2 where r:
      "write_rest D fildes i0 cursor nbyte buf False stop ?s1 = Some (Inr nbyte, ?s1\<lparr>blocks_bitmap := bm2,
        disk := d2, inode_table := (inode_table ?s1)[i0 := ?n1\<lparr>single_indirect_block := b\<rparr>]\<rparr>)"
      "current d2 = Some nm" "img d2 nm = Some B2" "length bm2 = 1024" "bitset bm1 \<subseteq> bitset bm2"
      "\<forall>x \<in> X \<union> blocks_of ds. B2 x = B1 x"
      "pinv bm2 (X \<union> blocks_of ds) (b # indirect_entries B2 (?n1\<lparr>single_indirect_block := b\<rparr>))"
      "pdata B2 (indirect_entries B2 (?n1\<lparr>single_indirect_block := b\<rparr>))
        = put_blocks 0 (drop stop (take nbyte buf)) (pdata B1 (indirect_entries B1 ?n1))"
      by (auto simp: mounted_on_def)
    let ?n2 = "n\<lparr>direct_block := ds, single_indirect_block := b\<rparr>"
    have "pdata B2 ds = wview cursor (take stop (take nbyte buf)) (pdata B (direct_block n))"
      using w(6) pdata_cong [of ds B2 B1] r(6) st(2) by simp
    then have "fview B2 ?n2 = wview cursor (take nbyte buf) (fview B n)"
      using r(8) ent st buf by (intro fview_indirect_write [OF c st(1)]) simp_all
    moreover have "pinv bm2 X (ptrs B2 ?n2)"
    proof -
      have "pinv bm1 X ds" using p1 by (simp add: ptrs_def pinv_append2)
      then have "pinv bm2 X ds" by (rule pinv_mono [OF _ r(5)])
      with r(7) show ?thesis
        by (simp add: ptrs_def pinv_append2)
    qed
    moreover have "?s1\<lparr>blocks_bitmap := bm2, disk := d2, inode_table := (inode_table ?s1)[i0 := ?n1\<lparr>single_indirect_block := b\<rparr>]\<rparr>
        = s\<lparr>blocks_bitmap := bm2, disk := d2, inode_table := (inode_table s)[i0 := ?n2]\<rparr>"
      by (simp add: upd_file_def)
    ultimately show ?thesis
      using w r by (intro exI [of _ ?s1] exI [of _ stop] exI [of _ ds] exI [of _ b] exI [of _ bm2]
        exI [of _ d2] exI [of _ B2]) auto
  qed
qed


lemma fs_write_view:
  assumes m: "mounted_on current img s nm B" and t: "fs_typed s"
    and fd: "0 \<le> fd" "fd < 32" "fd_is_used (fd_table s ! nat fd)"
    and i0: "i0 = unat (fd_inode_number (fd_table s ! nat fd))" "i0 < 64" and n: "n = inode_table s ! i0"
    and cur: "cursor = fd_offset (fd_table s ! nat fd)" "cursor < NUM_DIRECT_BLOCKS * BLOCK_SIZE"
    and pos: "0 < nbyte" and max: "cursor + nbyte \<le> MAX_FILE_SIZE" and buf: "nbyte \<le> length buf"
    and own: "pinv (blocks_bitmap s) X (ptrs B n)"
    and first: "cursor mod BLOCK_SIZE \<noteq> 0 \<longrightarrow> direct_block n ! (cursor div BLOCK_SIZE) \<noteq> 0"
    and shape: "cursor + nbyte \<le> NUM_DIRECT_BLOCKS * BLOCK_SIZE \<or> single_indirect_block n = 0 \<or> cursor < BLOCK_SIZE"
    and room: "ceil_blocks nbyte + 2 \<le> nfree (blocks_bitmap s)"
  shows "\<exists>n' bm d B'. fs_write D fd buf nbyte s = Some (int nbyte, s\<lparr>blocks_bitmap := bm, disk := d,
        inode_table := (inode_table s)[i0 := n'],
        fd_table := (fd_table s)[nat fd := (fd_table s ! nat fd)\<lparr>fd_offset := cursor + nbyte\<rparr>]\<rparr>)
    \<and> current d = Some nm \<and> img d nm = Some B' \<and> length bm = 1024 \<and> bitset (blocks_bitmap s) \<subseteq> bitset bm
    \<and> inode_ok n' \<and> inode_number n' = inode_number n
    \<and> file_size n' = (if cursor + nbyte > unat (file_size n) then of_nat (cursor + nbyte) else file_size n)
    \<and> pinv bm X (ptrs B' n') \<and> fview B' n' = wview cursor (take nbyte buf) (fview B n)
    \<and> (\<forall>x \<in> X. B' x = B x)"
proof -
  have l: "length (blocks_bitmap s) = 1024" "i0 < length (inode_table s)" "inode_ok n"
    "length (fd_table s) = 32"
    using fs_typedD [OF t] i0(2) n by simp_all
  from write_blocks_ok [OF m l(1,2) n l(3) cur(2) pos max buf own first shape room, of fd]
  obtain s1 bw ds b bm d B' where w:
    "write_direct D fd i0 cursor nbyte buf True 0 (cursor div BLOCK_SIZE) s = Some (Inr (False, bw), s1)"
    "write_rest D fd i0 cursor nbyte buf False bw s1 = Some (Inr nbyte, s\<lparr>blocks_bitmap := bm, disk := d,
        inode_table := (inode_table s)[i0 := n\<lparr>direct_block := ds, single_indirect_block := b\<rparr>]\<rparr>)"
    "current d = Some nm" "img d nm = Some B'" "length bm = 1024" "bitset (blocks_bitmap s) \<subseteq> bitset bm"
    "length ds = NUM_DIRECT_BLOCKS" "pinv bm X (ptrs B' (n\<lparr>direct_block := ds, single_indirect_block := b\<rparr>))"
    "fview B' (n\<lparr>direct_block := ds, single_indirect_block := b\<rparr>) = wview cursor (take nbyte buf) (fview B n)"
    "\<forall>x \<in> X. B' x = B x" by blast
  let ?sz = "if cursor + nbyte > unat (file_size n) then of_nat (cursor + nbyte) else file_size n"
  let ?n = "n\<lparr>direct_block := ds, single_indirect_block := b, file_size := ?sz\<rparr>"
  have lim: "cursor + nbyte < 2 ^ 31" "(cursor + nbyte) mod 2 ^ 64 \<le> MAX_FILE_SIZE"
    using max by (simp_all add: c_consts)
  then have "fs_write D fd buf nbyte s = Some (int nbyte, s\<lparr>blocks_bitmap := bm, disk := d,
        inode_table := (inode_table s)[i0 := ?n],
        fd_table := (fd_table s)[nat fd := (fd_table s ! nat fd)\<lparr>fd_offset := cursor + nbyte\<rparr>]\<rparr>)"
    using fd i0 l(2,4) w(1,2) cur(1) n unfolding fs_write_def write_body_def
    by (simp add: nth_opt_in write_done_def to_int_in MAX_NUM_FD_def MAX_NUM_FILES_def Let_def not_less)
  moreover have "inode_ok ?n" using w(7) by (simp add: inode_ok_def)
  ultimately show ?thesis
    using w(3-10) by (intro exI [of _ ?n] exI [of _ bm] exI [of _ d] exI [of _ B']) simp_all
qed

end

section \<open>The bytes of the file\<close>

lemma nth_overlay_clip:
  assumes "length bs = N" and "off < N" and "q < N"
  shows "overlay off (take (N - off) d) bs ! q = (if off \<le> q \<and> q - off < length d then d ! (q - off) else bs ! q)"
proof -
  have "off + length (take (N - off) d) \<le> length bs" using assms by auto
  from nth_overlay [OF this, of q] assms show ?thesis by auto
qed

lemma fbyte_wview_inside:
  assumes v: "fview B' n' = wview cursor data (fview B n)" and p: "cursor \<le> p" "p < cursor + length data"
    and first: "cursor mod BLOCK_SIZE \<noteq> 0 \<longrightarrow> (\<exists>bs. fview B n (cursor div BLOCK_SIZE) = Some bs \<and> length bs = BLOCK_SIZE)"
  shows "fbyte B' n' p = data ! (p - cursor)"
proof -
  let ?k = "p div BLOCK_SIZE"
  have k: "cursor div BLOCK_SIZE \<le> ?k" "?k * BLOCK_SIZE < cursor + length data"
    using div_le_mono [OF p(1)] p(2) cursor_split [of p] by (simp, linarith)
  show ?thesis
  proof (cases "?k * BLOCK_SIZE < cursor")
    case True
    then have e: "?k = cursor div BLOCK_SIZE" using k(1) block_before by (simp add: le_antisym)
    let ?off = "cursor mod BLOCK_SIZE"
    have "?off \<noteq> 0" using True cursor_split(1) [of cursor] unfolding e by linarith
    then obtain bs where bs: "fview B n ?k = Some bs" "length bs = BLOCK_SIZE" using first e by auto
    have pm: "p mod BLOCK_SIZE = ?off + (p - cursor)" "?off \<le> p mod BLOCK_SIZE" "p mod BLOCK_SIZE < BLOCK_SIZE"
      using cursor_split [of p] cursor_split [of cursor] p(1) unfolding e by linarith+
    have "overlay ?off (take (BLOCK_SIZE - ?off) data) bs ! (p mod BLOCK_SIZE) = data ! (p - cursor)"
    proof -
      have "p mod BLOCK_SIZE - ?off = p - cursor" "p - cursor < length data" using pm p by linarith+
      with pm(2) show ?thesis unfolding nth_overlay_clip [OF bs(2) cursor_split(2) pm(3)] by simp
    qed
    then show ?thesis
      using v k True bs(1) by (simp add: fbyte_def wview_def)
  next
    case False
    then have "p mod BLOCK_SIZE = p - ?k * BLOCK_SIZE" "?k * BLOCK_SIZE - cursor + p mod BLOCK_SIZE = p - cursor"
      using cursor_split [of p] by linarith+
    moreover have "fit (drop (?k * BLOCK_SIZE - cursor) data) ! (p mod BLOCK_SIZE)
        = data ! (?k * BLOCK_SIZE - cursor + p mod BLOCK_SIZE)"
      using calculation p cursor_split(2) [of p] False by (auto simp: fit_def nth_append)
    ultimately show ?thesis using v k False by (simp add: fbyte_def wview_def)
  qed
qed

lemma fbyte_wview_before:
  assumes v: "fview B' n' = wview cursor data (fview B n)" and p: "p < cursor"
    and first: "cursor mod BLOCK_SIZE \<noteq> 0 \<longrightarrow> (\<exists>bs. fview B n (cursor div BLOCK_SIZE) = Some bs \<and> length bs = BLOCK_SIZE)"
  shows "fbyte B' n' p = fbyte B n p"
proof -
  let ?k = "p div BLOCK_SIZE" and ?off = "cursor mod BLOCK_SIZE"
  have k: "?k * BLOCK_SIZE < cursor" using p cursor_split [of p] by linarith
  show ?thesis
  proof (cases "cursor div BLOCK_SIZE \<le> ?k \<and> ?k * BLOCK_SIZE < cursor + length data")
    case True
    then have e: "?k = cursor div BLOCK_SIZE" using block_before [OF k] by simp
    have pm: "p mod BLOCK_SIZE < ?off"
      using cursor_split [of p] cursor_split [of cursor] p unfolding e by linarith
    then obtain bs where bs: "fview B n ?k = Some bs" "length bs = BLOCK_SIZE" using first e by auto
    have "overlay ?off (take (BLOCK_SIZE - ?off) data) bs ! (p mod BLOCK_SIZE) = bs ! (p mod BLOCK_SIZE)"
      unfolding nth_overlay_clip [OF bs(2) cursor_split(2) cursor_split(2)] using pm by simp
    then show ?thesis using v k True bs(1) by (simp add: fbyte_def wview_def)
  next
    case False
    then have "fview B' n' ?k = fview B n ?k" by (simp only: v wview_def if_False)
    then show ?thesis by (simp add: fbyte_def)
  qed
qed

text \<open>A write that reaches the end of the file: the bytes before the offset and then the data.\<close>

lemma content_write:
  assumes v: "fview B' n' = wview cursor data (fview B n)"
    and first: "cursor mod BLOCK_SIZE \<noteq> 0 \<longrightarrow> (\<exists>bs. fview B n (cursor div BLOCK_SIZE) = Some bs \<and> length bs = BLOCK_SIZE)"
    and sz: "unat (file_size n') = cursor + length data" and c: "cursor \<le> unat (file_size n)"
  shows "content B' n' = take cursor (content B n) @ data"
proof (rule nth_equalityI)
  show "length (content B' n') = length (take cursor (content B n) @ data)"
    using sz c by (simp add: content_def)
next
  fix p
  assume "p < length (content B' n')"
  then have "p < cursor + length data" using sz by (simp add: content_def)
  then show "content B' n' ! p = (take cursor (content B n) @ data) ! p"
    using fbyte_wview_before [OF v _ first, of p] fbyte_wview_inside [OF v _ _ first, of p] sz c
    by (cases "p < cursor") (simp_all add: content_def fbytes_def nth_append)
qed

end
