(* ===== verification/Fs_Steps.thy ===== *)
theory Fs_Steps
  imports Fs_Write_Content
begin

text \<open>
  Sequences of file system calls on a mounted disk. \<open>fs_step\<close> has one rule per call of \<^verbatim>\<open>fs.h\<close>
  that a program makes between \<open>mount_fs\<close> and the next \<open>mount_fs\<close>, with any arguments and any
  disk, one that fails included; a call whose behaviour is undefined has no step. Two defined calls
  have no rule because they break the invariant: \<open>fs_open\<close> and \<open>fs_delete\<close> with the empty name,
  which the code takes for the name of an unused entry (shown in \<open>Fs_Props\<close>).
  Every state reached keeps \<open>fs_inv\<close>: the directory, the inode bitmap and the inode numbers agree,
  free slots are clean, and open descriptors name files that exist.
\<close>

section \<open>What the data operations may change\<close>

definition fd_ident :: "f_desc \<Rightarrow> bool \<times> u16" where
  "fd_ident f = (fd_is_used f, fd_inode_number f)"

definition io_rel :: "nat \<Rightarrow> 'd fs \<Rightarrow> 'd fs \<Rightarrow> bool" where
  "io_rel i0 s s' \<longleftrightarrow>
     dir_table s' = dir_table s \<and> inodes_bitmap s' = inodes_bitmap s \<and>
     length (blocks_bitmap s') = length (blocks_bitmap s) \<and>
     map fd_ident (fd_table s') = map fd_ident (fd_table s) \<and>
     (\<exists>n'. inode_table s' = (inode_table s)[i0 := n'] \<and>
        (inode_ok (inode_table s ! i0) \<longrightarrow> inode_ok n') \<and>
        inode_number n' = inode_number (inode_table s ! i0))"

lemma io_rel_refl [simp]: "io_rel i0 s s"
  by (auto simp: io_rel_def intro: exI [of _ "inode_table s ! i0"])

lemma io_rel_trans [trans]:
  assumes "io_rel i0 s s'" and "io_rel i0 s' s''"
  shows "io_rel i0 s s''"
proof -
  from assms obtain n' n'' where n: "inode_table s' = (inode_table s)[i0 := n']"
    "inode_table s'' = (inode_table s')[i0 := n'']"
    "inode_ok (inode_table s ! i0) \<longrightarrow> inode_ok n'" "inode_number n' = inode_number (inode_table s ! i0)"
    "inode_ok (inode_table s' ! i0) \<longrightarrow> inode_ok n''" "inode_number n'' = inode_number (inode_table s' ! i0)"
    by (auto simp: io_rel_def)
  show ?thesis
  proof (cases "i0 < length (inode_table s)")
    case True
    with n assms show ?thesis by (auto simp: io_rel_def intro!: exI [of _ n''])
  next
    case False
    with n assms show ?thesis by (auto simp: io_rel_def list_update_beyond intro!: exI [of _ "inode_table s ! i0"])
  qed
qed

lemma io_rel_disk [simp]: "io_rel i0 s (s\<lparr>disk := d\<rparr>)"
  by (auto simp: io_rel_def intro: exI [of _ "inode_table s ! i0"])

lemma io_rel_dev_write: "dev_write D b bs s = (rc, s') \<Longrightarrow> io_rel i0 s s'"
  by (auto simp: dev_write_def split: prod.splits)

lemma io_rel_dev_write_snd: "io_rel i0 s (snd (dev_write D b bs s))"
  by (rule io_rel_dev_write [of D b bs s "fst (dev_write D b bs s)"]) simp

lemma length_set_bit_bm: "set_bit_bm k bm = Some bm' \<Longrightarrow> length bm' = length bm"
  by (auto simp: set_bit_bm_def upd_opt_def Option_bind_eq_Some_conv split: if_splits)

lemma length_clear_bit: "clear_bit k bm = Some bm' \<Longrightarrow> length bm' = length bm"
  by (auto simp: clear_bit_def upd_opt_def Option_bind_eq_Some_conv split: if_splits)

lemma length_clear_blocks: "clear_blocks bs bm = Some bm' \<Longrightarrow> length bm' = length bm"
  by (induction bs arbitrary: bm)
    (auto simp: Option_bind_eq_Some_conv length_clear_bit split: if_splits)

lemma io_rel_bitmap: "length bm = length (blocks_bitmap s) \<Longrightarrow> io_rel i0 s (s\<lparr>blocks_bitmap := bm\<rparr>)"
  by (auto simp: io_rel_def intro: exI [of _ "inode_table s ! i0"])

lemma io_rel_inode:
  "(inode_ok (inode_table s ! i0) \<Longrightarrow> inode_ok n) \<Longrightarrow> inode_number n = inode_number (inode_table s ! i0) \<Longrightarrow>
    io_rel i0 s (s\<lparr>inode_table := (inode_table s)[i0 := n]\<rparr>)"
  by (auto simp: io_rel_def)

lemma io_rel_take_free_block: "take_free_block s = Some (b, s') \<Longrightarrow> io_rel i0 s s'"
  by (auto simp: take_free_block_def Option_bind_eq_Some_conv length_set_bit_bm
      intro!: io_rel_bitmap split: if_splits)

lemma take_free_block_inode: "take_free_block s = Some (b, s') \<Longrightarrow> inode_table s' = inode_table s"
  by (auto simp: take_free_block_def Option_bind_eq_Some_conv split: if_splits)

lemma io_rel_direct_for_write:
  assumes "direct_for_write i0 i s = Some (b, s')"
  shows "io_rel i0 s s'"
proof -
  from assms consider "s' = s" | s1 where "take_free_block s = Some (b, s1)"
      "s' = s1 \<or> s' = s1\<lparr>inode_table := (inode_table s1)[i0 := (inode_table s ! i0)\<lparr>direct_block :=
         (direct_block (inode_table s ! i0))[i := b]\<rparr>]\<rparr>"
    by (auto simp: direct_for_write_def Option_bind_eq_Some_conv nth_opt_eq_Some split: if_splits)
  then show ?thesis
  proof cases
    case 1
    then show ?thesis by simp
  next
    case 2
    note keep = take_free_block_inode [OF 2(1)]
    have "io_rel i0 s1 s'"
      using 2(2) by (auto simp: keep inode_ok_def intro!: io_rel_inode [of s1, unfolded keep])
    with io_rel_take_free_block [OF 2(1)] show ?thesis by (rule io_rel_trans)
  qed
qed

lemma io_rel_write_out: "write_out D b w nbyte buf bw s = Some (r, s') \<Longrightarrow> io_rel i0 s s'"
  by (auto simp: write_out_def Option_bind_eq_Some_conv Let_def split_def io_rel_dev_write_snd split: if_splits)

lemma io_rel_write_first: "write_first D b c nbyte buf s = (r, s') \<Longrightarrow> io_rel i0 s s'"
  by (auto simp: write_first_def Let_def split: if_splits prod.splits option.splits dest: io_rel_dev_write)

lemma io_rel_write_done:
  assumes "write_done fildes i0 cursor bw s = Some (rc, s')"
  shows "io_rel i0 s s'"
proof -
  have "map fd_ident ((fd_table s)[k := (fd_table s ! k)\<lparr>fd_offset := c\<rparr>]) = map fd_ident (fd_table s)" for k c
    by (cases "k < length (fd_table s)")
      (auto simp: nth_list_update fd_ident_def list_update_beyond intro!: nth_equalityI)
  then show ?thesis
    using assms
    by (auto simp: write_done_def Option_bind_eq_Some_conv nth_opt_eq_Some io_rel_def inode_ok_def intro!: exI)
qed

lemma io_rel_write_direct:
  "write_direct D fildes i0 cursor nbyte buf first_block bw i s = Some (r, s') \<Longrightarrow> io_rel i0 s s'"
proof (induction "NUM_DIRECT_BLOCKS - i" arbitrary: i first_block bw s r s' rule: less_induct)
  case less
  show ?case
  proof (cases "bw < nbyte \<and> i < NUM_DIRECT_BLOCKS")
    case False
    with less.prems show ?thesis by (subst (asm) write_direct.simps) auto
  next
    case loop: True
    have IH: "io_rel i0 t t'"
      if "write_direct D fildes i0 cursor nbyte buf fb bw' (Suc i) t = Some (r', t')" for fb bw' t r' t'
      by (rule less.hyps [OF _ that]) (use loop in linarith)
    show ?thesis
    proof (cases "first_block \<and> cursor mod BLOCK_SIZE \<noteq> 0")
      case f: True
      obtain q s1 where q: "write_first D (direct_block (inode_table s ! i0) ! i) cursor nbyte buf s = (q, s1)"
        by fastforce
      have "io_rel i0 s1 s'"
        using less.prems loop f q
        by (subst (asm) write_direct.simps)
          (auto simp: Option_bind_eq_Some_conv nth_opt_eq_Some split: option.splits sum.splits dest: IH)
      with io_rel_write_first [OF q] show ?thesis by (rule io_rel_trans)
    next
      case f: False
      from less.prems loop f obtain b s1 where d: "direct_for_write i0 i s = Some (b, s1)"
        and e: "(if b = 0 then do {
           (rc, s) \<leftarrow> write_done fildes i0 cursor bw s1; Some (Inl rc, s) }
         else do {
         (r, s) \<leftarrow> write_out D b (usub nbyte bw \<ge> BLOCK_SIZE) nbyte buf bw s1;
         (case r of
            Inl rc \<Rightarrow> Some (Inl rc, s)
          | Inr bw \<Rightarrow> write_direct D fildes i0 cursor nbyte buf False bw (Suc i) s) }) = Some (r, s')"
        by (subst (asm) write_direct.simps) (auto simp: Option_bind_eq_Some_conv split del: if_split)
      have "io_rel i0 s1 s'"
      proof (cases "b = 0")
        case True
        with e show ?thesis by (auto simp: Option_bind_eq_Some_conv dest: io_rel_write_done)
      next
        case False
        with e obtain q s2 where w: "write_out D b (usub nbyte bw \<ge> BLOCK_SIZE) nbyte buf bw s1 = Some (q, s2)"
          and k: "(case q of Inl rc \<Rightarrow> Some (Inl rc, s2)
            | Inr bw \<Rightarrow> write_direct D fildes i0 cursor nbyte buf False bw (Suc i) s2) = Some (r, s')"
          by (auto simp: Option_bind_eq_Some_conv simp del: sum.case)
        have "io_rel i0 s2 s'" using k by (cases q) (auto dest: IH)
        with io_rel_write_out [OF w] show ?thesis by (rule io_rel_trans)
      qed
      with io_rel_direct_for_write [OF d] show ?thesis by (rule io_rel_trans)
    qed
  qed
qed

lemma io_rel_write_indirect:
  "write_indirect D fildes i0 cursor nbyte buf bn i first_block bw ind s = Some (r, s') \<Longrightarrow> io_rel i0 s s'"
proof (induction "bn - i" arbitrary: i first_block bw ind s r s' rule: less_induct)
  case less
  show ?case
  proof (cases "i < bn")
    case False
    with less.prems show ?thesis by (subst (asm) write_indirect.simps) auto
  next
    case loop: True
    have IH: "io_rel i0 t t'"
      if "write_indirect D fildes i0 cursor nbyte buf bn (Suc i) fb bw' ind' t = Some (r', t')" for fb bw' ind' t r' t'
      using less.hyps [OF _ that] loop by simp
    show ?thesis
    proof (cases "first_block \<and> cursor mod BLOCK_SIZE \<noteq> 0")
      case f: True
      obtain q s1 where q: "write_first D (ind ! i) cursor nbyte buf s = (q, s1)" by fastforce
      have "io_rel i0 s1 s'"
        using less.prems loop f q
        by (subst (asm) write_indirect.simps)
          (auto simp: Option_bind_eq_Some_conv nth_opt_eq_Some split: option.splits sum.splits dest: IH)
      with io_rel_write_first [OF q] show ?thesis by (rule io_rel_trans)
    next
      case f: False
      let ?whole = "\<not> (int i = int bn - 1 \<and> usub nbyte bw < BLOCK_SIZE)"
      from less.prems loop f obtain b s1 where d:
        "(if ind ! i \<noteq> 0 then Some (ind ! i, s) else take_free_block s) = Some (b, s1)"
        and e: "(if b = 0 then do {
           (rc, s) \<leftarrow> write_done fildes i0 cursor bw s1; Some (Inl rc, s) }
         else do {
         (r, s) \<leftarrow> write_out D b ?whole nbyte buf bw s1;
         (case r of
            Inl rc \<Rightarrow> Some (Inl rc, s)
          | Inr bw \<Rightarrow> write_indirect D fildes i0 cursor nbyte buf bn (Suc i) False bw (ind[i := b]) s) }) = Some (r, s')"
        by (subst (asm) write_indirect.simps)
          (auto simp: Option_bind_eq_Some_conv nth_opt_eq_Some simp del: not_less de_Morgan_conj split del: if_split)
      have "io_rel i0 s1 s'"
      proof (cases "b = 0")
        case True
        with e show ?thesis by (auto simp: Option_bind_eq_Some_conv dest: io_rel_write_done)
      next
        case False
        with e obtain q s2 where w: "write_out D b ?whole nbyte buf bw s1 = Some (q, s2)"
          and k: "(case q of Inl rc \<Rightarrow> Some (Inl rc, s2)
            | Inr bw \<Rightarrow> write_indirect D fildes i0 cursor nbyte buf bn (Suc i) False bw (ind[i := b]) s2) = Some (r, s')"
          by (auto simp: Option_bind_eq_Some_conv simp del: sum.case not_less de_Morgan_conj)
        have "io_rel i0 s2 s'" using k by (cases q) (auto dest: IH)
        with io_rel_write_out [OF w] show ?thesis by (rule io_rel_trans)
      qed
      moreover have "io_rel i0 s s1" using d by (auto dest: io_rel_take_free_block split: if_splits)
      ultimately show ?thesis by (blast intro: io_rel_trans)
    qed
  qed
qed


lemma io_rel_indirect_for_write:
  assumes "indirect_for_write D fildes i0 cursor bw s = Some (r, s')"
  shows "io_rel i0 s s'"
proof (cases "single_indirect_block (inode_table s ! i0) = 0")
  case False
  with assms show ?thesis
    by (auto simp: indirect_for_write_def Option_bind_eq_Some_conv nth_opt_eq_Some split_def Let_def split: if_splits)
next
  case True
  from assms True obtain b s1 where t: "take_free_block s = Some (b, s1)"
    and e: "(if b = 0 then do { (rc, s) \<leftarrow> write_done fildes i0 cursor bw s1; Some (Inl rc, s) }
      else Some (Inr (replicate 2048 0, 0, b),
        s1\<lparr>inode_table := (inode_table s1)[i0 := (inode_table s ! i0)\<lparr>single_indirect_block := b\<rparr>]\<rparr>)) = Some (r, s')"
    by (auto simp: indirect_for_write_def Option_bind_eq_Some_conv nth_opt_eq_Some split del: if_split)
  note keep = take_free_block_inode [OF t]
  have "io_rel i0 s1 s'"
    using e by (auto simp: Option_bind_eq_Some_conv keep inode_ok_def split: if_splits dest: io_rel_write_done
        intro!: io_rel_inode [of s1, unfolded keep])
  with io_rel_take_free_block [OF t] show ?thesis by (rule io_rel_trans)
qed

lemma io_rel_write_rest:
  assumes "write_rest D fildes i0 cursor nbyte buf fb bw s = Some (r, s')"
  shows "io_rel i0 s s'"
proof (cases "usub nbyte bw > 0")
  case False
  with assms show ?thesis by (simp add: write_rest_def)
next
  case True
  with assms obtain q s1 where q: "indirect_for_write D fildes i0 cursor bw s = Some (q, s1)"
    and k: "(case q of
          Inl rc \<Rightarrow> Some (Inl rc, s1)
        | Inr (ind_block, ind_block_idx, sib) \<Rightarrow> do {
            let blocks_needed = ceil_blocks (usub nbyte bw) mod 2 ^ 16;
            (r, s) \<leftarrow> write_indirect D fildes i0 cursor nbyte buf blocks_needed ind_block_idx fb bw ind_block s1;
            (case r of
               Inl rc \<Rightarrow> Some (Inl rc, s)
             | Inr (bw, ind_block) \<Rightarrow>
                 let (rc, s) = dev_write D sib (enc16s ind_block) s in
                 if rc \<noteq> 0 then Some (Inl (- 1), s) else Some (Inr bw, s)) }) = Some (r, s')"
    by (auto simp: write_rest_def Option_bind_eq_Some_conv simp del: sum.case)
  have "io_rel i0 s1 s'"
  proof (cases q)
    case (Inl rc)
    with k show ?thesis by simp
  next
    case (Inr x)
    obtain ind idx sib where x: "x = (ind, idx, sib)" by (cases x)
    from k [unfolded Inr x sum.case prod.case Let_def] obtain p s2 where w: "write_indirect D fildes i0 cursor nbyte buf (ceil_blocks (usub nbyte bw) mod 2 ^ 16)
        idx fb bw ind s1 = Some (p, s2)"
      and e: "(case p of Inl rc \<Rightarrow> Some (Inl rc, s2) | Inr (bw, ind_block) \<Rightarrow>
                 case dev_write D sib (enc16s ind_block) s2 of (rc, s) \<Rightarrow>
                 if rc \<noteq> 0 then Some (Inl (- 1), s) else Some (Inr bw, s)) = Some (r, s')"
      by (auto simp: Option_bind_eq_Some_conv split del: if_split)
    have "io_rel i0 s2 s'"
      using e by (cases p) (auto simp: split_def Let_def io_rel_dev_write_snd split: if_splits)
    with io_rel_write_indirect [OF w] show ?thesis by (rule io_rel_trans)
  qed
  with io_rel_indirect_for_write [OF q] show ?thesis by (rule io_rel_trans)
qed

lemma io_rel_write_body:
  assumes "write_body D fildes i0 cursor nbyte buf s = Some (rc, s')"
  shows "io_rel i0 s s'"
proof -
  from assms obtain r s1 where
    d: "write_direct D fildes i0 cursor nbyte buf True 0 (cursor div BLOCK_SIZE) s = Some (r, s1)" and
    k: "(case r of Inl rc \<Rightarrow> Some (rc, s1) | Inr (first_block, bw) \<Rightarrow> do {
        (r, s) \<leftarrow> write_rest D fildes i0 cursor nbyte buf first_block bw s1;
        (case r of Inl rc \<Rightarrow> Some (rc, s) | Inr bw \<Rightarrow> write_done fildes i0 cursor bw s) }) = Some (rc, s')"
    by (auto simp: write_body_def Option_bind_eq_Some_conv)
  have "io_rel i0 s1 s'"
  proof (cases r)
    case (Inl x)
    with k show ?thesis by simp
  next
    case (Inr x)
    obtain fb bw where x: "x = (fb, bw)" by (cases x)
    obtain p s2 where w: "write_rest D fildes i0 cursor nbyte buf fb bw s1 = Some (p, s2)"
      and e: "(case p of Inl rc \<Rightarrow> Some (rc, s2) | Inr bw \<Rightarrow> write_done fildes i0 cursor bw s2) = Some (rc, s')"
      using k [unfolded Inr x sum.case prod.case] by (auto simp: Option_bind_eq_Some_conv)
    have "io_rel i0 s2 s'" using e by (cases p) (auto dest: io_rel_write_done)
    with io_rel_write_rest [OF w] show ?thesis by (rule io_rel_trans)
  qed
  with io_rel_write_direct [OF d] show ?thesis by (rule io_rel_trans)
qed

lemma io_rel_fs_write:
  assumes "fs_write D fildes buf nbyte s = Some (rc, s')"
  shows "s' = s \<or> (\<exists>f \<in> set (fd_table s). fd_is_used f \<and> io_rel (unat (fd_inode_number f)) s s')"
  using assms
  by (auto simp: fs_write_def Option_bind_eq_Some_conv nth_opt_eq_Some Let_def
      dest!: io_rel_write_body split: if_splits)

section \<open>The invariant\<close>

lemma fd_wf_ident:
  "fd_wf s \<longleftrightarrow> (\<forall>p \<in> fd_ident ` set (fd_table s). fst p \<longrightarrow>
     unat (snd p) < MAX_NUM_FILES \<and> unat (snd p) \<in> bitset (inodes_bitmap s))"
  by (simp add: fd_wf_def fd_ident_def)

lemma fs_inv_io_rel:
  assumes inv: "fs_inv s" and i: "i0 < 64 \<Longrightarrow> i0 \<in> bitset (inodes_bitmap s)" and r: "io_rel i0 s s'"
  shows "fs_inv s'" and "dir_map s' = dir_map s"
proof -
  from r obtain n' where n: "inode_table s' = (inode_table s)[i0 := n']"
    "inode_ok (inode_table s ! i0) \<longrightarrow> inode_ok n'" "inode_number n' = inode_number (inode_table s ! i0)"
    by (auto simp: io_rel_def)
  note wf = fs_invD(1) [OF inv]
  note t = dir_wf_typed [OF wf]
  have w: "dir_wf (s\<lparr>inode_table := (inode_table s)[i0 := n']\<rparr>)"
    "dir_map (s\<lparr>inode_table := (inode_table s)[i0 := n']\<rparr>) = dir_map s"
  proof (atomize(full), cases "i0 < 64")
    case True
    then have "inode_ok n'" using n(2) fs_typedD(6) [OF t] by simp
    from dir_wf_inode [OF wf True i [OF True] this n(3)]
    show "dir_wf (s\<lparr>inode_table := (inode_table s)[i0 := n']\<rparr>) \<and>
      dir_map (s\<lparr>inode_table := (inode_table s)[i0 := n']\<rparr>) = dir_map s" by simp
  next
    case False
    then have "(inode_table s)[i0 := n'] = inode_table s"
      using fs_typedD(2) [OF t] by (simp add: list_update_beyond)
    with wf show "dir_wf (s\<lparr>inode_table := (inode_table s)[i0 := n']\<rparr>) \<and>
      dir_map (s\<lparr>inode_table := (inode_table s)[i0 := n']\<rparr>) = dir_map s" by simp
  qed
  have l: "length (fd_table s') = length (fd_table s)"
    using r by (auto simp: io_rel_def dest: map_eq_imp_length_eq)
  note c = dir_wf_cong [of s' "s\<lparr>inode_table := (inode_table s)[i0 := n']\<rparr>"]
  have "dir_wf s'" "dir_map s' = dir_map s" using c w n(1) r l by (simp_all add: io_rel_def)
  moreover have "fd_wf s'"
  proof -
    have "fd_ident ` set (fd_table s') = fd_ident ` set (fd_table s)"
      using r unfolding io_rel_def list.set_map [symmetric] by simp
    with fs_invD(2) [OF inv] r show ?thesis by (simp add: fd_wf_ident io_rel_def)
  qed
  ultimately show "fs_inv s'" "dir_map s' = dir_map s" by (simp_all add: fs_inv_def)
qed


lemma fd_ident_offset:
  "map fd_ident ((fd_table s)[k := (fd_table s ! k)\<lparr>fd_offset := c\<rparr>]) = map fd_ident (fd_table s)"
  by (cases "k < length (fd_table s)")
    (auto simp: nth_list_update fd_ident_def list_update_beyond intro!: nth_equalityI)

lemma io_rel_offset: "io_rel i0 s (s\<lparr>fd_table := (fd_table s)[k := (fd_table s ! k)\<lparr>fd_offset := c\<rparr>]\<rparr>)"
  using fd_ident_offset [of s k c] by (auto simp: io_rel_def intro: exI [of _ "inode_table s ! i0"])

lemma io_rel_read_body:
  assumes "read_body D fildes n cursor nbyte buf s = Some (rc, buf', s')"
  shows "io_rel i0 s s'"
proof -
  define m where "m = (if cursor div BLOCK_SIZE < NUM_DIRECT_BLOCKS
     then read_direct D s n cursor nbyte (cursor div BLOCK_SIZE) True 0 buf else Some (Inr (True, 0, buf)))"
  from assms show ?thesis
    unfolding read_body_def m_def [symmetric]
    by (auto simp: bind_sum_eq_Some split_def)
      (auto simp: bind_sum_eq_Some Option_bind_eq_Some_conv [of "to_int _"] split_def io_rel_offset)
qed

lemma io_rel_fs_read:
  assumes "fs_read D fildes buf nbyte s = Some (rc, buf', s')"
  shows "io_rel i0 s s'"
  using assms
  by (auto simp: fs_read_def Option_bind_eq_Some_conv nth_opt_eq_Some Let_def
      dest!: io_rel_read_body [where ?i0.0 = i0] split: if_splits)

lemma io_rel_fs_lseek:
  assumes "fs_lseek fildes off s = Some (rc, s')"
  shows "io_rel i0 s s'"
  using assms
  by (auto simp: fs_lseek_def Option_bind_eq_Some_conv nth_opt_eq_Some split: if_splits intro: io_rel_offset)

lemma length_truncate_direct:
  "truncate_direct ds i bm = Some (j, bm') \<Longrightarrow> length bm' = length bm"
proof (induction ds i bm rule: truncate_direct.induct)
  case (1 ds i bm)
  from 1(2) show ?case
    by (subst (asm) truncate_direct.simps)
      (auto simp: Option_bind_eq_Some_conv length_clear_bit split: if_splits dest: 1(1))
qed

lemma clear_indirect_bitmap:
  "clear_indirect D n s = Some (ok, s') \<Longrightarrow> \<exists>bm. length bm = length (blocks_bitmap s) \<and> s' = s\<lparr>blocks_bitmap := bm\<rparr>"
  by (auto simp: clear_indirect_def Let_def split_def Option_bind_eq_Some_conv split: if_splits
      dest: length_clear_blocks intro: exI [of _ "blocks_bitmap s"])


lemma truncate_blocks_bitmap:
  "truncate_blocks D n len s = Some (ok, s') \<Longrightarrow> \<exists>bm. length bm = length (blocks_bitmap s) \<and> s' = s\<lparr>blocks_bitmap := bm\<rparr>"
  by (fastforce simp: truncate_blocks_def Option_bind_eq_Some_conv Let_def split: if_splits
      dest: clear_indirect_bitmap length_truncate_direct)

lemma io_rel_fs_truncate:
  assumes "fs_truncate D fildes len s = Some (rc, s')"
  shows "s' = s \<or> (\<exists>f \<in> set (fd_table s). fd_is_used f \<and> io_rel (unat (fd_inode_number f)) s s')"
proof (cases "s' = s")
  case False
  let ?f = "fd_table s ! nat fildes"
  let ?i = "unat (fd_inode_number ?f)"
  let ?n = "inode_table s ! ?i"
  from False assms obtain ok s1 where f: "nat fildes < length (fd_table s)" "fd_is_used ?f"
    and t: "truncate_blocks D ?n (nat len) s = Some (ok, s1)"
    and k: "s' = s1 \<or> s' = s1\<lparr>inode_table := (inode_table s1)[?i := ?n\<lparr>file_size := word_of_int len\<rparr>],
          fd_table := (if int (fd_offset ?f) > len
             then (fd_table s1)[nat fildes := ?f\<lparr>fd_offset := nat len\<rparr>] else fd_table s1)\<rparr>"
    by (auto simp: fs_truncate_def Option_bind_eq_Some_conv nth_opt_eq_Some split: if_splits)
  from truncate_blocks_bitmap [OF t] obtain bm where s1: "s1 = s\<lparr>blocks_bitmap := bm\<rparr>"
    and l: "length bm = length (blocks_bitmap s)" by blast
  have "io_rel ?i s s1" using io_rel_bitmap [OF l] s1 by simp
  also have "io_rel ?i s1 s'"
  proof -
    let ?s2 = "s1\<lparr>inode_table := (inode_table s1)[?i := ?n\<lparr>file_size := word_of_int len\<rparr>]\<rparr>"
    have "io_rel ?i s1 ?s2" by (rule io_rel_inode) (simp_all add: s1 inode_ok_def)
    moreover have "s' = s1 \<or> s' = ?s2 \<or>
        s' = ?s2\<lparr>fd_table := (fd_table ?s2)[nat fildes := (fd_table ?s2 ! nat fildes)\<lparr>fd_offset := nat len\<rparr>]\<rparr>"
      using k s1 by auto
    ultimately show ?thesis using io_rel_offset [of ?i ?s2] by (auto intro: io_rel_trans)
  qed
  finally show ?thesis using f nth_mem [OF f(1)] by blast
qed simp

lemma fs_inv_close:
  assumes "fs_inv s" and "fs_close fildes s = Some (rc, s')"
  shows "fs_inv s'"
  using assms fd_wf_update [of s empty_fd "nat fildes"] dir_wf_cong(1) [of s' s]
  by (auto simp: fs_close_def Option_bind_eq_Some_conv fs_inv_def empty_fd_def split: if_splits)

lemma fs_inv_open:
  assumes inv: "fs_inv s" and nm: "cstr name \<noteq> []" and op: "fs_open name s = (rc, s')"
  shows "fs_inv s'"
proof (cases "s' = s")
  case True
  with inv show ?thesis by simp
next
  case False
  with op obtain i k where i: "find_idx (\<lambda>e. strcmp_eq (de_name e) name) (dir_table s) 0 = Some i"
    and s': "s' = s\<lparr>fd_table := (fd_table s)[k := \<lparr>fd_is_used = True,
      fd_inode_number = de_inode_number (dir_table s ! i), fd_offset = 0\<rparr>]\<rparr>"
    by (auto simp: fs_open_def split: option.splits)
  note wf = fs_invD(1) [OF inv]
  from i find_name_dir_map [OF wf nm] dir_map_Some [OF wf] have u: "i < 64" "i \<in> bitset (inodes_bitmap s)" by auto
  with dir_wf_slot [OF wf u(1)] have "de_inode_number (dir_table s ! i) = of_nat i" by (simp add: slot_wf_def Let_def)
  with u s' fd_wf_update [OF fs_invD(2) [OF inv], of "\<lparr>fd_is_used = True,
      fd_inode_number = de_inode_number (dir_table s ! i), fd_offset = 0\<rparr>" k] dir_wf_cong(1) [of s' s] wf
  show ?thesis by (simp add: fs_inv_def c_consts)
qed

text \<open>A new file cannot be given the empty name: it is equal to the name of every unused entry.\<close>

lemma create_empty_name:
  assumes "dir_wf s" and "cstr name = []"
  shows "fs_create name s = Some (- 1, s)"
proof (cases "{..<64} \<subseteq> bitset (inodes_bitmap s)")
  case True
  then have "list_all (\<lambda>e. de_is_used e \<noteq> 0) (dir_table s)"
    using create_checks(2) [OF assms(1), of "[1]"] by (simp add: cstr_def)
  then show ?thesis by (simp add: fs_create_def)
next
  case False
  from find_empty_name [OF assms False] have "list_ex (\<lambda>e. strcmp_eq name (de_name e)) (dir_table s)"
    using find_idx_None [of "\<lambda>e. strcmp_eq (de_name e) name" "dir_table s" 0]
    by (auto simp: list_ex_iff strcmp_eq_def) metis
  then show ?thesis by (simp add: fs_create_def)
qed

lemma fs_inv_create_named:
  assumes inv: "fs_inv s" and nm: "cstr name \<noteq> []" and cr: "fs_create name s = Some (rc, s')"
  shows "fs_inv s'"
proof (cases "dir_map s (cstr name) \<noteq> None \<or> {..<64} \<subseteq> bitset (inodes_bitmap s)")
  case True
  with create_checks [OF fs_invD(1) [OF inv] nm] cr inv show ?thesis
    by (auto simp: fs_create_def sizeof_ptr_def c_consts split: if_splits)
next
  case False
  note wf = fs_invD(1) [OF inv]
  note room = False [THEN conjunct2 [OF iffD1 [OF de_Morgan_disj]]]
  have "length (cstr name) \<le> 15"
  proof (rule ccontr)
    assume long: "\<not> length (cstr name) \<le> 15"
    from least_free_inode [OF room] obtain i where "i < 64" "i \<notin> bitset (inodes_bitmap s)" "{..<i} \<subseteq> bitset (inodes_bitmap s)"
      by blast
    with create_entry_found [OF dir_wf_typed [OF wf], of 0 i name] long strcpy_overflow [of "cstr name"]
    have "create_entry 0 name s = None" by (simp add: lessThan_atLeast0)
    with cr create_checks [OF wf nm] False show False by (simp add: fs_create_def sizeof_ptr_def c_consts)
  qed
  with fs_create_refines [OF wf nm _ _ room] False cr obtain i bm tab where
    "dir_wf s'" "s' = s\<lparr>dir_table := tab, inodes_bitmap := bm\<rparr>" "bitset bm = insert i (bitset (inodes_bitmap s))"
    by auto
  with fs_invD(2) [OF inv] show ?thesis by (auto simp: fs_inv_def fd_wf_def)
qed


lemma delete_blocks_bitmap:
  "delete_blocks D n s = Some (ok, s') \<Longrightarrow> \<exists>bm. length bm = length (blocks_bitmap s) \<and> s' = s\<lparr>blocks_bitmap := bm\<rparr>"
  by (fastforce simp: delete_blocks_def Option_bind_eq_Some_conv Let_def split: if_splits
      dest: clear_indirect_bitmap length_clear_blocks)

lemma fs_inv_delete:
  assumes inv: "fs_inv s" and nm: "cstr name \<noteq> []" and de: "fs_delete D name s = Some (rc, s')"
  shows "fs_inv s'"
proof (cases "s' = s")
  case True
  with inv show ?thesis by simp
next
  case False
  note wf = fs_invD(1) [OF inv]
  note t = dir_wf_typed [OF wf]
  note look = find_name_dir_map [OF wf nm]
  from False de obtain i where i: "dir_map s (cstr name) = Some i" and idle: "\<not> list_ex fd_is_used (fd_table s)"
    unfolding fs_delete_def look by (auto split: option.splits if_splits)
  from i dir_map_Some [OF wf] have u: "i < 64" "i \<in> bitset (inodes_bitmap s)" by auto
  from dir_wf_slot [OF wf u(1)] u have e: "de_inode_number (dir_table s ! i) = of_nat i"
    "inode_number (inode_table s ! i) = of_nat i" by (simp_all add: slot_wf_def Let_def)
  let ?n = "inode_table s ! i"
  have clear: "?n\<lparr>direct_block := replicate NUM_DIRECT_BLOCKS 0, single_indirect_block := 0,
      file_size := 0, file_type := 0\<rparr> = empty_inode i"
    using e(2) by (simp add: empty_inode_def)
  from de idle u(1) fs_typedD(2) [OF t] obtain ok s1 where d: "delete_blocks D ?n s = Some (ok, s1)"
    and k1: "s' = s1 \<or> (\<exists>ib. clear_bit (of_nat i) (inodes_bitmap s1) = Some ib \<and>
      s' = s1\<lparr>inode_table := (inode_table s1)[i := empty_inode i], inodes_bitmap := ib,
        dir_table := (dir_table s1)[i := empty_dentry]\<rparr>)"
    unfolding fs_delete_def look i option.case e(1)
    by (auto simp: Option_bind_eq_Some_conv nth_opt_eq_Some MAX_NUM_FILES_def clear split: if_splits)
  from delete_blocks_bitmap [OF d] obtain bm where l: "length bm = length (blocks_bitmap s)"
    and s1: "s1 = s\<lparr>blocks_bitmap := bm\<rparr>" by blast
  from k1 s1 have k: "s' = s\<lparr>blocks_bitmap := bm\<rparr> \<or> (\<exists>ib. clear_bit (of_nat i) (inodes_bitmap s) = Some ib \<and>
      s' = s\<lparr>blocks_bitmap := bm, inode_table := (inode_table s)[i := empty_inode i], inodes_bitmap := ib,
        dir_table := (dir_table s)[i := empty_dentry]\<rparr>)" by auto
  have quiet: "fd_wf s'" using idle k by (auto simp: fd_wf_def list_ex_iff)
  moreover have "dir_wf s'"
  proof (cases "s' = s\<lparr>blocks_bitmap := bm\<rparr>")
    case True
    then show ?thesis using dir_wf_cong(1) [of s' s] l wf by simp
  next
    case False
    with k obtain ib where ib: "clear_bit (of_nat i) (inodes_bitmap s) = Some ib"
      "s' = s\<lparr>blocks_bitmap := bm, inode_table := (inode_table s)[i := empty_inode i], inodes_bitmap := ib,
        dir_table := (dir_table s)[i := empty_dentry]\<rparr>" by blast
    moreover have "length ib = 8" "bitset ib = bitset (inodes_bitmap s) - {i}"
      using clear_bit_in [of "of_nat i" "inodes_bitmap s"] ib(1) u(1) fs_typedD(5) [OF t] by auto
    ultimately show ?thesis
      using dir_wf_remove(1) [OF wf u(1) _ _ _ i, of ib bm] l fs_typedD(4) [OF t]
        dir_wf_cong(1) [of s' "s\<lparr>inode_table := (inode_table s)[i := empty_inode i], inodes_bitmap := ib,
          blocks_bitmap := bm, dir_table := (dir_table s)[i := empty_dentry]\<rparr>"] by simp
  qed
  ultimately show ?thesis by (simp add: fs_inv_def)
qed

lemma fs_inv_create:
  assumes "fs_inv s" and "fs_create name s = Some (rc, s')"
  shows "fs_inv s'"
proof (cases "cstr name = []")
  case True
  with create_empty_name [OF fs_invD(1) [OF assms(1)]] assms show ?thesis by simp
next
  case False
  with fs_inv_create_named assms show ?thesis by blast
qed

section \<open>Sequences of calls\<close>

inductive fs_step :: "'d disk_ops \<Rightarrow> 'd fs \<Rightarrow> 'd fs \<Rightarrow> bool" for D where
  create: "fs_create name s = Some (rc, s') \<Longrightarrow> fs_step D s s'"
| delete: "cstr name \<noteq> [] \<Longrightarrow> fs_delete D name s = Some (rc, s') \<Longrightarrow> fs_step D s s'"
| open_f: "cstr name \<noteq> [] \<Longrightarrow> fs_open name s = (rc, s') \<Longrightarrow> fs_step D s s'"
| close_f: "fs_close fildes s = Some (rc, s') \<Longrightarrow> fs_step D s s'"
| read_f: "fs_read D fildes buf nbyte s = Some (rc, buf', s') \<Longrightarrow> fs_step D s s'"
| write_f: "fs_write D fildes buf nbyte s = Some (rc, s') \<Longrightarrow> fs_step D s s'"
| seek_f: "fs_lseek fildes offset s = Some (rc, s') \<Longrightarrow> fs_step D s s'"
| truncate_f: "fs_truncate D fildes len s = Some (rc, s') \<Longrightarrow> fs_step D s s'"

lemma fd_wf_used: "fd_wf s \<Longrightarrow> f \<in> set (fd_table s) \<Longrightarrow> fd_is_used f \<Longrightarrow>
    unat (fd_inode_number f) \<in> bitset (inodes_bitmap s)"
  by (simp add: fd_wf_def)

lemma fs_inv_step:
  assumes "fs_step D s s'" and inv: "fs_inv s"
  shows "fs_inv s'"
  using assms(1)
proof cases
  case (create name rc)
  then show ?thesis by (rule fs_inv_create [OF inv])
next
  case (delete name rc)
  then show ?thesis by (rule fs_inv_delete [OF inv])
next
  case (open_f name rc)
  then show ?thesis by (rule fs_inv_open [OF inv])
next
  case (close_f fildes rc)
  then show ?thesis by (rule fs_inv_close [OF inv])
next
  case (read_f fildes buf nbyte rc buf')
  then show ?thesis using fs_inv_io_rel(1) [OF inv _ io_rel_fs_read, of 64] by simp
next
  case (write_f fildes buf nbyte rc)
  then show ?thesis
    using io_rel_fs_write fs_inv_io_rel(1) [OF inv] fd_wf_used [OF fs_invD(2) [OF inv]] inv by metis
next
  case (seek_f fildes offset rc)
  then show ?thesis using fs_inv_io_rel(1) [OF inv _ io_rel_fs_lseek, of 64] by simp
next
  case (truncate_f fildes len rc)
  then show ?thesis
    using io_rel_fs_truncate fs_inv_io_rel(1) [OF inv] fd_wf_used [OF fs_invD(2) [OF inv]] inv by metis
qed

lemma fs_inv_steps: "(fs_step D)\<^sup>*\<^sup>* s s' \<Longrightarrow> fs_inv s \<Longrightarrow> fs_inv s'"
  by (induction rule: rtranclp_induct) (auto intro: fs_inv_step)

lemma fs_inv_fresh: "length bm = 1024 \<Longrightarrow> fs_inv (fresh_fs bm d)"
  by (simp add: fs_inv_def dir_wf_fresh) (simp add: fd_wf_def fresh_fs_def empty_fd_def)

end
