(* ===== verification/Fs_Files.thy ===== *)
theory Fs_Files
  imports Fs_Steps
begin

text \<open>
  Files as the caller sees them: an open descriptor with its offset, the content of the file, and
  the calls \<open>fs_write\<close>, \<open>fs_lseek\<close>, \<open>fs_read\<close>, \<open>fs_truncate\<close> in those terms.
\<close>

definition open_file :: "'d fs \<Rightarrow> int \<Rightarrow> nat \<Rightarrow> nat \<Rightarrow> bool" where
  "open_file s fd i cursor \<longleftrightarrow> 0 \<le> fd \<and> fd < int MAX_NUM_FD \<and> fd_is_used (fd_table s ! nat fd) \<and>
     unat (fd_inode_number (fd_table s ! nat fd)) = i \<and> i < MAX_NUM_FILES \<and>
     fd_offset (fd_table s ! nat fd) = cursor"

text \<open>
  What a write needs: it starts in the direct blocks and ends within the maximal size; the pointers
  of the file are marked, different and outside \<open>X\<close>; an unaligned start is inside an existing block;
  a file that has an indirect block is not continued into it from beyond its first block; and the
  disk has two more free blocks than the data takes. What the code does beyond the direct blocks is
  in \<open>beyond_direct_write\<close> and \<open>far_write\<close> below.
\<close>

definition write_ok :: "u8 list \<Rightarrow> nat set \<Rightarrow> (nat \<Rightarrow> u8 list) \<Rightarrow> inode \<Rightarrow> nat \<Rightarrow> nat \<Rightarrow> bool" where
  "write_ok bm X B n cursor nbyte \<longleftrightarrow>
     cursor < NUM_DIRECT_BLOCKS * BLOCK_SIZE \<and> 0 < nbyte \<and> cursor + nbyte \<le> MAX_FILE_SIZE \<and>
     pinv bm X (ptrs B n) \<and>
     (cursor mod BLOCK_SIZE \<noteq> 0 \<longrightarrow> direct_block n ! (cursor div BLOCK_SIZE) \<noteq> 0) \<and>
     (cursor + nbyte \<le> NUM_DIRECT_BLOCKS * BLOCK_SIZE \<or> single_indirect_block n = 0 \<or> cursor < BLOCK_SIZE) \<and>
     ceil_blocks nbyte + 2 \<le> nfree bm"

lemma content_cong:
  assumes "\<forall>x \<in> blocks_of (ptrs B n). B' x = B x"
  shows "content B' n = content B n"
proof -
  have "indirect_entries B' n = indirect_entries B n" "pdata B' (indirect_entries B n) = pdata B (indirect_entries B n)"
    using indirect_entries_keep [of n n B B'] assms by (simp_all add: ptrs_def)
  moreover have "pdata B' (direct_block n) = pdata B (direct_block n)"
    using assms by (intro pdata_cong) (simp add: ptrs_def)
  ultimately have "fview B' n = fview B n" by (simp add: fview_def fun_eq_iff)
  then show ?thesis by (simp add: content_def fbytes_def fbyte_def)
qed

lemma backed_write:
  assumes v: "fview B' n' = wview cursor data (fview B n)" and old: "backed B n cursor"
    and l: "length bm = 1024" and p: "pinv bm X (ptrs B' n')"
  shows "backed B' n' (cursor + length data)"
proof -
  have "fview B' n' k \<noteq> None" if k: "k * BLOCK_SIZE < cursor + length data" for k
  proof (cases "k * BLOCK_SIZE < cursor")
    case True
    with old have "fview B n k \<noteq> None" by (simp add: backed_def)
    then show ?thesis by (simp add: v wview_def)
  next
    case False
    then have "cursor div BLOCK_SIZE \<le> k" by (intro block_after) simp
    with False k show ?thesis by (simp add: v wview_def)
  qed
  moreover have "unat b < DISK_BLOCKS" if "b \<in> set (ptrs B' n')" for b
    using that p bitset_bound [of "unat b" bm] l by (cases "b = 0") (auto simp: pinv_def DISK_BLOCKS_def)
  ultimately show ?thesis by (auto simp: backed_def ptrs_def)
qed

lemma open_fileD:
  assumes "fs_typed s" and "open_file s fd i c"
  shows "0 \<le> fd" and "fd < 32" and "nat fd < length (fd_table s)" and "i < length (inode_table s)" and "i < 64"
    and "fd_is_used (fd_table s ! nat fd)" and "unat (fd_inode_number (fd_table s ! nat fd)) = i"
    and "fd_offset (fd_table s ! nat fd) = c"
  using assms(2) fs_typedD(1,2) [OF assms(1)] by (auto simp: open_file_def c_consts)

lemma fs_lseek_ok:
  assumes t: "fs_typed s" and o: "open_file s fd i c" and sz: "off \<le> unat (file_size (inode_table s ! i))"
    and lim: "off < 2 ^ 31"
  shows "fs_lseek fd (int off) s = Some (0, s\<lparr>fd_table := (fd_table s)[nat fd :=
    (fd_table s ! nat fd)\<lparr>fd_offset := off\<rparr>]\<rparr>)"
  using open_fileD [OF t o] iffD2 [OF zle_int sz] lim
  by (simp add: fs_lseek_def nth_opt_in to_int_in MAX_NUM_FD_def)

lemma open_file_seek:
  assumes "fs_typed s" and "open_file s fd i c"
  shows "open_file (s\<lparr>fd_table := (fd_table s)[nat fd := (fd_table s ! nat fd)\<lparr>fd_offset := off\<rparr>]\<rparr>) fd i off"
  using open_fileD [OF assms] by (simp add: open_file_def c_consts)

context disk_dev
begin

lemma fs_write_file:
  assumes m: "mounted_on current img s nm B" and t: "fs_typed s" and o: "open_file s fd i cursor"
    and n: "n = inode_table s ! i" and w: "write_ok (blocks_bitmap s) X B n cursor nbyte"
    and buf: "nbyte \<le> length buf" and sz: "cursor \<le> unat (file_size n)" "unat (file_size n) \<le> cursor + nbyte"
    and old: "backed B n cursor"
  shows "\<exists>s' B'. fs_write D fd buf nbyte s = Some (int nbyte, s') \<and> mounted_on current img s' nm B'
    \<and> fs_typed s' \<and> open_file s' fd i (cursor + nbyte)
    \<and> content B' (inode_table s' ! i) = take cursor (content B n) @ take nbyte buf
    \<and> unat (file_size (inode_table s' ! i)) = cursor + nbyte \<and> backed B' (inode_table s' ! i) (cursor + nbyte)
    \<and> pinv (blocks_bitmap s') X (ptrs B' (inode_table s' ! i))
    \<and> (\<forall>j. j \<noteq> i \<longrightarrow> inode_table s' ! j = inode_table s ! j) \<and> (\<forall>x \<in> X. B' x = B x)
    \<and> dir_table s' = dir_table s \<and> inodes_bitmap s' = inodes_bitmap s"
proof -
  note o' = o [unfolded open_file_def] and w' = w [unfolded write_ok_def]
  note i = open_fileD(5,3,4) [OF t o]
  obtain n' bm d B' where r: "fs_write D fd buf nbyte s = Some (int nbyte, s\<lparr>blocks_bitmap := bm, disk := d,
        inode_table := (inode_table s)[i := n'],
        fd_table := (fd_table s)[nat fd := (fd_table s ! nat fd)\<lparr>fd_offset := cursor + nbyte\<rparr>]\<rparr>)"
    "current d = Some nm" "img d nm = Some B'" "length bm = 1024" "inode_ok n'"
    "file_size n' = (if cursor + nbyte > unat (file_size n) then of_nat (cursor + nbyte) else file_size n)"
    "pinv bm X (ptrs B' n')" "fview B' n' = wview cursor (take nbyte buf) (fview B n)" "\<forall>x \<in> X. B' x = B x"
    using fs_write_view [OF m t _ _ _ _ i(1) n _ _ _ _ buf, of fd cursor X] o' w' by (auto simp: c_consts)
  have "cursor + nbyte < 2 ^ 32" using w' by (simp add: c_consts)
  then have "unat (of_nat (cursor + nbyte) :: u32) = cursor + nbyte"
    by (simp only: unat_of_nat) simp
  then have fsz: "unat (file_size n') = cursor + nbyte" using r(6) sz by (simp split: if_splits)
  have "cursor mod BLOCK_SIZE \<noteq> 0 \<longrightarrow> (\<exists>bs. fview B n (cursor div BLOCK_SIZE) = Some bs \<and> length bs = BLOCK_SIZE)"
  proof
    assume "cursor mod BLOCK_SIZE \<noteq> 0"
    then have "direct_block n ! (cursor div BLOCK_SIZE) \<noteq> 0" "cursor div BLOCK_SIZE < NUM_DIRECT_BLOCKS"
      using w' by (auto simp: c_consts)
    moreover have "length (direct_block n) = NUM_DIRECT_BLOCKS"
      using fs_typedD(6) [OF t i(1)] n by (simp add: inode_ok_def)
    ultimately show "\<exists>bs. fview B n (cursor div BLOCK_SIZE) = Some bs \<and> length bs = BLOCK_SIZE"
      using mounted_block [OF m] by (simp add: fview_def pdata_def)
  qed
  from content_write [OF r(8) this] fsz sz(1) buf
  have "content B' n' = take cursor (content B n) @ take nbyte buf" by simp
  moreover have "backed B' n' (cursor + nbyte)" using backed_write [OF r(8) old r(4,7)] buf by simp
  moreover have "fs_typed (s\<lparr>blocks_bitmap := bm, disk := d, inode_table := (inode_table s)[i := n'],
        fd_table := (fd_table s)[nat fd := (fd_table s ! nat fd)\<lparr>fd_offset := cursor + nbyte\<rparr>]\<rparr>)"
    using t r(4,5) Ball_set_update [of "inode_table s" inode_ok n' i] by (simp add: fs_typed_def)
  ultimately show ?thesis
    using r fsz i o' by (intro exI [of _ "s\<lparr>blocks_bitmap := bm, disk := d, inode_table := (inode_table s)[i := n'],
        fd_table := (fd_table s)[nat fd := (fd_table s ! nat fd)\<lparr>fd_offset := cursor + nbyte\<rparr>]\<rparr>"]
        exI [of _ B']) (simp add: mounted_on_def open_file_def)
qed

lemma fs_read_file:
  assumes m: "mounted_on current img s nm B" and t: "fs_typed s" and o: "open_file s fd i cursor"
    and n: "n = inode_table s ! i" and c: "cursor < NUM_DIRECT_BLOCKS * BLOCK_SIZE"
    and sz: "cursor + nbyte \<le> unat (file_size n)" and max: "unat (file_size n) \<le> MAX_FILE_SIZE"
    and bk: "backed B n (cursor + nbyte)" and buf: "nbyte \<le> length buf"
  shows "fs_read D fd buf nbyte s = Some (int nbyte, overlay 0 (take nbyte (drop cursor (content B n))) buf,
    s\<lparr>fd_table := (fd_table s)[nat fd := (fd_table s ! nat fd)\<lparr>fd_offset := cursor + nbyte\<rparr>]\<rparr>)"
  by (rule fs_read_content [OF m t _ _ _ _ _ _ c sz max bk buf])
    (use o n in \<open>simp_all add: open_file_def c_consts\<close>)

text \<open>A read and a write whose offset lies behind the direct blocks.\<close>

lemma beyond_direct_read:
  assumes m: "mounted_on current img s nm B" and t: "fs_typed s" and o: "open_file s fd i cursor"
    and c: "NUM_DIRECT_BLOCKS * BLOCK_SIZE \<le> cursor" "nbyte \<le> cursor div BLOCK_SIZE * BLOCK_SIZE" "cursor < 2 ^ 31"
    and n: "unat (single_indirect_block (inode_table s ! i)) < DISK_BLOCKS"
  shows "fs_read D fd buf nbyte s = Some (0, buf, s)"
proof -
  note f = open_fileD [OF t o]
  define nb where "nb = min nbyte MAX_FILE_SIZE"
  define st where "st = cursor div BLOCK_SIZE"
  have st: "NUM_DIRECT_BLOCKS \<le> st" using c(1) unfolding st_def by (simp add: less_eq_div_iff_mult_less_eq BLOCK_SIZE_def)
  have nb: "nb < 2 ^ 64" "ceil_blocks nb \<le> st" using c(2) by (auto simp: nb_def c_consts ceil_blocks_le_iff st_def)
  have "ceil_blocks nb mod 2 ^ 16 \<le> st" using nb(2) mod_less_eq_dividend order_trans by blast
  then have "read_indirect D s (inode_table s ! i) ps cursor nb (ceil_blocks nb mod 2 ^ 16) st True 0 buf = Some (Inr (0, buf))" for ps
    by (subst read_indirect.simps) simp
  then have "read_rest D s (inode_table s ! i) cursor nb True 0 buf = Some (Inr (0, buf))"
    using nb(1) st dev_read_mounted [OF m n] mounted_block [OF m]
    by (simp add: read_rest_def usub_le mem_read_in st_def [symmetric] Let_def)
  then have "read_body D fd (inode_table s ! i) cursor nb buf s = Some (0, buf, s)"
    using st f(8) c(3) by (auto simp: read_body_def st_def [symmetric] to_int_in)
  then show ?thesis using f by (auto simp: fs_read_def nth_opt_in nb_def min_def c_consts split: if_splits)
qed

lemma beyond_direct_write:
  assumes m: "mounted_on current img s nm B" and t: "fs_typed s" and o: "open_file s fd i cursor"
    and c: "NUM_DIRECT_BLOCKS * BLOCK_SIZE \<le> cursor" "nbyte \<le> cursor div BLOCK_SIZE * BLOCK_SIZE"
      "cursor + nbyte \<le> MAX_FILE_SIZE" "0 < nbyte" "cursor \<le> unat (file_size (inode_table s ! i))"
    and n: "unat (single_indirect_block (inode_table s ! i)) < DISK_BLOCKS" "single_indirect_block (inode_table s ! i) \<noteq> 0"
  shows "\<exists>d. fs_write D fd buf nbyte s = Some (0, s\<lparr>disk := d\<rparr>) \<and> mounted_on current img (s\<lparr>disk := d\<rparr>) nm B"
proof -
  note f = open_fileD [OF t o]
  define st where "st = cursor div BLOCK_SIZE"
  define sib where "sib = single_indirect_block (inode_table s ! i)"
  have st: "NUM_DIRECT_BLOCKS \<le> st" using c(1) unfolding st_def by (simp add: less_eq_div_iff_mult_less_eq BLOCK_SIZE_def)
  have lt: "nbyte < 2 ^ 64" "cursor + nbyte < 2 ^ 64" "cursor < 2 ^ 31" using c(3) by (simp_all add: c_consts)
  have "ceil_blocks nbyte \<le> st" using c(2) by (simp add: ceil_blocks_le_iff st_def)
  then have bn: "\<not> st < ceil_blocks nbyte mod 2 ^ 16" using mod_less_eq_dividend order_trans not_less by blast
  have e: "enc16s (dec16s 2048 (B (unat sib))) = B (unat sib)"
    using mounted_block [OF m] by (intro enc16s_dec16s) (simp add: BLOCK_SIZE_def)
  obtain d where d: "dev_write D sib (B (unat sib)) s = (0, s\<lparr>disk := d\<rparr>)" "mounted_on current img (s\<lparr>disk := d\<rparr>) nm B"
    using dev_write_mounted [OF m n(1) mounted_block [OF m, of "unat sib"]] by (auto simp: sib_def)
  have w1: "write_direct D fd i cursor nbyte buf True 0 st s = Some (Inr (True, 0), s)"
    using st by (subst write_direct.simps) simp
  have w2: "write_indirect D fd i cursor nbyte buf (ceil_blocks nbyte mod 2 ^ 16) st True 0 ps s = Some (Inr (0, ps), s)" for ps
    using bn by (subst write_indirect.simps) simp
  have "indirect_for_write D fd i cursor 0 s = Some (Inr (dec16s 2048 (B (unat sib)), st, sib), s)"
    using f(4) n dev_read_mounted [OF m n(1)] mounted_block [OF m]
    by (simp add: indirect_for_write_def nth_opt_in mem_read_in st_def sib_def)
  then have "write_rest D fd i cursor nbyte buf True 0 s = Some (Inr 0, s\<lparr>disk := d\<rparr>)"
    using lt(1) c(4) d(1) w2 by (simp add: write_rest_def usub_le e)
  then have "write_body D fd i cursor nbyte buf s = Some (0, s\<lparr>disk := d\<rparr>)"
    using w1 f lt(3) c(5) by (auto simp: write_body_def write_done_def st_def nth_opt_in to_int_in)
  then show ?thesis using d(2) f lt c(3) by (intro exI [of _ d]) (simp add: fs_write_def nth_opt_in Let_def c_consts)
qed

text \<open>
  A write from inside a block behind the direct blocks that needs one block more than the number of
  the block it starts in, when the indirect block has no entry at that number.
\<close>

lemma far_write_first:
  fixes cursor nbyte :: nat
  assumes m: "mounted_on current img s nm B" and c: "BLOCK_SIZE \<le> nbyte" "nbyte \<le> length buf"
  defines "k \<equiv> BLOCK_SIZE - cursor mod BLOCK_SIZE"
  shows "\<exists>d. write_first D 0 cursor nbyte buf s = (Some (Inr k), s\<lparr>disk := d\<rparr>) \<and>
    mounted_on current img (s\<lparr>disk := d\<rparr>) nm (B(0 := take (cursor mod BLOCK_SIZE) (B 0) @ take k buf))"
proof -
  have r: "dev_read D 0 s = (0, B 0)" using dev_read_mounted [OF m, of 0] by (simp add: DISK_BLOCKS_def)
  have l: "length (B 0) = BLOCK_SIZE" by (rule mounted_block [OF m])
  have k: "k \<le> BLOCK_SIZE" "cursor mod BLOCK_SIZE + k = BLOCK_SIZE" by (simp_all add: k_def BLOCK_SIZE_def)
  with c have kb: "k \<le> length buf" by linarith
  then have o: "overlay (cursor mod BLOCK_SIZE) (take k buf) (B 0) = take (cursor mod BLOCK_SIZE) (B 0) @ take k buf"
    using k l by (simp add: overlay_def min_def)
  have "length (overlay (cursor mod BLOCK_SIZE) (take k buf) (B 0)) = BLOCK_SIZE" using k kb l by simp
  from dev_write_mounted [OF m _ this, of 0] obtain d where
    d: "dev_write D 0 (overlay (cursor mod BLOCK_SIZE) (take k buf) (B 0)) s = (0, s\<lparr>disk := d\<rparr>)"
    "mounted_on current img (s\<lparr>disk := d\<rparr>) nm (B(0 := overlay (cursor mod BLOCK_SIZE) (take k buf) (B 0)))"
    by (auto simp: DISK_BLOCKS_def)
  have w: "(if nbyte > BLOCK_SIZE - cursor mod BLOCK_SIZE then BLOCK_SIZE - cursor mod BLOCK_SIZE else nbyte) = k"
    using c(1) unfolding k_def by auto
  have "write_first D 0 cursor nbyte buf s = (Some (Inr k), s\<lparr>disk := d\<rparr>)"
    using r k kb l d(1) unfolding write_first_def w Let_def by (simp add: mem_read_in mem_write_in)
  with d(2) o show ?thesis by auto
qed

lemma far_write:
  fixes cursor nbyte :: nat
  assumes m: "mounted_on current img s nm B" and t: "fs_typed s" and o: "open_file s fd i cursor"
    and c: "NUM_DIRECT_BLOCKS * BLOCK_SIZE < cursor" "cursor mod BLOCK_SIZE \<noteq> 0" "cursor + nbyte \<le> MAX_FILE_SIZE"
      "cursor div BLOCK_SIZE * BLOCK_SIZE < nbyte" "nbyte \<le> Suc (cursor div BLOCK_SIZE) * BLOCK_SIZE" "nbyte \<le> length buf"
    and n: "unat (single_indirect_block (inode_table s ! i)) < DISK_BLOCKS" "single_indirect_block (inode_table s ! i) \<noteq> 0"
      "dec16s 2048 (B (unat (single_indirect_block (inode_table s ! i)))) ! (cursor div BLOCK_SIZE) = 0"
  defines "k \<equiv> BLOCK_SIZE - cursor mod BLOCK_SIZE"
  shows "\<exists>s'. fs_write D fd buf nbyte s = Some (int k, s') \<and>
    mounted_on current img s' nm (B(0 := take (cursor mod BLOCK_SIZE) (B 0) @ take k buf))"
proof -
  note f = open_fileD [OF t o]
  define st where "st = cursor div BLOCK_SIZE"
  define sib where "sib = single_indirect_block (inode_table s ! i)"
  define B' where "B' = B(0 := take (cursor mod BLOCK_SIZE) (B 0) @ take k buf)"
  have st: "NUM_DIRECT_BLOCKS \<le> st" "st < 2048"
    using c(1,3) unfolding st_def by (simp_all add: c_consts)
  have lt: "nbyte < 2 ^ 64" "cursor + nbyte < 2 ^ 64" "0 < nbyte" "BLOCK_SIZE \<le> nbyte" "cursor + k < 2 ^ 31" "0 < k"
    using c(1,3,4) by (simp_all add: c_consts k_def)
  have "ceil_blocks nbyte = Suc st" using c(4,5) unfolding st_def by (rule ceil_blocks_eq)
  then have bn: "ceil_blocks nbyte mod 2 ^ 16 = Suc st" using st(2) by simp
  let ?ps = "dec16s 2048 (B (unat sib))"
  have p0: "nth_opt ?ps st = Some 0" using n(3) st(2) by (simp add: nth_opt_in st_def sib_def)
  obtain d where d: "write_first D 0 cursor nbyte buf s = (Some (Inr k), s\<lparr>disk := d\<rparr>)"
    "mounted_on current img (s\<lparr>disk := d\<rparr>) nm B'"
    using far_write_first [OF m lt(4) c(6), of cursor] unfolding k_def B'_def by blast
  have sib: "unat sib < DISK_BLOCKS" "unat sib \<noteq> 0" "sib \<noteq> 0" using n(1,2) by (simp_all add: sib_def unat_eq_0)
  then have e: "enc16s ?ps = B' (unat sib)"
    using mounted_block [OF m] by (subst enc16s_dec16s) (simp_all add: BLOCK_SIZE_def B'_def)
  obtain d' where d': "dev_write D sib (B' (unat sib)) (s\<lparr>disk := d\<rparr>) = (0, s\<lparr>disk := d'\<rparr>)"
    "mounted_on current img (s\<lparr>disk := d'\<rparr>) nm B'"
    using dev_write_mounted [OF d(2) sib(1) mounted_block [OF d(2), of "unat sib"]] by auto
  have w1: "write_direct D fd i cursor nbyte buf True 0 st s = Some (Inr (True, 0), s)"
    using st by (subst write_direct.simps) simp
  have "write_indirect D fd i cursor nbyte buf (Suc st) (Suc st) False k ?ps (s\<lparr>disk := d\<rparr>)
      = Some (Inr (k, ?ps), s\<lparr>disk := d\<rparr>)"
    by (subst write_indirect.simps) simp
  then have w2: "write_indirect D fd i cursor nbyte buf (Suc st) st True 0 ?ps s = Some (Inr (k, ?ps), s\<lparr>disk := d\<rparr>)"
    using p0 d(1) c(2) by (subst write_indirect.simps) simp
  have "indirect_for_write D fd i cursor 0 s = Some (Inr (?ps, st, sib), s)"
    using f(4) sib dev_read_mounted [OF m sib(1)] mounted_block [OF m]
    by (simp add: indirect_for_write_def nth_opt_in mem_read_in st_def sib_def [symmetric])
  then have "write_rest D fd i cursor nbyte buf True 0 s = Some (Inr k, s\<lparr>disk := d'\<rparr>)"
    using lt(1,3) d'(1) w2 bn by (simp add: write_rest_def usub_le e)
  then obtain tab fds where "write_body D fd i cursor nbyte buf s
      = Some (int k, s\<lparr>disk := d', inode_table := tab, fd_table := fds\<rparr>)"
    using w1 f(3,4) lt(5) by (simp add: write_body_def write_done_def st_def nth_opt_in to_int_in)
  moreover have "mounted_on current img (s\<lparr>disk := d', inode_table := tab, fd_table := fds\<rparr>) nm B'"
    using d'(2) by (simp add: mounted_on_def)
  ultimately show ?thesis using f lt c(3) unfolding B'_def by (auto simp: fs_write_def nth_opt_in Let_def c_consts)
qed

end


section \<open>Truncation\<close>

lemma truncate_direct_spec:
  assumes "length ds = NUM_DIRECT_BLOCKS" and "m \<le> NUM_DIRECT_BLOCKS" and "\<forall>k < m. ds ! k \<noteq> 0"
    and "\<forall>k. m \<le> k \<and> k < NUM_DIRECT_BLOCKS \<longrightarrow> ds ! k = 0" and "\<forall>b \<in> set ds. unat b < 8 * length bm"
    and "i \<le> m"
  shows "\<exists>bm'. truncate_direct ds i bm = Some (m, bm') \<and> length bm' = length bm \<and>
    bitset bm' = bitset bm - {unat (ds ! k) | k. i \<le> k \<and> k < m}"
  using assms(5,6)
proof (induction "m - i" arbitrary: i bm)
  case 0
  then have "i = m" by simp
  moreover have "truncate_direct ds m bm = Some (m, bm)"
    using assms(1,2,4) by (subst truncate_direct.simps) (auto simp: nth_opt_in)
  ultimately show ?case by auto
next
  case (Suc x)
  then have i: "i < m" "i < NUM_DIRECT_BLOCKS" "ds ! i \<noteq> 0" using assms(2,3) by auto
  with Suc.prems(1) assms(1) obtain bm1 where b: "clear_bit (ds ! i) bm = Some bm1" "length bm1 = length bm"
    "bitset bm1 = bitset bm - {unat (ds ! i)}" using clear_bit_in [of "ds ! i" bm] by auto
  have "x = m - Suc i" using Suc.hyps(2) by simp
  from Suc.hyps(1) [OF this, of bm1] Suc.prems(1) b(2) i(1) obtain bm' where
    ih: "truncate_direct ds (Suc i) bm1 = Some (m, bm')" "length bm' = length bm"
      "bitset bm' = bitset bm1 - {unat (ds ! k) | k. Suc i \<le> k \<and> k < m}" by auto
  have "truncate_direct ds i bm = truncate_direct ds (Suc i) bm1"
    using i b(1) assms(1) by (subst truncate_direct.simps) (simp add: nth_opt_in)
  moreover have "{unat (ds ! k) | k. i \<le> k \<and> k < m} = insert (unat (ds ! i)) {unat (ds ! k) | k. Suc i \<le> k \<and> k < m}"
    using i(1) by (auto simp: Suc_le_eq le_less)
  ultimately show ?case using ih b(3) by auto
qed

lemma content_shrink:
  assumes "len \<le> unat (file_size n)"
  shows "content B (n\<lparr>file_size := of_nat len\<rparr>) = take len (content B n)"
proof -
  have lt: "len < 2 ^ 32" using assms unsigned_less [of "file_size n", where 'a = nat] by simp
  then have "unat (of_nat len :: u32) = len" by (simp only: unat_of_nat) simp
  moreover have "fbyte B (n\<lparr>file_size := of_nat len\<rparr>) = fbyte B n" by (simp add: fbyte_def fun_eq_iff)
  ultimately show ?thesis using assms by (simp add: content_def fbytes_def take_map)
qed

text \<open>The file is in direct blocks only, \<open>m\<close> of them.\<close>

lemma fs_truncate_file:
  assumes t: "fs_typed s" and o: "open_file s fd i cursor" and n: "n = inode_table s ! i"
    and len: "len < unat (file_size n)" and ind: "single_indirect_block n = 0"
    and m: "m \<le> NUM_DIRECT_BLOCKS" "ceil_blocks len \<le> m" "\<forall>k < m. direct_block n ! k \<noteq> 0"
      "\<forall>k. m \<le> k \<and> k < NUM_DIRECT_BLOCKS \<longrightarrow> direct_block n ! k = 0"
    and ok: "\<forall>b \<in> set (direct_block n). unat b < DISK_BLOCKS"
  shows "\<exists>s' bm. fs_truncate D fd (int len) s = Some (0, s') \<and> disk s' = disk s
    \<and> inode_table s' ! i = n\<lparr>file_size := of_nat len\<rparr> \<and> (\<forall>j. j \<noteq> i \<longrightarrow> inode_table s' ! j = inode_table s ! j)
    \<and> blocks_bitmap s' = bm \<and> length bm = 1024
    \<and> bitset bm = bitset (blocks_bitmap s) - {unat (direct_block n ! k) | k. ceil_blocks len \<le> k \<and> k < m}
    \<and> open_file s' fd i (min cursor len)"
proof -
  note f = open_fileD [OF t o]
  have ld: "length (direct_block n) = NUM_DIRECT_BLOCKS"
    using fs_typedD(6) [OF t f(5)] n by (simp add: inode_ok_def)
  have sm: "ceil_blocks len mod 2 ^ 16 = ceil_blocks len" using m(1,2) by (simp add: c_consts)
  obtain bm where bm: "truncate_direct (direct_block n) (ceil_blocks len) (blocks_bitmap s) = Some (m, bm)"
    "length bm = 1024"
    "bitset bm = bitset (blocks_bitmap s) - {unat (direct_block n ! k) | k. ceil_blocks len \<le> k \<and> k < m}"
    using truncate_direct_spec [OF ld m(1,3,4) _ m(2), of "blocks_bitmap s"] ok fs_typedD(4) [OF t]
    by (auto simp: DISK_BLOCKS_def)
  have tb: "truncate_blocks D n len s = Some (True, s\<lparr>blocks_bitmap := bm\<rparr>)"
    using bm(1) sm ind by (simp add: truncate_blocks_def)
  have le: "\<not> int len > int (unat (file_size n))" "int len \<noteq> int (unat (file_size n))"
    using len by linarith+
  let ?fd = "if int cursor > int len then (fd_table s)[nat fd := (fd_table s ! nat fd)\<lparr>fd_offset := len\<rparr>] else fd_table s"
  let ?s = "s\<lparr>blocks_bitmap := bm, inode_table := (inode_table s)[i := n\<lparr>file_size := of_nat len\<rparr>], fd_table := ?fd\<rparr>"
  have "fs_truncate D fd (int len) s = Some (0, ?s)"
    using f n tb le by (simp add: fs_truncate_def nth_opt_in MAX_NUM_FD_def)
  then show ?thesis
    using f bm by (intro exI [of _ ?s]) (auto simp: open_file_def c_consts min_def)
qed


section \<open>Listing\<close>

lemma used_iff_named:
  assumes "dir_wf s" and "e \<in> set (dir_table s)"
  shows "de_is_used e \<noteq> 0 \<longleftrightarrow> cstr (de_name e) \<noteq> []"
proof -
  from assms(2) obtain i where i: "i < 64" "e = dir_table s ! i"
    using fs_typedD(3) [OF dir_wf_typed [OF assms(1)]] by (auto simp: in_set_conv_nth)
  then show ?thesis
    using dir_wf_slot [OF assms(1) i(1)] by (auto simp: slot_wf_def Let_def split: if_splits)
qed

lemma fs_listfiles_names:
  assumes "dir_wf s"
  shows "fs_listfiles s = (if {..<64} \<subseteq> bitset (inodes_bitmap s) then None
      else Some (0, filter (\<lambda>nm. nm \<noteq> []) (map (\<lambda>e. cstr (de_name e)) (dir_table s))))"
proof -
  note l = fs_typedD(3) [OF dir_wf_typed [OF assms]]
  have f: "filter (\<lambda>e. de_is_used e \<noteq> 0) (dir_table s) = filter (\<lambda>e. cstr (de_name e) \<noteq> []) (dir_table s)"
    by (rule filter_cong) (use used_iff_named [OF assms] in auto)
  have "length (filter (\<lambda>e. de_is_used e \<noteq> 0) (dir_table s)) < 64 \<longleftrightarrow> \<not> {..<64} \<subseteq> bitset (inodes_bitmap s)"
  proof (cases "{..<64} \<subseteq> bitset (inodes_bitmap s)")
    case True
    then have "filter (\<lambda>e. de_is_used e \<noteq> 0) (dir_table s) = dir_table s"
      using dir_wf_used [OF assms] l by (fastforce simp: filter_id_conv in_set_conv_nth)
    with True l show ?thesis by simp
  next
    case False
    then obtain i where "i < 64" "i \<notin> bitset (inodes_bitmap s)" by auto
    then have "dir_table s ! i \<in> set (dir_table s)" "\<not> de_is_used (dir_table s ! i) \<noteq> 0"
      using dir_wf_used [OF assms] l by auto
    with length_filter_less [of _ _ "\<lambda>e. de_is_used e \<noteq> 0"] False l show ?thesis by fastforce
  qed
  then show ?thesis by (simp add: fs_listfiles_def MAX_NUM_FILES_def f filter_map comp_def)
qed

lemma names_distinct:
  assumes "dir_wf s"
  shows "distinct (filter (\<lambda>nm. nm \<noteq> []) (map (\<lambda>e. cstr (de_name e)) (dir_table s)))"
    and "set (filter (\<lambda>nm. nm \<noteq> []) (map (\<lambda>e. cstr (de_name e)) (dir_table s))) = dom (dir_map s)"
proof -
  note l = fs_typedD(3) [OF dir_wf_typed [OF assms]]
  have u: "i \<in> bitset (inodes_bitmap s) \<longleftrightarrow> cstr (de_name (dir_table s ! i)) \<noteq> []" if "i < 64" for i
    using dir_wf_used [OF assms that] used_iff_named [OF assms, of "dir_table s ! i"] that l by simp
  show "distinct (filter (\<lambda>nm. nm \<noteq> []) (map (\<lambda>e. cstr (de_name e)) (dir_table s)))"
    unfolding distinct_filter_iff using dir_wf_inj [OF assms] u l by auto
  show "set (filter (\<lambda>nm. nm \<noteq> []) (map (\<lambda>e. cstr (de_name e)) (dir_table s))) = dom (dir_map s)"
  proof (intro set_eqI)
    fix nm
    have "nm \<in> dom (dir_map s) \<longleftrightarrow> (\<exists>i < 64. cstr (de_name (dir_table s ! i)) \<noteq> [] \<and> cstr (de_name (dir_table s ! i)) = nm)"
      using dir_map_Some [OF assms] u by (simp add: domIff) blast
    then show "nm \<in> set (filter (\<lambda>nm. nm \<noteq> []) (map (\<lambda>e. cstr (de_name e)) (dir_table s))) \<longleftrightarrow> nm \<in> dom (dir_map s)"
      using l by (auto simp: in_set_conv_nth image_iff) (metis nth_mem)
  qed
qed

end
