(* ===== verification/Fs_Example.thy ===== *)
theory Fs_Example
  imports Fs_Files
begin

text \<open>
  A concrete file system on the memory disk: formatted, mounted, with one empty file called
  \<^verbatim>\<open>a\<close> open as descriptor 0. The facts below are what the witnesses of the general theorems need.
\<close>

definition ex_bm :: "u8 list" where
  "ex_bm = 31 # replicate 1023 0"

definition ex_disk :: ram where
  "ex_disk = \<lparr>ram_files = [''d'' \<mapsto> (\<lambda>_. zero_block)], ram_open = Some ''d''\<rparr>"

definition ex_fresh :: "ram fs" where
  "ex_fresh = fresh_fs ex_bm ex_disk"

definition ex_fs :: "ram fs" where
  "ex_fs = ex_fresh\<lparr>fd_table := (fd_table ex_fresh)[0 := \<lparr>fd_is_used = True, fd_inode_number = 0, fd_offset = 0\<rparr>],
     dir_table := (dir_table ex_fresh)[0 := new_dentry [97] 0], inodes_bitmap := 1 # replicate 7 0\<rparr>"

abbreviation ex_blocks :: "nat \<Rightarrow> u8 list" where
  "ex_blocks \<equiv> \<lambda>_. zero_block"

lemma bitset_Cons_zeros: "bitset (c # replicate n 0) = {i. i < 8 \<and> bit c i}"
proof -
  have "bit ((c # replicate n 0) ! (i div 8)) (i mod 8) \<longleftrightarrow> i < 8 \<and> bit c i" if "i < 8 * Suc n" for i
    using div8_less [OF that] by (cases "i div 8") (auto simp: div_eq_0_iff)
  then show ?thesis by (auto simp: bitset_def)
qed

lemma bitset_mask: "k \<le> 8 \<Longrightarrow> bitset (mask k # replicate n 0) = {..<k}"
  unfolding bitset_Cons_zeros by (auto simp: bit_mask_iff possible_bit_def)

lemma bitset_ex_bm: "bitset ex_bm = {..<5}"
  using bitset_mask [of 5 1023] by (simp add: ex_bm_def mask_eq_exp_minus_1)

lemma bitset_ex_ib: "bitset (1 # replicate 7 0) = {0}"
  using bitset_mask [of 1 7] by (simp add: mask_eq_exp_minus_1 lessThan_Suc)

lemma nfree_ex_bm: "nfree ex_bm = 8187"
proof -
  have "{..<DISK_BLOCKS} - bitset ex_bm = {5..<8192}" by (auto simp: bitset_ex_bm DISK_BLOCKS_def)
  then show ?thesis by (simp add: nfree_def)
qed

lemma length_ex_bm: "length ex_bm = 1024"
  by (simp add: ex_bm_def)

lemma ex_fresh_simps:
  "blocks_bitmap ex_fresh = ex_bm" "disk ex_fresh = ex_disk" "sb ex_fresh = new_superblock"
  "fd_table ex_fresh = replicate MAX_NUM_FD empty_fd" "inodes_bitmap ex_fresh = replicate 8 0"
  by (simp_all add: ex_fresh_def fresh_fs_def)

lemma ex_fresh_inv: "fs_inv ex_fresh"
  unfolding ex_fresh_def by (rule fs_inv_fresh [OF length_ex_bm])

lemma ex_fs_mounted: "mounted_on ram_open ram_image ex_fs ''d'' ex_blocks"
  by (simp add: mounted_on_def ex_fs_def ex_fresh_simps ex_disk_def ram_image_def)

lemma ex_fs_dir_wf: "dir_wf ex_fs" and ex_fs_dir_map: "dir_map ex_fs = [[97] \<mapsto> 0]"
proof -
  let ?s = "ex_fresh\<lparr>dir_table := (dir_table ex_fresh)[0 := new_dentry [97] (of_nat 0)], inodes_bitmap := 1 # replicate 7 0\<rparr>"
  have n: "dir_map ex_fresh = Map.empty" unfolding ex_fresh_def by (rule dir_map_fresh [OF length_ex_bm])
  have a: "dir_wf ?s" "dir_map ?s = (dir_map ex_fresh)([97] \<mapsto> 0)"
    by (rule dir_wf_add; use ex_fresh_inv n bitset_ex_ib in \<open>simp add: ex_fresh_simps fs_inv_def\<close>)+
  then show "dir_wf ex_fs" "dir_map ex_fs = [[97] \<mapsto> 0]"
    using dir_wf_cong [of ex_fs ?s] n by (simp_all add: ex_fs_def ex_fresh_simps)
qed

lemma ex_fs_typed: "fs_typed ex_fs"
  by (rule dir_wf_typed [OF ex_fs_dir_wf])

lemma ex_fs_open: "open_file ex_fs 0 0 0"
  by (simp add: open_file_def ex_fs_def ex_fresh_simps c_consts)

lemma ex_fs_simps:
  "inode_table ex_fs ! 0 = empty_inode 0" "inode_table ex_fs ! Suc 0 = empty_inode (Suc 0)"
  "blocks_bitmap ex_fs = ex_bm"
  by (simp_all add: ex_fs_def ex_fresh_def fresh_fs_def c_consts)

lemma ex_fs_inv: "fs_inv ex_fs"
proof -
  have "f = \<lparr>fd_is_used = True, fd_inode_number = 0, fd_offset = 0\<rparr> \<or> f = empty_fd"
    if "f \<in> set (fd_table ex_fs)" for f
    using that by (auto simp: ex_fs_def ex_fresh_simps dest!: subsetD [OF set_update_subset_insert])
  moreover have "inodes_bitmap ex_fs = 1 # replicate 7 0" by (simp add: ex_fs_def)
  ultimately have "fd_wf ex_fs"
    using bitset_ex_ib by (fastforce simp: fd_wf_def empty_fd_def MAX_NUM_FILES_def)
  with ex_fs_dir_wf show ?thesis by (simp add: fs_inv_def)
qed

lemma empty_inode_simps [simp]:
  "file_size (empty_inode i) = 0" "single_indirect_block (empty_inode i) = 0"
  "direct_block (empty_inode i) = replicate NUM_DIRECT_BLOCKS 0" "inode_number (empty_inode i) = of_nat i"
  "indirect_entries B (empty_inode i) = []"
  by (simp_all add: empty_inode_def indirect_entries_def)

lemma ex_pinv: "pinv ex_bm {..<5} (ptrs B (empty_inode i))"
  by (auto simp: pinv_def ptrs_def bitset_ex_bm)

lemma ex_blocks_of: "blocks_of (ptrs B (empty_inode i)) = {}"
  by (auto simp: ptrs_def blocks_of_def)

lemma ex_write_ok: "write_ok ex_bm {..<5} B (empty_inode i) 0 3"
  using ex_pinv [of B i] nfree_ex_bm by (simp add: write_ok_def ceil_blocks_def c_consts)

lemma ex_backed: "backed B (empty_inode i) 0"
  by (simp add: backed_def c_consts)

lemma ex_content: "content B (empty_inode i) = []"
  by (simp add: content_def)


lemma ex_fs_room: "\<not> {..<64} \<subseteq> bitset (inodes_bitmap ex_fs)"
proof
  assume "{..<64} \<subseteq> bitset (inodes_bitmap ex_fs)"
  then have "1 \<in> bitset (inodes_bitmap ex_fs)" by auto
  then show False using bitset_ex_ib by (simp add: ex_fs_def)
qed

text \<open>The same file system with no descriptor open, and with a file of ten bytes in block 5.\<close>

definition ex_closed :: "ram fs" where
  "ex_closed = ex_fs\<lparr>fd_table := replicate MAX_NUM_FD empty_fd\<rparr>"

definition ex_node :: inode where
  "ex_node = (empty_inode 0)\<lparr>file_size := 10, direct_block := 5 # replicate 24 0\<rparr>"

definition ex_ten :: "ram fs" where
  "ex_ten = ex_fs\<lparr>inode_table := (inode_table ex_fs)[0 := ex_node]\<rparr>"

lemma ex_closed_dir: "dir_wf ex_closed" "dir_map ex_closed = [[97] \<mapsto> 0]"
  using dir_wf_cong [of ex_closed ex_fs] ex_fs_dir_wf ex_fs_dir_map fs_typedD(1) [OF ex_fs_typed]
  by (simp_all add: ex_closed_def MAX_NUM_FD_def)

lemma ex_closed_mounted: "mounted_on ram_open ram_image ex_closed ''d'' ex_blocks"
  using ex_fs_mounted by (simp add: mounted_on_def ex_closed_def)

lemma ex_ten_typed: "fs_typed ex_ten"
  using ex_fs_typed Ball_set_update [of "inode_table ex_fs" inode_ok ex_node 0]
  by (simp add: fs_typed_def ex_ten_def ex_node_def inode_ok_def NUM_DIRECT_BLOCKS_def)

lemma ex_ten_inode: "inode_table ex_ten ! 0 = ex_node"
  using fs_typedD(2) [OF ex_fs_typed] by (simp add: ex_ten_def)

lemma ex_ten_open: "open_file ex_ten 0 0 0"
  using ex_fs_open by (simp add: ex_ten_def open_file_def)

text \<open>A file of the ten bytes 11 to 20, open at offset 2.\<close>

definition ex_block5 :: "nat \<Rightarrow> u8 list" where
  "ex_block5 = ex_blocks(5 := [11, 12, 13, 14, 15, 16, 17, 18, 19, 20] @ replicate 4086 0)"

definition ex_text :: "ram fs" where
  "ex_text = ex_ten\<lparr>disk := \<lparr>ram_files = [''d'' \<mapsto> ex_block5], ram_open = Some ''d''\<rparr>,
     fd_table := (fd_table ex_ten)[0 := \<lparr>fd_is_used = True, fd_inode_number = 0, fd_offset = 2\<rparr>]\<rparr>"

lemma ex_text_simps:
  "fs_typed ex_text" "open_file ex_text 0 0 2" "inode_table ex_text ! 0 = ex_node"
  "mounted_on ram_open ram_image ex_text ''d'' ex_block5"
proof -
  show "mounted_on ram_open ram_image ex_text ''d'' ex_block5"
    by (auto simp: mounted_on_def ex_text_def ram_image_def ex_block5_def BLOCK_SIZE_def intro!: ext)
qed (use ex_ten_typed ex_ten_inode fs_typedD(1) [OF ex_ten_typed] in
  \<open>simp_all add: ex_text_def fs_typed_def open_file_def c_consts\<close>)

lemma ex_text_content: "content ex_block5 ex_node = [11, 12, 13, 14, 15, 16, 17, 18, 19, 20]"
  by (simp add: content_def fbytes_def fbyte_def fview_def pdata_def ex_node_def ex_block5_def
      c_consts upt_rec)

lemma ex_text_backed: "backed ex_block5 ex_node 5"
proof -
  have "fview ex_block5 ex_node k \<noteq> None" if "k * BLOCK_SIZE < 5" for k
  proof -
    have "k = 0" using that by (simp add: BLOCK_SIZE_def)
    then show ?thesis by (simp add: fview_def pdata_def ex_node_def NUM_DIRECT_BLOCKS_def)
  qed
  then show ?thesis
    by (auto simp: backed_def ex_node_def indirect_entries_def DISK_BLOCKS_def)
qed

text \<open>A file of 102500 bytes, open behind its direct blocks.\<close>

definition ex_far :: "ram fs" where
  "ex_far = ex_fs\<lparr>inode_table := (inode_table ex_fs)[0 := (empty_inode 0)\<lparr>file_size := 102500, single_indirect_block := 6\<rparr>],
     fd_table := (fd_table ex_fs)[0 := \<lparr>fd_is_used = True, fd_inode_number = 0, fd_offset = 102400\<rparr>]\<rparr>"

lemma ex_far_simps:
  "mounted_on ram_open ram_image ex_far ''d'' ex_blocks" "fs_typed ex_far" "open_file ex_far 0 0 102400"
  "inode_table ex_far ! 0 = (empty_inode 0)\<lparr>file_size := 102500, single_indirect_block := 6\<rparr>"
  using ex_fs_mounted ex_fs_typed fs_typedD(1,2) [OF ex_fs_typed]
    Ball_set_update [of "inode_table ex_fs" inode_ok "(empty_inode 0)\<lparr>file_size := 102500, single_indirect_block := 6\<rparr>" 0]
  by (simp_all add: ex_far_def mounted_on_def fs_typed_def inode_ok_def open_file_def c_consts)

text \<open>The same file, open one byte further.\<close>

definition ex_far1 :: "ram fs" where
  "ex_far1 = ex_far\<lparr>fd_table := (fd_table ex_fs)[0 := \<lparr>fd_is_used = True, fd_inode_number = 0, fd_offset = 102401\<rparr>]\<rparr>"

lemma ex_far1_simps:
  "mounted_on ram_open ram_image ex_far1 ''d'' ex_blocks" "fs_typed ex_far1" "open_file ex_far1 0 0 102401"
  "inode_table ex_far1 ! 0 = (empty_inode 0)\<lparr>file_size := 102500, single_indirect_block := 6\<rparr>"
  using ex_far_simps fs_typedD(1) [OF ex_fs_typed]
  by (simp_all add: ex_far1_def mounted_on_def fs_typed_def open_file_def c_consts)

end
