(* ===== verification/Fs_Props.thy ===== *)
theory Fs_Props
  imports Fs_Example
begin

text \<open>
  The properties of the file system of \<^verbatim>\<open>src/file_systems/src/fs.c\<close>, one theorem each with the
  text that states it. The disk is any \<open>D\<close> that satisfies \<open>disk_dev\<close>; the witnesses use the memory
  disk and the file system of \<open>Fs_Example\<close>.
\<close>

section \<open>Mounting\<close>

text \<open>
  C1. What \<open>umount_fs\<close> writes is what the next \<open>mount_fs\<close> (in a process that has not mounted yet)
  reads: the superblock, directory, inode table and both bitmaps come back unchanged, every
  descriptor is closed, and every file whose blocks lie outside the metadata keeps its content.
\<close>

theorem umount_mount_persists:
  assumes "disk_dev D current img" and "mounted_on current img s n B"
    and "fs_typed s" and "sb_ok (sb s)"
  shows "\<exists>s'. umount_fs D pad n s = Some (0, s') \<and>
    (\<forall>t. disk t = disk s' \<and> \<not> is_fs_mounted t \<longrightarrow>
      (\<exists>t' B'. mount_fs D n t = Some (0, t') \<and> mounted_on current img t' n B' \<and>
        sb t' = sb s \<and> dir_table t' = dir_table s \<and> inode_table t' = inode_table s \<and>
        blocks_bitmap t' = blocks_bitmap s \<and> inodes_bitmap t' = inodes_bitmap s \<and>
        fd_table t' = replicate MAX_NUM_FD empty_fd \<and>
        (\<forall>i. blocks_of (ptrs B (inode_table s ! i)) \<inter> meta_blocks (sb s) = {} \<longrightarrow>
           content B' (inode_table t' ! i) = content B (inode_table s ! i))))"
proof -
  from disk_dev.umount_writes_metadata [OF assms] obtain d' B' where
    u: "umount_fs D pad n s = Some (0, s\<lparr>disk := d'\<rparr>)" "current d' = None"
      "img d' = (img (disk s))(n \<mapsto> B')" "on_disk B' s" "\<forall>b. b \<notin> meta_blocks (sb s) \<longrightarrow> B' b = B b" by blast
  have "\<exists>t'. mount_fs D n t = Some (0, t') \<and> mounted_on current img t' n B' \<and>
        sb t' = sb s \<and> dir_table t' = dir_table s \<and> inode_table t' = inode_table s \<and>
        blocks_bitmap t' = blocks_bitmap s \<and> inodes_bitmap t' = inodes_bitmap s \<and>
        fd_table t' = replicate MAX_NUM_FD empty_fd"
    if "disk t = d'" "\<not> is_fs_mounted t" for t
    using disk_dev.mount_reads_metadata [OF assms(1) _ _ that(2) u(4) assms(4), of n] u(2,3) that(1)
    by (auto simp: mounted_on_def)
  moreover have "content B' (inode_table s ! i) = content B (inode_table s ! i)"
    if "blocks_of (ptrs B (inode_table s ! i)) \<inter> meta_blocks (sb s) = {}" for i
    by (rule content_cong) (use that u(5) in auto)
  ultimately show ?thesis using u(1) by fastforce
qed

theorem umount_mount_persists_witness:
  "\<exists>s'. umount_fs ram_ops 0 ''d'' ex_fs = Some (0, s') \<and>
    (\<forall>t. disk t = disk s' \<and> \<not> is_fs_mounted t \<longrightarrow>
      (\<exists>t'. mount_fs ram_ops ''d'' t = Some (0, t') \<and> dir_map t' [97] = Some 0))"
proof -
  have "sb_ok (sb ex_fs)" by (simp add: ex_fs_def ex_fresh_simps sb_ok_new_superblock)
  from umount_mount_persists [OF ramd.disk_dev_axioms ex_fs_mounted ex_fs_typed this, of 0]
  obtain s' where s': "umount_fs ram_ops 0 ''d'' ex_fs = Some (0, s')"
    "\<forall>t. disk t = disk s' \<and> \<not> is_fs_mounted t \<longrightarrow>
      (\<exists>t'. mount_fs ram_ops ''d'' t = Some (0, t') \<and> dir_table t' = dir_table ex_fs)" by blast
  have "dir_map t' [97] = Some 0" if "dir_table t' = dir_table ex_fs" for t' :: "ram fs"
    using that ex_fs_dir_map by (auto simp: dir_map_def fun_eq_iff)
  with s' show ?thesis by blast
qed

text \<open>
  C7. \<open>make_fs\<close> in a process whose block bitmap is still zero, followed by \<open>mount_fs\<close>, gives an empty
  file system: no file name is known, the invariant holds, exactly the five metadata blocks are
  marked, and all 8187 others are free.
\<close>

theorem make_mount_empty:
  assumes "disk_dev D current img" and "current (disk s) = None"
    and "blocks_bitmap s = replicate 1024 0" and "\<not> is_fs_mounted s"
  shows "\<exists>s' t. make_fs D pad n s = Some (0, s') \<and> mount_fs D n s' = Some (0, t) \<and>
    fs_inv t \<and> sb_ok (sb t) \<and> dir_map t = Map.empty \<and> bitset (blocks_bitmap t) = {..<5} \<and>
    nfree (blocks_bitmap t) = 8187 \<and> current (disk t) = Some n"
proof -
  from disk_dev.make_fs_formats [OF assms(1,2), of pad n] assms(3) obtain d' B bm where
    f: "make_fs D pad n s = Some (0, s\<lparr>blocks_bitmap := bm, disk := d'\<rparr>)" "current d' = None"
      "img d' n = Some B" "length bm = 1024" "bitset bm = {..<5}" "on_disk B (fresh_fs bm d')" by auto
  have "sb (fresh_fs bm d') = new_superblock" by (simp add: fresh_fs_def)
  with disk_dev.mount_reads_metadata [OF assms(1), of "s\<lparr>blocks_bitmap := bm, disk := d'\<rparr>" n B] f assms(4)
    sb_ok_new_superblock obtain d where m: "mount_fs D n (s\<lparr>blocks_bitmap := bm, disk := d'\<rparr>)
      = Some (0, fresh_fs bm d)" "current d = Some n"
    by (fastforce simp: fresh_fs_def)
  have "{..<DISK_BLOCKS} - {..<5} = {5..<8192 :: nat}" by (auto simp: DISK_BLOCKS_def)
  then have "nfree bm = 8187" using f(5) by (simp add: nfree_def)
  then show ?thesis
    using f m fs_inv_fresh [OF f(4)] dir_map_fresh [OF f(4)] sb_ok_new_superblock
    by (auto simp: fresh_fs_def)
qed

theorem make_mount_empty_witness:
  "\<exists>s' t. make_fs ram_ops 0 ''d'' (ex_fresh\<lparr>blocks_bitmap := replicate 1024 0, is_fs_mounted := False,
      disk := \<lparr>ram_files = Map.empty, ram_open = None\<rparr>\<rparr>) = Some (0, s') \<and>
    mount_fs ram_ops ''d'' s' = Some (0, t) \<and> dir_map t = Map.empty"
  using make_mount_empty [OF ramd.disk_dev_axioms, of "ex_fresh\<lparr>blocks_bitmap := replicate 1024 0,
      is_fs_mounted := False, disk := \<lparr>ram_files = Map.empty, ram_open = None\<rparr>\<rparr>" 0 "''d''"]
  by auto


section \<open>Data\<close>

text \<open>
  C5. Writing \<open>nbyte\<close> bytes at the offset of a descriptor, seeking back and reading \<open>nbyte\<close> bytes
  gives the bytes that were written; all three calls report success. This is for a write that
  reaches the end of the file, within the maximal size, and satisfies \<open>write_ok\<close>: it starts inside
  the 25 direct blocks, and inside a block the file has if the offset is not a multiple of the
  block size; if the file already has an indirect block, then the write ends in the direct blocks or
  starts in the first block; the pointers of the file are marked and different; and the disk
  has at least two more free blocks than the data takes. The offset lies in the file or at its end,
  and the blocks before it are allocated.
\<close>

theorem write_seek_read:
  assumes "disk_dev D current img" and "mounted_on current img s nm B" and "fs_typed s"
    and "open_file s fd i cursor" and "n = inode_table s ! i"
    and "write_ok (blocks_bitmap s) X B n cursor nbyte" and "nbyte \<le> length buf"
    and "cursor \<le> unat (file_size n)" and "unat (file_size n) \<le> cursor + nbyte"
    and "backed B n cursor" and "length rbuf = nbyte"
  shows "\<exists>s1 s2 s3. fs_write D fd buf nbyte s = Some (int nbyte, s1) \<and>
    fs_lseek fd (int cursor) s1 = Some (0, s2) \<and>
    fs_read D fd rbuf nbyte s2 = Some (int nbyte, take nbyte buf, s3)"
proof -
  from disk_dev.fs_write_file [OF assms(1-10)] obtain s1 B1 where
    w: "fs_write D fd buf nbyte s = Some (int nbyte, s1)" "mounted_on current img s1 nm B1" "fs_typed s1"
      "open_file s1 fd i (cursor + nbyte)"
      "content B1 (inode_table s1 ! i) = take cursor (content B n) @ take nbyte buf"
      "unat (file_size (inode_table s1 ! i)) = cursor + nbyte" "backed B1 (inode_table s1 ! i) (cursor + nbyte)"
    by blast
  have lim: "cursor + nbyte \<le> MAX_FILE_SIZE" "cursor < NUM_DIRECT_BLOCKS * BLOCK_SIZE"
    using assms(6) by (auto simp: write_ok_def)
  let ?s2 = "s1\<lparr>fd_table := (fd_table s1)[nat fd := (fd_table s1 ! nat fd)\<lparr>fd_offset := cursor\<rparr>]\<rparr>"
  have l: "fs_lseek fd (int cursor) s1 = Some (0, ?s2)"
    by (rule fs_lseek_ok [OF w(3,4)]) (use w(6) lim in \<open>simp_all add: c_consts\<close>)
  have "mounted_on current img ?s2 nm B1" "fs_typed ?s2" "inode_table ?s2 = inode_table s1"
    using w(2,3) by (simp_all add: mounted_on_def fs_typed_def)
  from disk_dev.fs_read_file [OF assms(1) this(1,2) open_file_seek [OF w(3,4)] refl lim(2), of nbyte rbuf] w(6,7) lim
    assms(11) obtain s3 where "fs_read D fd rbuf nbyte ?s2
      = Some (int nbyte, overlay 0 (take nbyte (drop cursor (content B1 (inode_table s1 ! i)))) rbuf, s3)" by auto
  moreover have "length (content B n) = unat (file_size n)" by (simp add: content_def)
  then have "take nbyte (drop cursor (content B1 (inode_table s1 ! i))) = take nbyte buf"
    using w(5) assms(8) by simp
  ultimately show ?thesis using w(1) l assms(7,11) by (auto simp: overlay_def)
qed

theorem write_seek_read_witness:
  "\<exists>s1 s2 s3. fs_write ram_ops 0 [1, 2, 3] 3 ex_fs = Some (3, s1) \<and>
    fs_lseek 0 0 s1 = Some (0, s2) \<and> fs_read ram_ops 0 [0, 0, 0] 3 s2 = Some (3, [1, 2, 3], s3)"
  using write_seek_read [OF ramd.disk_dev_axioms ex_fs_mounted ex_fs_typed ex_fs_open refl, of "{..<5}" 3
      "[1, 2, 3]" "[0, 0, 0]"] ex_write_ok [of ex_blocks 0] ex_backed
  by (simp add: ex_fs_simps)

text \<open>
  C16. The content of a file after a write that reaches its end and satisfies \<open>write_ok\<close> is the old
  content up to the offset followed by the bytes written; the size and the offset are the end of
  the write, and directory and other inodes are unchanged. \<open>write_ok\<close> says that the write starts inside
  the 25 direct blocks (inside a block the file has, if the offset is not a multiple of the block
  size) and stays within the maximal size, that it ends in the direct blocks or starts in the first
  block if the file already has an indirect block, that the pointers of the file are marked and
  different, and that the disk has two more free blocks than the data takes. The offset lies in the
  file or at its end, and the blocks before it are allocated. A write that starts
  behind the direct blocks of a file with an indirect block behaves differently, see the last section.
\<close>

theorem write_content:
  assumes "disk_dev D current img" and "mounted_on current img s nm B" and "fs_typed s"
    and "open_file s fd i cursor" and "n = inode_table s ! i"
    and "write_ok (blocks_bitmap s) X B n cursor nbyte" and "nbyte \<le> length buf"
    and "cursor \<le> unat (file_size n)" and "unat (file_size n) \<le> cursor + nbyte"
    and "backed B n cursor"
  shows "\<exists>s' B'. fs_write D fd buf nbyte s = Some (int nbyte, s') \<and> mounted_on current img s' nm B' \<and>
    content B' (inode_table s' ! i) = take cursor (content B n) @ take nbyte buf \<and>
    unat (file_size (inode_table s' ! i)) = cursor + nbyte \<and> open_file s' fd i (cursor + nbyte) \<and>
    dir_table s' = dir_table s \<and> (\<forall>j. j \<noteq> i \<longrightarrow> inode_table s' ! j = inode_table s ! j)"
  using disk_dev.fs_write_file [OF assms] by blast

theorem write_content_witness:
  "\<exists>s' B'. fs_write ram_ops 0 [1, 2, 3] 3 ex_fs = Some (3, s') \<and>
    content B' (inode_table s' ! 0) = [1, 2, 3] \<and> open_file s' 0 0 3"
  using write_content [OF ramd.disk_dev_axioms ex_fs_mounted ex_fs_typed ex_fs_open refl, of "{..<5}" 3
      "[1, 2, 3]"] ex_write_ok [of ex_blocks 0] ex_backed
  by (auto simp: ex_fs_simps)

text \<open>
  C17. A read inside the file that starts in the direct blocks, of a file of at most the maximal
  size whose blocks up to the end of the read are allocated, returns exactly the bytes of the content from the offset on, in the
  first \<open>nbyte\<close> cells of the buffer, and advances the offset.
\<close>

theorem read_content:
  assumes "disk_dev D current img" and "mounted_on current img s nm B" and "fs_typed s"
    and "open_file s fd i cursor" and "n = inode_table s ! i"
    and "cursor < NUM_DIRECT_BLOCKS * BLOCK_SIZE" and "cursor + nbyte \<le> unat (file_size n)"
    and "unat (file_size n) \<le> MAX_FILE_SIZE" and "backed B n (cursor + nbyte)" and "nbyte \<le> length buf"
  shows "\<exists>s'. fs_read D fd buf nbyte s =
      Some (int nbyte, overlay 0 (take nbyte (drop cursor (content B n))) buf, s') \<and>
    open_file s' fd i (cursor + nbyte)"
  using disk_dev.fs_read_file [OF assms] open_file_seek [OF assms(3,4)] by blast

theorem read_content_witness:
  "\<exists>s'. fs_read ram_ops 0 [7, 7, 7, 7] 3 ex_text = Some (3, [13, 14, 15, 7], s') \<and> open_file s' 0 0 5"
  using read_content [OF ramd.disk_dev_axioms ex_text_simps(4,1,2) refl, of 3 "[7, 7, 7, 7]"]
    ex_text_backed ex_text_content
  by (simp add: ex_text_simps(3)) (simp add: ex_node_def c_consts overlay_def)

text \<open>
  C9. Isolation: a write that reaches the end of the file and satisfies \<open>write_ok\<close> for a set \<open>X\<close> of
  marked blocks that the file does not own changes no block of \<open>X\<close>, so every other file with its
  blocks in \<open>X\<close> keeps its content. \<open>write_ok\<close> says that the write starts inside the 25 direct blocks
  (inside a block the file has, if the offset is not a multiple of the block size) and stays within
  the maximal size, that it ends in the direct blocks or starts in the first block if the file
  already has an indirect block, that the pointers of the file are marked and different, and that
  the disk has two more free blocks than the data takes. The offset lies in the file or at its end,
  and the blocks before it are allocated. A write that starts behind the direct
  blocks can hit a block the file does not own, see the last section.
\<close>

theorem write_isolation:
  assumes "disk_dev D current img" and "mounted_on current img s nm B" and "fs_typed s"
    and "open_file s fd i cursor" and "n = inode_table s ! i"
    and "write_ok (blocks_bitmap s) X B n cursor nbyte" and "nbyte \<le> length buf"
    and "cursor \<le> unat (file_size n)" and "unat (file_size n) \<le> cursor + nbyte"
    and "backed B n cursor"
    and "j \<noteq> i" and "blocks_of (ptrs B (inode_table s ! j)) \<subseteq> X"
  shows "\<exists>s' B'. fs_write D fd buf nbyte s = Some (int nbyte, s') \<and> mounted_on current img s' nm B' \<and>
    (\<forall>x \<in> X. B' x = B x) \<and> content B' (inode_table s' ! j) = content B (inode_table s ! j)"
proof -
  from disk_dev.fs_write_file [OF assms(1-10)] obtain s' B' where
    w: "fs_write D fd buf nbyte s = Some (int nbyte, s')" "mounted_on current img s' nm B'"
      "\<forall>x \<in> X. B' x = B x" "inode_table s' ! j = inode_table s ! j" using assms(11) by blast
  have "content B' (inode_table s ! j) = content B (inode_table s ! j)"
    by (rule content_cong) (use w(3) assms(12) in auto)
  with w show ?thesis by auto
qed

theorem write_isolation_witness:
  "\<exists>s' B'. fs_write ram_ops 0 [1, 2, 3] 3 ex_fs = Some (3, s') \<and>
    (\<forall>x \<in> {..<5}. B' x = ex_blocks x) \<and> content B' (inode_table s' ! 1) = []"
  using write_isolation [OF ramd.disk_dev_axioms ex_fs_mounted ex_fs_typed ex_fs_open refl, of "{..<5}" 3
      "[1, 2, 3]" 1] ex_write_ok [of ex_blocks 0] ex_backed ex_content [of ex_blocks 1]
  by (auto simp: ex_fs_simps ex_blocks_of)


text \<open>
  C20. Truncating a file that lives in its first \<open>m\<close> direct blocks to a shorter length: the call
  returns 0, the content is the old one cut to that length, the offset of the descriptor is moved
  back if it was beyond, exactly the blocks past the new end are released, and nothing is written
  to the disk. The pointers of the inode are left as they were.
\<close>

theorem truncate_content:
  assumes "fs_typed s" and "open_file s fd i cursor" and "n = inode_table s ! i"
    and "len < unat (file_size n)" and "single_indirect_block n = 0"
    and "m \<le> NUM_DIRECT_BLOCKS" and "ceil_blocks len \<le> m" and "\<forall>k < m. direct_block n ! k \<noteq> 0"
    and "\<forall>k. m \<le> k \<and> k < NUM_DIRECT_BLOCKS \<longrightarrow> direct_block n ! k = 0"
    and "\<forall>b \<in> set (direct_block n). unat b < DISK_BLOCKS"
  shows "\<exists>s'. fs_truncate D fd (int len) s = Some (0, s') \<and> disk s' = disk s \<and>
    (\<forall>B. content B (inode_table s' ! i) = take len (content B n)) \<and>
    direct_block (inode_table s' ! i) = direct_block n \<and> open_file s' fd i (min cursor len) \<and>
    bitset (blocks_bitmap s') = bitset (blocks_bitmap s)
      - {unat (direct_block n ! k) | k. ceil_blocks len \<le> k \<and> k < m}"
proof -
  from fs_truncate_file [OF assms, of D] obtain s' where r: "fs_truncate D fd (int len) s = Some (0, s')"
    "disk s' = disk s" "inode_table s' ! i = n\<lparr>file_size := of_nat len\<rparr>"
    "bitset (blocks_bitmap s') = bitset (blocks_bitmap s)
      - {unat (direct_block n ! k) | k. ceil_blocks len \<le> k \<and> k < m}" "open_file s' fd i (min cursor len)" by blast
  with content_shrink [OF less_imp_le [OF assms(4)]] show ?thesis by auto
qed

theorem truncate_content_witness:
  "\<exists>s'. fs_truncate ram_ops 0 0 ex_ten = Some (0, s') \<and> direct_block (inode_table s' ! 0) ! 0 = 5 \<and>
    (\<forall>B. content B (inode_table s' ! 0) = [])"
  using truncate_content [OF ex_ten_typed ex_ten_open refl, of 0 1 ram_ops]
  by (force simp: ex_ten_inode ex_node_def ceil_blocks_def c_consts nth_Cons')

section \<open>The directory\<close>

text \<open>
  C18. \<open>fs_create\<close> with a new name of 1 to 15 bytes, when an inode is free, returns 0, takes the
  least free inode \<open>i\<close> and adds exactly the entry \<open>name \<mapsto> i\<close> to the directory; the inode is empty
  and the invariant is kept. With a name that exists or no free inode it returns -1 and changes
  nothing.
\<close>

theorem create_adds_name:
  assumes "dir_wf s" and "cstr name \<noteq> []" and "length (cstr name) \<le> 15"
  shows "if dir_map s (cstr name) \<noteq> None \<or> {..<64} \<subseteq> bitset (inodes_bitmap s)
    then fs_create name s = Some (- 1, s)
    else \<exists>i s'. fs_create name s = Some (0, s') \<and> i < 64 \<and> i \<notin> bitset (inodes_bitmap s) \<and>
      {..<i} \<subseteq> bitset (inodes_bitmap s) \<and> dir_wf s' \<and> dir_map s' = (dir_map s)(cstr name \<mapsto> i) \<and>
      inode_table s' ! i = empty_inode i \<and> fd_table s' = fd_table s \<and> disk s' = disk s"
proof (cases "dir_map s (cstr name) \<noteq> None \<or> {..<64} \<subseteq> bitset (inodes_bitmap s)")
  case True
  with create_checks [OF assms(1,2)] show ?thesis by (auto simp: fs_create_def sizeof_ptr_def c_consts)
next
  case False
  with fs_create_refines [OF assms] obtain i s' bm tab where
    "fs_create name s = Some (0, s')" "i < 64" "i \<notin> bitset (inodes_bitmap s)" "{..<i} \<subseteq> bitset (inodes_bitmap s)"
    "dir_wf s'" "dir_map s' = (dir_map s)(cstr name \<mapsto> i)" "s' = s\<lparr>dir_table := tab, inodes_bitmap := bm\<rparr>" by blast
  with dir_wf_free(2) [OF assms(1)] False show ?thesis by (auto intro!: exI [of _ i])
qed

theorem create_adds_name_witness:
  "\<exists>s'. fs_create [98] ex_fs = Some (0, s') \<and> dir_map s' [97] = Some 0 \<and> dir_map s' [98] \<noteq> None"
  using create_adds_name [OF ex_fs_dir_wf, of "[98]"] ex_fs_room by (auto simp: cstr_def ex_fs_dir_map)

text \<open>
  C19. \<open>fs_delete\<close> of an existing file while no descriptor is open returns 0, removes exactly that
  name, resets its inode, releases its data blocks and no others, and keeps the invariant.
\<close>

theorem delete_removes_name:
  assumes "disk_dev D current img" and "dir_wf s" and "mounted_on current img s n B"
    and "dir_map s (cstr name) = Some i" and "\<forall>f \<in> set (fd_table s). \<not> fd_is_used f"
    and "file_blocks B (inode_table s ! i) \<subseteq> {..<DISK_BLOCKS}"
  shows "\<exists>s'. fs_delete D name s = Some (0, s') \<and> dir_wf s' \<and>
    dir_map s' = (dir_map s)(cstr name := None) \<and> inode_table s' ! i = empty_inode i \<and>
    bitset (blocks_bitmap s') = bitset (blocks_bitmap s) - file_blocks B (inode_table s ! i) \<and>
    disk s' = disk s \<and> (\<forall>j. j \<noteq> i \<longrightarrow> inode_table s' ! j = inode_table s ! j)"
  using disk_dev.fs_delete_refines [OF assms] by blast

theorem delete_removes_name_witness:
  "\<exists>s'. fs_delete ram_ops [97] ex_closed = Some (0, s') \<and> dir_map s' = Map.empty"
proof -
  have "file_blocks ex_blocks (inode_table ex_closed ! 0) \<subseteq> {..<DISK_BLOCKS}"
    by (auto simp: ex_closed_def ex_fs_simps file_blocks_def)
  moreover have "\<forall>f \<in> set (fd_table ex_closed). \<not> fd_is_used f" by (simp add: ex_closed_def empty_fd_def)
  ultimately show ?thesis
    using delete_removes_name [OF ramd.disk_dev_axioms ex_closed_dir(1) ex_closed_mounted, of "[97]" 0]
    by (auto simp: cstr_def ex_closed_dir(2))
qed

text \<open>
  C21. \<open>fs_open\<close> with a name that is not empty: of an existing file it returns the least descriptor that
  is not in use, now open on that file at offset 0; when the name is unknown or all 32 descriptors
  are in use it returns -1 and changes nothing. The empty name is not taken for unknown, see the last
  section.
\<close>

theorem open_takes_least_descriptor:
  assumes "dir_wf s" and "cstr name \<noteq> []"
  shows "case dir_map s (cstr name) of None \<Rightarrow> fs_open name s = (- 1, s) | Some i \<Rightarrow>
    if \<forall>f \<in> set (fd_table s). fd_is_used f then fs_open name s = (- 1, s)
    else \<exists>fd s'. fs_open name s = (int fd, s') \<and> open_file s' (int fd) i 0 \<and>
      \<not> fd_is_used (fd_table s ! fd) \<and> (\<forall>j < fd. fd_is_used (fd_table s ! j)) \<and>
      (\<forall>j. j \<noteq> fd \<longrightarrow> fd_table s' ! j = fd_table s ! j)"
proof (cases "dir_map s (cstr name)")
  case None
  with fs_open_fails [OF assms] show ?thesis by simp
next
  case (Some i)
  note l = fs_typedD(1) [OF dir_wf_typed [OF assms(1)]]
  have "i < 64" using dir_map_Some [OF assms(1)] Some by auto
  with Some fs_open_fails [OF assms] fs_open_ok [OF assms(1) Some] l show ?thesis
    by (force simp: open_file_def c_consts)
qed

theorem open_takes_least_descriptor_witness:
  "\<exists>s'. fs_open [97] ex_closed = (0, s') \<and> open_file s' 0 0 0"
proof -
  have u: "\<not> (\<forall>f \<in> set (fd_table ex_closed). fd_is_used f)" "\<not> fd_is_used (fd_table ex_closed ! 0)"
    by (simp_all add: ex_closed_def empty_fd_def MAX_NUM_FD_def)
  have "case dir_map ex_closed (cstr [97]) of None \<Rightarrow> fs_open [97] ex_closed = (- 1, ex_closed) | Some i \<Rightarrow>
    if \<forall>f \<in> set (fd_table ex_closed). fd_is_used f then fs_open [97] ex_closed = (- 1, ex_closed)
    else \<exists>fd s'. fs_open [97] ex_closed = (int fd, s') \<and> open_file s' (int fd) i 0 \<and>
      \<not> fd_is_used (fd_table ex_closed ! fd) \<and> (\<forall>j < fd. fd_is_used (fd_table ex_closed ! j)) \<and>
      (\<forall>j. j \<noteq> fd \<longrightarrow> fd_table s' ! j = fd_table ex_closed ! j)"
    by (rule open_takes_least_descriptor [OF ex_closed_dir(1)]) (simp add: cstr_def)
  then obtain fd s' where "fs_open [97] ex_closed = (int fd, s')" "open_file s' (int fd) 0 0"
    "\<forall>j < fd. fd_is_used (fd_table ex_closed ! j)"
    using u(1) by (auto simp: cstr_def ex_closed_dir(2))
  with u(2) show ?thesis by (cases "fd = 0") auto
qed

text \<open>
  C22. While the directory has room, \<open>fs_listfiles\<close> returns 0 and lists every file name exactly
  once. With all 64 entries in use it stores its terminating null pointer past the end of the
  array: undefined behaviour.
\<close>

theorem listfiles_lists_directory:
  assumes "dir_wf s"
  shows "if {..<64} \<subseteq> bitset (inodes_bitmap s) then fs_listfiles s = None
    else \<exists>names. fs_listfiles s = Some (0, names) \<and> distinct names \<and> set names = dom (dir_map s)"
  using fs_listfiles_names [OF assms] names_distinct [OF assms] by simp

theorem listfiles_lists_directory_witness: "\<exists>names. fs_listfiles ex_fs = Some (0, names) \<and> set names = {[97]}"
  using listfiles_lists_directory [OF ex_fs_dir_wf] ex_fs_room by (auto simp: ex_fs_dir_map)

section \<open>Histories\<close>

text \<open>
  C8. Whatever calls a program makes after mounting a formatted disk, with whatever arguments but for
  an empty name given to \<open>fs_open\<close> or \<open>fs_delete\<close>, and on whatever disk, failing ones included: as
  long as no call is undefined, directory, inode bitmap and inode numbers agree, free slots are
  clean, names are unique and every open descriptor names an existing file. The two calls with an
  empty name are defined and break this, see the last section.
\<close>

theorem histories_keep_invariant:
  assumes "(fs_step D)\<^sup>*\<^sup>* s s'" and "fs_inv s"
  shows "fs_inv s'"
  using fs_inv_steps [OF assms] .

theorem histories_keep_invariant_witness:
  "\<exists>s' s''. fs_create [98] ex_fs = Some (0, s') \<and> fs_close 0 s' = Some (0, s'') \<and> fs_inv s''"
proof -
  from fs_create_refines [OF ex_fs_dir_wf, of "[98]"] ex_fs_room obtain s' where
    c: "fs_create [98] ex_fs = Some (0, s')" "fd_table s' = fd_table ex_fs"
    by (auto simp: cstr_def ex_fs_dir_map)
  then obtain s'' where d: "fs_close 0 s' = Some (0, s'')"
    using open_fileD [OF ex_fs_typed ex_fs_open] by (auto simp: fs_close_def nth_opt_in MAX_NUM_FD_def)
  have "(fs_step ram_ops)\<^sup>*\<^sup>* ex_fs s''"
    using fs_step.create [of "[98]" ex_fs 0 s' ram_ops] fs_step.close_f [OF d, of ram_ops] c(1)
    by (auto simp: cstr_def intro: rtranclp.rtrancl_into_rtrancl)
  with histories_keep_invariant [OF _ ex_fs_inv] c(1) d show ?thesis by blast
qed

section \<open>Limits of the code\<close>

text \<open>
  A name of 16 or more bytes is not refused by \<open>fs_create\<close> (the check compares the size of a
  pointer): when the name is new and an inode is free the copy runs past the directory entry.
\<close>

lemma create_long_name_undefined:
  assumes "dir_wf s" and "length (cstr name) > 15" and "dir_map s (cstr name) = None"
    and "\<not> {..<64} \<subseteq> bitset (inodes_bitmap s)"
  shows "fs_create name s = None"
proof -
  obtain i where "i < 64" "i \<notin> bitset (inodes_bitmap s)" "{..<i} \<subseteq> bitset (inodes_bitmap s)"
    using least_free_inode [OF assms(4)] by blast
  with create_entry_found [OF dir_wf_typed [OF assms(1)], of 0 i name] strcpy_overflow [OF assms(2)]
  have "create_entry 0 name s = None" by (simp add: lessThan_atLeast0)
  moreover have "cstr name \<noteq> []" using assms(2) by auto
  ultimately show ?thesis
    using create_checks [OF assms(1)] assms(3,4) by (simp add: fs_create_def sizeof_ptr_def c_consts)
qed

text \<open>\<open>umount_fs\<close> does not reset \<open>is_fs_mounted\<close>: no later \<open>mount_fs\<close> of the process succeeds.\<close>

lemma dev_mounted:
  "dev_write D b bs s = (rc, s') \<Longrightarrow> is_fs_mounted s' = is_fs_mounted s" "dev_close D s = (rc, s') \<Longrightarrow> is_fs_mounted s' = is_fs_mounted s"
  by (auto simp: dev_write_def dev_close_def split: prod.splits)

lemma umount_stays_mounted:
  assumes "umount_fs D pad n s = Some (rc, s')" and "is_fs_mounted s"
  shows "mount_fs D m s' = Some (- 1, s')"
proof -
  have "ensures (\<lambda>(rc, s'). is_fs_mounted s' = is_fs_mounted s) (umount_fs D pad n s)"
    unfolding umount_fs_def Let_def by (intro ensures_intros) (auto dest!: dev_mounted)
  from ensuresD [OF this assms(1)] assms(2) show ?thesis by (simp add: mount_fs_def)
qed

text \<open>
  C28. A file that has an indirect block (on the disk) cannot be read or written on behind its direct blocks: the
  indirect block is indexed as if it held the direct ones too. With the offset inside the file, at or
  behind the end of the 25 direct blocks, a read or write of at least one byte and of no more blocks
  than lie before the offset, ending within the maximal size, moves no byte and reports 0, and
  leaves the offset and every block as they were. (A file of exactly 25 full blocks that has no
  indirect block yet is extended normally.)
\<close>

theorem beyond_direct_nothing:
  assumes "disk_dev D current img" and "mounted_on current img s nm B" and "fs_typed s" and "open_file s fd i cursor"
    and "NUM_DIRECT_BLOCKS * BLOCK_SIZE \<le> cursor" and "nbyte \<le> cursor div BLOCK_SIZE * BLOCK_SIZE"
    and "cursor + nbyte \<le> MAX_FILE_SIZE" and "0 < nbyte" and "cursor \<le> unat (file_size (inode_table s ! i))"
    and "unat (single_indirect_block (inode_table s ! i)) < DISK_BLOCKS" and "single_indirect_block (inode_table s ! i) \<noteq> 0"
  shows "fs_read D fd rbuf nbyte s = Some (0, rbuf, s) \<and>
    (\<exists>d. fs_write D fd buf nbyte s = Some (0, s\<lparr>disk := d\<rparr>) \<and> mounted_on current img (s\<lparr>disk := d\<rparr>) nm B)"
proof -
  have "cursor < 2 ^ 31" using assms(7) by (simp add: c_consts)
  then show ?thesis
    using disk_dev.beyond_direct_read [OF assms(1-6) _ assms(10)] disk_dev.beyond_direct_write [OF assms] by simp
qed

theorem beyond_direct_nothing_witness:
  "fs_read ram_ops 0 [0, 0, 0] 3 ex_far = Some (0, [0, 0, 0], ex_far)"
  using beyond_direct_nothing [OF ramd.disk_dev_axioms ex_far_simps(1-3), of 3]
  by (simp add: ex_far_simps(4) c_consts DISK_BLOCKS_def)

text \<open>
  C29. The superblock can be overwritten through an open file. With the offset inside a block behind the
  25 direct blocks, not at its start, of a file that has an indirect block (on the disk) with a zero at the number
  \<open>k\<close> of that block, a write that needs exactly \<open>k + 1\<close> blocks, within the maximal size, takes the zero
  for a block number: it puts the first bytes of the data into block 0, from the offset in the
  block to its end, reports that many bytes as written, and changes no other block.
\<close>

theorem far_write_overwrites_superblock:
  assumes "disk_dev D current img" and "mounted_on current img s nm B" and "fs_typed s" and "open_file s fd i cursor"
    and "NUM_DIRECT_BLOCKS * BLOCK_SIZE < cursor" and "cursor mod BLOCK_SIZE \<noteq> 0" and "cursor + nbyte \<le> MAX_FILE_SIZE"
    and "cursor div BLOCK_SIZE * BLOCK_SIZE < nbyte" and "nbyte \<le> Suc (cursor div BLOCK_SIZE) * BLOCK_SIZE"
    and "nbyte \<le> length buf"
    and "unat (single_indirect_block (inode_table s ! i)) < DISK_BLOCKS" and "single_indirect_block (inode_table s ! i) \<noteq> 0"
    and "dec16s 2048 (B (unat (single_indirect_block (inode_table s ! i)))) ! (cursor div BLOCK_SIZE) = 0"
  shows "\<exists>s'. fs_write D fd buf nbyte s = Some (int (BLOCK_SIZE - cursor mod BLOCK_SIZE), s') \<and>
    mounted_on current img s' nm (B(0 := take (cursor mod BLOCK_SIZE) (B 0) @ take (BLOCK_SIZE - cursor mod BLOCK_SIZE) buf))"
  using disk_dev.far_write [OF assms] .

theorem far_write_overwrites_superblock_witness:
  "\<exists>s'. fs_write ram_ops 0 (replicate 102401 7) 102401 ex_far1 = Some (4095, s') \<and>
    mounted_on ram_open ram_image s' ''d'' (ex_blocks(0 := 0 # replicate 4095 7))"
proof -
  have e: "take (BLOCK_SIZE - 102401 mod BLOCK_SIZE) (replicate 102401 (7 :: u8)) = replicate 4095 7"
    "take (102401 mod BLOCK_SIZE) zero_block = [0]" "int (BLOCK_SIZE - 102401 mod BLOCK_SIZE) = 4095"
    by (simp_all add: BLOCK_SIZE_def min_def zero_block_def numeral_2_eq_2)
  have z: "dec16s 2048 zero_block ! (102401 div BLOCK_SIZE) = 0"
    by (simp add: dec16s_def dec16_def zero_block_def BLOCK_SIZE_def)
  have c: "NUM_DIRECT_BLOCKS * BLOCK_SIZE < 102401" "102401 mod BLOCK_SIZE \<noteq> 0" "102401 + 102401 \<le> MAX_FILE_SIZE"
    "102401 div BLOCK_SIZE * BLOCK_SIZE < 102401" "102401 \<le> Suc (102401 div BLOCK_SIZE) * BLOCK_SIZE"
    by (simp_all add: c_consts)
  from far_write_overwrites_superblock [OF ramd.disk_dev_axioms ex_far1_simps(1-3) c, of "replicate 102401 7"]
  show ?thesis using e z by (auto simp: ex_far1_simps(4) DISK_BLOCKS_def)
qed

text \<open>
  C30. The empty name. The code looks names up without testing whether an entry is in use, and an unused
  entry has the empty name and inode number 0. So while some entry is unused, no descriptor is
  open and the block numbers of inode 0 are on the disk, \<open>fs_open\<close> of the empty name succeeds with a descriptor on inode 0, and \<open>fs_delete\<close> of the empty
  name returns 0, empties inode 0, marks it free and releases the blocks of its file, whose
  directory entry stays: the directory invariant is broken when inode 0 belongs to a file.
\<close>

theorem empty_name_hits_inode_zero:
  assumes "disk_dev D current img" and "dir_wf s" and "mounted_on current img s n B" and "cstr name = []"
    and "\<not> {..<64} \<subseteq> bitset (inodes_bitmap s)" and "\<forall>f \<in> set (fd_table s). \<not> fd_is_used f"
    and "dir_map s nm = Some 0" and "file_blocks B (inode_table s ! 0) \<subseteq> {..<DISK_BLOCKS}"
  shows "(\<exists>s'. fs_open name s = (0, s') \<and> open_file s' 0 0 0) \<and>
    (\<exists>s'. fs_delete D name s = Some (0, s') \<and> dir_map s' = dir_map s \<and> inode_table s' ! 0 = empty_inode 0 \<and>
      0 \<notin> bitset (inodes_bitmap s') \<and>
      bitset (blocks_bitmap s') = bitset (blocks_bitmap s) - file_blocks B (inode_table s ! 0) \<and> \<not> dir_wf s')"
proof
  note l = fs_typedD(1) [OF dir_wf_typed [OF assms(2)]]
  then have "find_idx (\<lambda>f. \<not> fd_is_used f) (fd_table s) 0 = Some 0"
    using assms(6) by (cases "fd_table s") auto
  from fs_open_empty_name [OF assms(2,4,5) this] l show "\<exists>s'. fs_open name s = (0, s') \<and> open_file s' 0 0 0"
    by (simp add: open_file_def c_consts)
  from disk_dev.fs_delete_empty_name [OF assms(1-6,8)] obtain s' where
    s': "fs_delete D name s = Some (0, s')" "dir_table s' = dir_table s" "inode_table s' ! 0 = empty_inode 0"
      "bitset (inodes_bitmap s') = bitset (inodes_bitmap s) - {0}"
      "bitset (blocks_bitmap s') = bitset (blocks_bitmap s) - file_blocks B (inode_table s ! 0)" by blast
  have dm: "dir_map s' = dir_map s" using s'(2) by (simp add: dir_map_def fun_eq_iff)
  then have "\<not> dir_wf s'" using dir_map_Some [of s' nm 0] assms(7) s'(4) by auto
  with s' dm show "\<exists>s'. fs_delete D name s = Some (0, s') \<and> dir_map s' = dir_map s \<and> inode_table s' ! 0 = empty_inode 0 \<and>
      0 \<notin> bitset (inodes_bitmap s') \<and>
      bitset (blocks_bitmap s') = bitset (blocks_bitmap s) - file_blocks B (inode_table s ! 0) \<and> \<not> dir_wf s'" by auto
qed

theorem empty_name_hits_inode_zero_witness:
  "\<exists>s'. fs_delete ram_ops [] ex_closed = Some (0, s') \<and> dir_map s' [97] = Some 0 \<and> \<not> dir_wf s'"
proof -
  have "file_blocks ex_blocks (inode_table ex_closed ! 0) \<subseteq> {..<DISK_BLOCKS}"
    by (auto simp: ex_closed_def ex_fs_simps file_blocks_def)
  moreover have "\<not> {..<64} \<subseteq> bitset (inodes_bitmap ex_closed)" using ex_fs_room by (simp add: ex_closed_def)
  moreover have "\<forall>f \<in> set (fd_table ex_closed). \<not> fd_is_used f" by (simp add: ex_closed_def empty_fd_def)
  ultimately show ?thesis
    using empty_name_hits_inode_zero [OF ramd.disk_dev_axioms ex_closed_dir(1) ex_closed_mounted, of "[]" "[97]"]
    by (auto simp: cstr_def ex_closed_dir(2))
qed

end
