(* ===== verification/Draft_Fs.thy ===== *)
theory Draft_Fs
  imports Fs_Files
begin

text \<open>
  The earlier version of the file system that the repository keeps as
  \<^verbatim>\<open>src/file_systems/src/disk.c\<close>. Its structures and globals, and the functions \<open>make_fs\<close>, \<open>mount_fs\<close>,
  \<open>umount_fs\<close>, \<open>fs_open\<close>, \<open>fs_close\<close>, \<open>fs_create\<close>, \<open>fs_get_filesize\<close>, \<open>fs_listfiles\<close>, \<open>fs_lseek\<close>,
  \<open>set_bit\<close> and \<open>clear_bit\<close>, are the same text in both files; here are the functions that differ, with
  the prefix \<open>draft\<close>.
\<close>

section \<open>Bitmaps\<close>

definition draft_get_bit :: "u16 \<Rightarrow> u8 list \<Rightarrow> bool option" where
  "draft_get_bit offset bitmap = do {
     char_in_bitmap \<leftarrow> nth_opt bitmap (unat offset div 8);
     Some (drop_bit (unat offset mod 8) char_in_bitmap AND 1 \<noteq> 0) }"

text \<open>The loop runs to \<open>sizeof(bitmap) * 8\<close>, where \<open>bitmap\<close> is a pointer.\<close>

function draft_find_free_bit_from :: "nat \<Rightarrow> u8 list \<Rightarrow> u16 option" where
  "draft_find_free_bit_from i bitmap =
     (if i < sizeof_ptr * 8 then do {
        b \<leftarrow> draft_get_bit (of_nat i) bitmap;
        if \<not> b then Some (of_nat i) else draft_find_free_bit_from (Suc i) bitmap }
      else Some 0)"
  by pat_completeness auto
termination
  by (relation "measure (\<lambda>(i, bitmap). sizeof_ptr * 8 - i)") auto

declare draft_find_free_bit_from.simps [simp del]

definition draft_find_free_bit :: "u8 list \<Rightarrow> u16 option" where
  "draft_find_free_bit bitmap = draft_find_free_bit_from 0 bitmap"

section \<open>Deleting and truncating\<close>

text \<open>The loop clears the bit of the index, not of the block the index names.\<close>

function draft_clear_direct :: "u16 list \<Rightarrow> nat \<Rightarrow> u8 list \<Rightarrow> u8 list option" where
  "draft_clear_direct ds i bm =
    (if i < NUM_DIRECT_BLOCKS then do {
       b \<leftarrow> nth_opt ds i;
       bm \<leftarrow> (if b \<noteq> 0 then clear_bit (of_nat i) bm else Some bm);
       draft_clear_direct ds (Suc i) bm }
     else Some bm)"
  by pat_completeness auto
termination
  by (relation "measure (\<lambda>(ds, i, bm). NUM_DIRECT_BLOCKS - i)") auto

declare draft_clear_direct.simps [simp del]

definition draft_delete_blocks :: "'d disk_ops \<Rightarrow> inode \<Rightarrow> 'd fs \<Rightarrow> (bool \<times> 'd fs) option" where
  "draft_delete_blocks D n s = do {
     bm \<leftarrow> draft_clear_direct (direct_block n) 0 (blocks_bitmap s);
     let s = s\<lparr>blocks_bitmap := bm\<rparr>;
     if single_indirect_block n \<noteq> 0 \<and> unat (single_indirect_block n) < DISK_BLOCKS
     then clear_indirect D n s else Some (True, s) }"

definition draft_fs_delete :: "'d disk_ops \<Rightarrow> u8 list \<Rightarrow> 'd fs \<Rightarrow> (int \<times> 'd fs) option" where
  "draft_fs_delete D name s =
    (case find_idx (\<lambda>e. strcmp_eq (de_name e) name) (dir_table s) 0 of
       None \<Rightarrow> Some (- 1, s)
     | Some dentry_idx \<Rightarrow>
       if list_ex fd_is_used (fd_table s) then Some (- 1, s) else
       let inode_idx = unat (de_inode_number (dir_table s ! dentry_idx)) in
       if inode_idx > MAX_NUM_FILES - 1 then Some (- 1, s) else do {
       n \<leftarrow> nth_opt (inode_table s) inode_idx;
       (ok, s) \<leftarrow> draft_delete_blocks D n s;
       if \<not> ok then Some (- 1, s) else do {
       ib \<leftarrow> clear_bit (of_nat inode_idx) (inodes_bitmap s);
       Some (0, s\<lparr>inode_table := (inode_table s)[inode_idx := n\<lparr>
                     direct_block := replicate NUM_DIRECT_BLOCKS 0, single_indirect_block := 0,
                     file_size := 0, file_type := 0\<rparr>],
                   inodes_bitmap := ib,
                   dir_table := (dir_table s)[dentry_idx := empty_dentry]\<rparr>) }})"

function draft_truncate_direct :: "u16 list \<Rightarrow> nat \<Rightarrow> u8 list \<Rightarrow> (nat \<times> u8 list) option" where
  "draft_truncate_direct ds i bm =
    (if i < NUM_DIRECT_BLOCKS then do {
       b \<leftarrow> nth_opt ds i;
       if b \<noteq> 0 then do { bm \<leftarrow> clear_bit (of_nat i) bm; draft_truncate_direct ds (Suc i) bm } else Some (i, bm) }
     else Some (i, bm))"
  by pat_completeness auto
termination
  by (relation "measure (\<lambda>(ds, i, bm). NUM_DIRECT_BLOCKS - i)") auto

declare draft_truncate_direct.simps [simp del]

definition draft_truncate_blocks :: "'d disk_ops \<Rightarrow> inode \<Rightarrow> nat \<Rightarrow> 'd fs \<Rightarrow> (bool \<times> 'd fs) option" where
  "draft_truncate_blocks D n len s = do {
     (starting_block, bm) \<leftarrow> draft_truncate_direct (direct_block n) (ceil_blocks len mod 2 ^ 16) (blocks_bitmap s);
     let s = s\<lparr>blocks_bitmap := bm\<rparr>;
     if single_indirect_block n \<noteq> 0 \<and> unat (single_indirect_block n) < DISK_BLOCKS
        \<and> starting_block \<ge> NUM_DIRECT_BLOCKS
     then clear_indirect D n s else Some (True, s) }"

definition draft_fs_truncate :: "'d disk_ops \<Rightarrow> int \<Rightarrow> int \<Rightarrow> 'd fs \<Rightarrow> (int \<times> 'd fs) option" where
  "draft_fs_truncate D fildes len s =
    (if fildes < 0 \<or> fildes > int MAX_NUM_FD - 1 then Some (- 1, s) else do {
     f \<leftarrow> nth_opt (fd_table s) (nat fildes);
     if \<not> fd_is_used f then Some (- 1, s) else do {
     n \<leftarrow> nth_opt (inode_table s) (unat (fd_inode_number f));
     if len < 0 \<or> len > int (unat (file_size n)) then Some (- 1, s)
     else if len = int (unat (file_size n)) then Some (0, s)
     else do {
     (ok, s) \<leftarrow> draft_truncate_blocks D n (nat len) s;
     if \<not> ok then Some (- 1, s) else
     Some (0, s\<lparr>inode_table := (inode_table s)[unat (fd_inode_number f) := n\<lparr>file_size := word_of_int len\<rparr>],
                 fd_table := (if int (fd_offset f) > len
                    then (fd_table s)[nat fildes := f\<lparr>fd_offset := nat len\<rparr>] else fd_table s)\<rparr>) }}})"

section \<open>Reading\<close>

text \<open>Lines 450-457 (and 477-484): one block, always from its beginning.\<close>

definition draft_read_copy :: "nat \<Rightarrow> nat \<Rightarrow> u8 list \<Rightarrow> u8 list \<Rightarrow> (nat \<times> u8 list) option" where
  "draft_read_copy nbyte bytes_read read_block buf =
    (if usub nbyte bytes_read < BLOCK_SIZE then do {
       bs \<leftarrow> mem_read read_block 0 (usub nbyte bytes_read);
       buf \<leftarrow> mem_write buf bytes_read bs;
       Some (nbyte, buf) }
     else do {
       bs \<leftarrow> mem_read read_block 0 BLOCK_SIZE;
       buf \<leftarrow> mem_write buf bytes_read bs;
       Some (bytes_read + BLOCK_SIZE, buf) })"

text \<open>Both loops: the blocks named by \<open>ps\<close> from index \<open>i\<close> up to \<open>lim\<close>, unused ones skipped.\<close>

function draft_read_blocks :: "'d disk_ops \<Rightarrow> 'd fs \<Rightarrow> u16 list \<Rightarrow> nat \<Rightarrow> nat \<Rightarrow> nat \<Rightarrow> nat \<Rightarrow> u8 list
    \<Rightarrow> ((int \<times> u8 list) + (nat \<times> u8 list)) option" where
  "draft_read_blocks D s ps nbyte lim i bytes_read buf =
    (if i < lim then do {
       b \<leftarrow> nth_opt ps i;
       if b \<noteq> 0 then
         let (rc, block) = dev_read D b s in
         if rc \<noteq> 0 then Some (Inl (- 1, buf)) else do {
         (br, buf) \<leftarrow> draft_read_copy nbyte bytes_read block buf;
         draft_read_blocks D s ps nbyte lim (Suc i) br buf }
       else draft_read_blocks D s ps nbyte lim (Suc i) bytes_read buf }
     else Some (Inr (bytes_read, buf)))"
  by pat_completeness auto
termination
  by (relation "measure (\<lambda>(D, s, ps, nbyte, lim, i, bytes_read, buf). lim - i)") auto

declare draft_read_blocks.simps [simp del]

definition draft_read_rest :: "'d disk_ops \<Rightarrow> 'd fs \<Rightarrow> inode \<Rightarrow> nat \<Rightarrow> nat \<Rightarrow> u8 list
    \<Rightarrow> ((int \<times> u8 list) + (nat \<times> u8 list)) option" where
  "draft_read_rest D s n nbyte bytes_read buf =
    (if usub nbyte bytes_read > 0 \<and> single_indirect_block n \<noteq> 0 then
       let (rc, block) = dev_read D (single_indirect_block n) s in
       if rc \<noteq> 0 then Some (Inl (- 1, buf)) else do {
       raw \<leftarrow> mem_read block 0 BLOCK_SIZE;
       let blocks_needed = ceil_blocks (usub nbyte bytes_read) mod 2 ^ 16;
       draft_read_blocks D s (dec16s 2048 raw) nbyte blocks_needed 0 bytes_read buf }
     else Some (Inr (bytes_read, buf)))"

definition draft_read_body :: "'d disk_ops \<Rightarrow> int \<Rightarrow> inode \<Rightarrow> nat \<Rightarrow> nat \<Rightarrow> u8 list \<Rightarrow> 'd fs \<Rightarrow> (int \<times> u8 list \<times> 'd fs) option" where
  "draft_read_body D fildes n cursor nbyte buf s = do {
     r \<leftarrow> (if cursor div BLOCK_SIZE < NUM_DIRECT_BLOCKS
           then draft_read_blocks D s (direct_block n) nbyte NUM_DIRECT_BLOCKS (cursor div BLOCK_SIZE) 0 buf
           else Some (Inr (0, buf)));
     (case r of Inl (rc, buf) \<Rightarrow> Some (rc, buf, s) | Inr (bytes_read, buf) \<Rightarrow> do {
       r \<leftarrow> draft_read_rest D s n nbyte bytes_read buf;
       (case r of Inl (rc, buf) \<Rightarrow> Some (rc, buf, s) | Inr (bytes_read, buf) \<Rightarrow> do {
         cursor \<leftarrow> to_int (cursor + bytes_read);
         Some (int bytes_read, buf, s\<lparr>fd_table := (fd_table s)[nat fildes :=
           (fd_table s ! nat fildes)\<lparr>fd_offset := cursor\<rparr>]\<rparr>) }) }) }"

definition draft_fs_read :: "'d disk_ops \<Rightarrow> int \<Rightarrow> u8 list \<Rightarrow> nat \<Rightarrow> 'd fs \<Rightarrow> (int \<times> u8 list \<times> 'd fs) option" where
  "draft_fs_read D fildes buf nbyte0 s =
    (if fildes < 0 \<or> fildes > int MAX_NUM_FD - 1 then Some (- 1, buf, s) else do {
     f \<leftarrow> nth_opt (fd_table s) (nat fildes);
     if \<not> fd_is_used f then Some (- 1, buf, s) else do {
     let nbyte = (if nbyte0 > MAX_FILE_SIZE then MAX_FILE_SIZE else nbyte0);
     n \<leftarrow> nth_opt (inode_table s) (unat (fd_inode_number f));
     draft_read_body D fildes n (fd_offset f) nbyte buf s }})"

section \<open>Writing\<close>

text \<open>
  The statements before every regular return (lines 536-539, 588-591, 607-610 and 666-669); the size
  grows by the bytes written, wherever the offset is.
\<close>

definition draft_write_done :: "int \<Rightarrow> nat \<Rightarrow> nat \<Rightarrow> nat \<Rightarrow> 'd fs \<Rightarrow> (int \<times> 'd fs) option" where
  "draft_write_done fildes inode_idx cursor bytes_written s = do {
     cursor \<leftarrow> to_int (cursor + bytes_written);
     n \<leftarrow> nth_opt (inode_table s) inode_idx;
     f \<leftarrow> nth_opt (fd_table s) (nat fildes);
     Some (int bytes_written,
       s\<lparr>inode_table := (inode_table s)[inode_idx := n\<lparr>file_size := file_size n + of_nat bytes_written\<rparr>],
         fd_table := (fd_table s)[nat fildes := f\<lparr>fd_offset := cursor\<rparr>]\<rparr>) }"

text \<open>Lines 526-568. A block that is found free is never marked.\<close>

function draft_write_direct :: "'d disk_ops \<Rightarrow> int \<Rightarrow> nat \<Rightarrow> nat \<Rightarrow> nat \<Rightarrow> u8 list \<Rightarrow> nat \<Rightarrow> nat \<Rightarrow> 'd fs
    \<Rightarrow> ((int + nat) \<times> 'd fs) option" where
  "draft_write_direct D fildes inode_idx cursor nbyte buf bytes_written i s =
    (if bytes_written < nbyte \<and> i < NUM_DIRECT_BLOCKS then do {
       n \<leftarrow> nth_opt (inode_table s) inode_idx;
       b \<leftarrow> nth_opt (direct_block n) i;
       if b \<noteq> 0 then draft_write_direct D fildes inode_idx cursor nbyte buf bytes_written (Suc i) s
       else do {
       free_block \<leftarrow> draft_find_free_bit (blocks_bitmap s);
       if free_block = 0 then do {
         (rc, s) \<leftarrow> draft_write_done fildes inode_idx cursor bytes_written s; Some (Inl rc, s) }
       else do {
       (r, s) \<leftarrow> write_out D free_block (usub nbyte bytes_written \<ge> BLOCK_SIZE) nbyte buf bytes_written s;
       (case r of
          Inl rc \<Rightarrow> Some (Inl rc, s)
        | Inr bw \<Rightarrow> draft_write_direct D fildes inode_idx cursor nbyte buf bw (Suc i)
            (s\<lparr>inode_table := (inode_table s)[inode_idx := n\<lparr>direct_block := (direct_block n)[i := free_block]\<rparr>]\<rparr>)) } } }
     else Some (Inr bytes_written, s))"
  by pat_completeness auto
termination
  by (relation "measure (\<lambda>(D, fildes, inode_idx, cursor, nbyte, buf, bytes_written, i, s). NUM_DIRECT_BLOCKS - i)") auto

declare draft_write_direct.simps [simp del]

text \<open>Lines 574-595: the indirect block, its first unused entry and its number.\<close>

definition draft_indirect_for_write :: "'d disk_ops \<Rightarrow> int \<Rightarrow> nat \<Rightarrow> nat \<Rightarrow> nat \<Rightarrow> 'd fs
    \<Rightarrow> ((int + (u16 list \<times> nat \<times> u16)) \<times> 'd fs) option" where
  "draft_indirect_for_write D fildes inode_idx cursor bytes_written s = do {
     n \<leftarrow> nth_opt (inode_table s) inode_idx;
     if single_indirect_block n \<noteq> 0 then
       let (rc, block) = dev_read D (single_indirect_block n) s in
       if rc \<noteq> 0 then Some (Inl (- 1), s) else do {
       raw \<leftarrow> mem_read block 0 BLOCK_SIZE;
       let ind_block = dec16s 2048 raw;
       Some (Inr (ind_block, case find_idx (\<lambda>b. b = 0) ind_block 0 of Some i \<Rightarrow> i | None \<Rightarrow> BLOCK_SIZE div 2,
         single_indirect_block n), s) }
     else do {
       free_block \<leftarrow> draft_find_free_bit (blocks_bitmap s);
       if free_block = 0 then do {
         (rc, s) \<leftarrow> draft_write_done fildes inode_idx cursor bytes_written s; Some (Inl rc, s) }
       else Some (Inr (replicate 2048 0, 0, free_block),
         s\<lparr>inode_table := (inode_table s)[inode_idx := n\<lparr>single_indirect_block := free_block\<rparr>]\<rparr>) } }"

text \<open>Lines 602-636.\<close>

function draft_write_indirect :: "'d disk_ops \<Rightarrow> int \<Rightarrow> nat \<Rightarrow> nat \<Rightarrow> nat \<Rightarrow> u8 list \<Rightarrow> nat \<Rightarrow> nat \<Rightarrow> nat \<Rightarrow> u16 list \<Rightarrow> 'd fs
    \<Rightarrow> ((int + (nat \<times> u16 list)) \<times> 'd fs) option" where
  "draft_write_indirect D fildes inode_idx cursor nbyte buf blocks_needed i bytes_written ind_block s =
    (if i < blocks_needed then do {
       free_block \<leftarrow> draft_find_free_bit (blocks_bitmap s);
       if free_block = 0 then do {
         (rc, s) \<leftarrow> draft_write_done fildes inode_idx cursor bytes_written s; Some (Inl rc, s) }
       else do {
       (r, s) \<leftarrow> write_out D free_block (\<not> (int i = int blocks_needed - 1 \<and> usub nbyte bytes_written < BLOCK_SIZE))
          nbyte buf bytes_written s;
       (case r of
          Inl rc \<Rightarrow> Some (Inl rc, s)
        | Inr bw \<Rightarrow> do {
            ind_block \<leftarrow> upd_opt ind_block i free_block;
            draft_write_indirect D fildes inode_idx cursor nbyte buf blocks_needed (Suc i) bw ind_block s }) } }
     else Some (Inr (bytes_written, ind_block), s))"
  by pat_completeness auto
termination
  by (relation "measure (\<lambda>(D, fildes, inode_idx, cursor, nbyte, buf, blocks_needed, i, bytes_written, ind_block, s).
       blocks_needed - i)") auto

declare draft_write_indirect.simps [simp del]

definition draft_write_rest :: "'d disk_ops \<Rightarrow> int \<Rightarrow> nat \<Rightarrow> nat \<Rightarrow> nat \<Rightarrow> u8 list \<Rightarrow> nat \<Rightarrow> 'd fs
    \<Rightarrow> ((int + nat) \<times> 'd fs) option" where
  "draft_write_rest D fildes inode_idx cursor nbyte buf bytes_written s =
    (if usub nbyte bytes_written > 0 then do {
       (r, s) \<leftarrow> draft_indirect_for_write D fildes inode_idx cursor bytes_written s;
       (case r of
          Inl rc \<Rightarrow> Some (Inl rc, s)
        | Inr (ind_block, ind_block_idx, sib) \<Rightarrow> do {
            let blocks_needed = ceil_blocks (usub nbyte bytes_written) mod 2 ^ 16;
            (r, s) \<leftarrow> draft_write_indirect D fildes inode_idx cursor nbyte buf blocks_needed ind_block_idx
              bytes_written ind_block s;
            (case r of
               Inl rc \<Rightarrow> Some (Inl rc, s)
             | Inr (bw, ind_block) \<Rightarrow>
                 let (rc, s) = dev_write D sib (enc16s ind_block) s in
                 if rc \<noteq> 0 then Some (Inl (- 1), s) else Some (Inr bw, s)) }) }
     else Some (Inr bytes_written, s))"

definition draft_write_body :: "'d disk_ops \<Rightarrow> int \<Rightarrow> nat \<Rightarrow> nat \<Rightarrow> nat \<Rightarrow> u8 list \<Rightarrow> 'd fs \<Rightarrow> (int \<times> 'd fs) option" where
  "draft_write_body D fildes inode_idx cursor nbyte buf s = do {
     (r, s) \<leftarrow> draft_write_direct D fildes inode_idx cursor nbyte buf 0 0 s;
     (case r of
        Inl rc \<Rightarrow> Some (rc, s)
      | Inr bytes_written \<Rightarrow> do {
          (r, s) \<leftarrow> draft_write_rest D fildes inode_idx cursor nbyte buf bytes_written s;
          (case r of
             Inl rc \<Rightarrow> Some (rc, s)
           | Inr bytes_written \<Rightarrow>
               if bytes_written \<noteq> nbyte then Some (- 1, s)
               else draft_write_done fildes inode_idx cursor bytes_written s) }) }"

text \<open>The limit is computed from the size of the file, in 32 bits.\<close>

definition draft_fs_write :: "'d disk_ops \<Rightarrow> int \<Rightarrow> u8 list \<Rightarrow> nat \<Rightarrow> 'd fs \<Rightarrow> (int \<times> 'd fs) option" where
  "draft_fs_write D fildes buf nbyte0 s =
    (if fildes < 0 \<or> fildes > int MAX_NUM_FD - 1 then Some (- 1, s) else do {
     f \<leftarrow> nth_opt (fd_table s) (nat fildes);
     if \<not> fd_is_used f then Some (- 1, s) else
     let inode_idx = unat (fd_inode_number f) in
     if inode_idx > MAX_NUM_FILES - 1 then Some (- 1, s) else do {
     n \<leftarrow> nth_opt (inode_table s) inode_idx;
     let nbyte = (if (unat (file_size n) + nbyte0) mod 2 ^ 64 > MAX_FILE_SIZE
                  then unat (of_nat MAX_FILE_SIZE - file_size n) else nbyte0);
     draft_write_body D fildes inode_idx (fd_offset f) nbyte buf s }})"

end
