(* ===== verification/Draft_Props.thy ===== *)
theory Draft_Props
  imports Draft_Fs Fs_Example
begin

text \<open>
  What the earlier file system of \<^verbatim>\<open>disk.c\<close> does, compared with that of \<^verbatim>\<open>fs.c\<close>.
\<close>

section \<open>Searching for a block\<close>

lemma draft_get_bit_eq: "draft_get_bit k bm = map_option (\<lambda>b. b \<noteq> 0) (get_bit k bm)"
  by (cases "nth_opt bm (unat k div 8)") (simp_all add: draft_get_bit_def get_bit_def)

lemma draft_find_eq_find:
  assumes "8 * length bm = DISK_BLOCKS" and "find_free_bit_from i bm = Some k" and "i \<le> 64"
  shows "draft_find_free_bit_from i bm = Some (if unat k < 64 then k else 0)"
  using assms(2,3)
proof (induction "64 - i" arbitrary: i)
  case 0
  then have i: "i = 64" by simp
  have "unat k \<ge> 64 \<or> k = 0"
    using find_free_bit_from_spec [OF assms(1), of 64] 0(2) by (auto simp: i)
  then show ?case using i by (subst draft_find_free_bit_from.simps) (auto simp: sizeof_ptr_def)
next
  case (Suc m)
  then have i: "i < 64" "i < DISK_BLOCKS" by (auto simp: DISK_BLOCKS_def)
  have u: "unat (of_nat i :: u16) = i" using i by simp
  then have g: "get_bit (of_nat i) bm = Some (of_bool (i \<in> bitset bm))"
    using get_bit_in [of "of_nat i" bm] assms(1) i by simp
  show ?case
  proof (cases "i \<in> bitset bm")
    case True
    then have "find_free_bit_from (Suc i) bm = Some k"
      using Suc.prems(1) i g by (subst (asm) find_free_bit_from.simps) simp
    then have "draft_find_free_bit_from (Suc i) bm = Some (if unat k < 64 then k else 0)"
      using Suc.hyps i by (intro Suc.hyps(1)) auto
    then show ?thesis using True g i by (subst draft_find_free_bit_from.simps) (simp add: draft_get_bit_eq sizeof_ptr_def)
  next
    case False
    then have "k = of_nat i" using Suc.prems(1) i g by (subst (asm) find_free_bit_from.simps) simp
    then show ?thesis using False g i u by (subst draft_find_free_bit_from.simps) (simp add: draft_get_bit_eq sizeof_ptr_def)
  qed
qed

text \<open>The search of the draft sees the first 64 blocks only.\<close>

lemma draft_find_free_bit_64:
  assumes "8 * length bm = DISK_BLOCKS" and "find_free_bit bm = Some k"
  shows "draft_find_free_bit bm = Some (if unat k < 64 then k else 0)"
  using draft_find_eq_find [OF assms(1), of 0 k] assms(2) by (simp add: find_free_bit_def draft_find_free_bit_def)

section \<open>Deleting\<close>

text \<open>The loop of \<open>fs_delete\<close> clears the bits of the indices, which are those of the metadata and first data blocks.\<close>

lemma draft_clear_direct_spec:
  assumes "length ds = NUM_DIRECT_BLOCKS" and "NUM_DIRECT_BLOCKS \<le> 8 * length bm"
  shows "\<exists>bm'. draft_clear_direct ds i bm = Some bm' \<and> length bm' = length bm \<and>
    bitset bm' = bitset bm - {k. i \<le> k \<and> k < NUM_DIRECT_BLOCKS \<and> ds ! k \<noteq> 0}"
  using assms(2)
proof (induction "NUM_DIRECT_BLOCKS - i" arbitrary: i bm)
  case 0
  then show ?case by (subst draft_clear_direct.simps) auto
next
  case (Suc m)
  then have i: "i < NUM_DIRECT_BLOCKS" by simp
  have u: "unat (of_nat i :: u16) = i" using i by (simp add: NUM_DIRECT_BLOCKS_def)
  obtain bm1 where b: "(if ds ! i \<noteq> 0 then clear_bit (of_nat i) bm else Some bm) = Some bm1" "length bm1 = length bm"
    "bitset bm1 = bitset bm - {k. k = i \<and> ds ! i \<noteq> 0}"
    using clear_bit_in [of "of_nat i" bm] u i Suc.prems by (cases "ds ! i = 0") auto
  have "m = NUM_DIRECT_BLOCKS - Suc i" using Suc.hyps(2) by simp
  from Suc.hyps(1) [OF this, of bm1] Suc.prems b(2) obtain bm' where
    ih: "draft_clear_direct ds (Suc i) bm1 = Some bm'" "length bm' = length bm"
      "bitset bm' = bitset bm1 - {k. Suc i \<le> k \<and> k < NUM_DIRECT_BLOCKS \<and> ds ! k \<noteq> 0}" by auto
  have "draft_clear_direct ds i bm = Some bm'"
    using i b(1) ih(1) assms(1) by (subst draft_clear_direct.simps) (simp add: nth_opt_in)
  moreover have "{k. i \<le> k \<and> k < NUM_DIRECT_BLOCKS \<and> ds ! k \<noteq> 0} =
      {k. k = i \<and> ds ! i \<noteq> 0} \<union> {k. Suc i \<le> k \<and> k < NUM_DIRECT_BLOCKS \<and> ds ! k \<noteq> 0}"
    using i by (auto simp: Suc_le_eq le_less)
  ultimately show ?case using ih(2,3) b(3) by auto
qed

lemma draft_delete_frees_metadata:
  assumes "fs_typed s" and "i < MAX_NUM_FILES" and "single_indirect_block (inode_table s ! i) = 0"
  shows "\<exists>bm. draft_delete_blocks D (inode_table s ! i) s = Some (True, s\<lparr>blocks_bitmap := bm\<rparr>) \<and>
    bitset bm = bitset (blocks_bitmap s) - {k. k < NUM_DIRECT_BLOCKS \<and> direct_block (inode_table s ! i) ! k \<noteq> 0}"
proof -
  have "length (direct_block (inode_table s ! i)) = NUM_DIRECT_BLOCKS"
    using fs_typedD(6) [OF assms(1), of i] assms(2) by (simp add: inode_ok_def MAX_NUM_FILES_def)
  then show ?thesis
    using draft_clear_direct_spec [of "direct_block (inode_table s ! i)" "blocks_bitmap s" 0] fs_typedD(4) [OF assms(1)] assms(3)
    by (auto simp: draft_delete_blocks_def NUM_DIRECT_BLOCKS_def)
qed

section \<open>Writing a file that is empty\<close>

text \<open>The pointers of a file after \<open>j\<close> of its blocks were written: the same block each time.\<close>

definition same_ptrs :: "u16 \<Rightarrow> nat \<Rightarrow> u16 list" where
  "same_ptrs k j = replicate j k @ replicate (NUM_DIRECT_BLOCKS - j) 0"

lemma length_same_ptrs [simp]: "j \<le> NUM_DIRECT_BLOCKS \<Longrightarrow> length (same_ptrs k j) = NUM_DIRECT_BLOCKS"
  by (simp add: same_ptrs_def)

lemma same_ptrs_nth: "i < NUM_DIRECT_BLOCKS \<Longrightarrow> same_ptrs k j ! i = (if i < j then k else 0)"
  by (auto simp: same_ptrs_def nth_append)

lemma same_ptrs_step:
  assumes "j < NUM_DIRECT_BLOCKS"
  shows "(same_ptrs k j)[j := k] = same_ptrs k (Suc j)"
  by (rule nth_equalityI) (use assms in \<open>auto simp: same_ptrs_nth nth_list_update\<close>)

section \<open>The bitmap\<close>

text \<open>No write, of whatever size and to whatever file, changes the block bitmap.\<close>

definition same_bitmap :: "'d fs \<Rightarrow> ('r \<times> 'd fs) option \<Rightarrow> bool" where
  "same_bitmap s m \<longleftrightarrow> ensures (\<lambda>(r, s'). blocks_bitmap s' = blocks_bitmap s) m"

lemma same_bitmapD: "same_bitmap s m \<Longrightarrow> m = Some (r, s') \<Longrightarrow> blocks_bitmap s' = blocks_bitmap s"
  by (simp add: same_bitmap_def ensures_def)

lemma same_bitmap_intros:
  "blocks_bitmap t = blocks_bitmap s \<Longrightarrow> same_bitmap s (Some (r, t))"
  "(\<And>z. n = Some z \<Longrightarrow> same_bitmap s (f z)) \<Longrightarrow> same_bitmap s (Option.bind n f)"
  "(b \<Longrightarrow> same_bitmap s m) \<Longrightarrow> (\<not> b \<Longrightarrow> same_bitmap s m') \<Longrightarrow> same_bitmap s (if b then m else m')"
  "(\<And>a b. x = (a, b) \<Longrightarrow> same_bitmap s (g a b)) \<Longrightarrow> same_bitmap s (case x of (a, b) \<Rightarrow> g a b)"
  "(\<And>a. y = Inl a \<Longrightarrow> same_bitmap s (h a)) \<Longrightarrow> (\<And>b. y = Inr b \<Longrightarrow> same_bitmap s (k b)) \<Longrightarrow>
    same_bitmap s (case y of Inl a \<Rightarrow> h a | Inr b \<Rightarrow> k b)"
  unfolding same_bitmap_def by (auto intro: ensures_intros split: sum.split)

lemma same_bitmap_from: "same_bitmap t m \<Longrightarrow> blocks_bitmap t = blocks_bitmap s \<Longrightarrow> same_bitmap s m"
  by (simp add: same_bitmap_def)

lemma dev_write_bitmap: "dev_write D b bs s = (rc, s') \<Longrightarrow> blocks_bitmap s' = blocks_bitmap s"
  by (auto simp: dev_write_def split: prod.splits)

lemma draft_done_bitmap: "same_bitmap s (draft_write_done fd i c bw s)"
  unfolding draft_write_done_def by (intro same_bitmap_intros) simp

lemma write_out_bitmap: "same_bitmap s (write_out D b w nbyte buf bw s)"
  unfolding write_out_def Let_def by (intro same_bitmap_intros) (auto dest: dev_write_bitmap)

lemmas draft_bitmap = draft_done_bitmap [THEN same_bitmapD] write_out_bitmap [THEN same_bitmapD] dev_write_bitmap

lemma draft_direct_bitmap: "same_bitmap s (draft_write_direct D fd i c nbyte buf bw j s)"
proof (induction "NUM_DIRECT_BLOCKS - j" arbitrary: j bw s rule: less_induct)
  case less
  have IH: "same_bitmap s (draft_write_direct D fd i c nbyte buf bw' (Suc j) t)"
    if "bw < nbyte \<and> j < NUM_DIRECT_BLOCKS" "blocks_bitmap t = blocks_bitmap s" for bw' t
    by (rule same_bitmap_from [OF less.hyps that(2)]) (use that(1) in linarith)
  show ?case
    by (subst draft_write_direct.simps) (intro same_bitmap_intros IH; auto dest!: draft_bitmap)
qed

lemma draft_indirect_bitmap: "same_bitmap s (draft_write_indirect D fd i c nbyte buf m j bw ps s)"
proof (induction "m - j" arbitrary: j bw ps s rule: less_induct)
  case less
  have IH: "same_bitmap s (draft_write_indirect D fd i c nbyte buf m (Suc j) bw' ps' t)"
    if "j < m" "blocks_bitmap t = blocks_bitmap s" for bw' ps' t
    by (rule same_bitmap_from [OF less.hyps that(2)]) (use that(1) in linarith)
  show ?case
    by (subst draft_write_indirect.simps) (intro same_bitmap_intros IH; auto dest!: draft_bitmap)
qed

lemma draft_indirect_for_write_bitmap: "same_bitmap s (draft_indirect_for_write D fd i c bw s)"
  unfolding draft_indirect_for_write_def Let_def by (intro same_bitmap_intros) (auto dest!: draft_bitmap)

lemma draft_rest_bitmap: "same_bitmap s (draft_write_rest D fd i c nbyte buf bw s)"
  unfolding draft_write_rest_def Let_def
  by (intro same_bitmap_intros; auto dest!: draft_bitmap draft_indirect_for_write_bitmap [THEN same_bitmapD]
      draft_indirect_bitmap [THEN same_bitmapD])

lemma draft_fs_write_bitmap: "same_bitmap s (draft_fs_write D fd buf nbyte s)"
  unfolding draft_fs_write_def draft_write_body_def Let_def
  by (intro same_bitmap_intros same_bitmap_from [OF draft_done_bitmap]; auto dest!: draft_bitmap
      draft_direct_bitmap [THEN same_bitmapD] draft_rest_bitmap [THEN same_bitmapD])

context disk_dev
begin

lemma draft_write_direct_loop:
  assumes "mounted_on current img s nm B" and "i < length (inode_table s)" and "nbyte \<le> length buf" "nbyte < 2 ^ 64"
    and "draft_find_free_bit (blocks_bitmap s) = Some k" "k \<noteq> 0" "unat k < DISK_BLOCKS"
    and "ceil_blocks nbyte \<le> NUM_DIRECT_BLOCKS" "j * BLOCK_SIZE < nbyte"
    and "direct_block (inode_table s ! i) = same_ptrs k j"
  shows "\<exists>d. draft_write_direct D fd i cursor nbyte buf (j * BLOCK_SIZE) j s =
      Some (Inr nbyte, upd_file s i (same_ptrs k (ceil_blocks nbyte)) (blocks_bitmap s) d) \<and>
    mounted_on current img (s\<lparr>disk := d\<rparr>) nm (B(unat k := fit (drop ((ceil_blocks nbyte - 1) * BLOCK_SIZE) (take nbyte buf))))"
  using assms(1,2,5,9,10)
proof (induction "NUM_DIRECT_BLOCKS - j" arbitrary: j s B)
  case 0
  then show ?case using assms(8) ceil_blocks_less [of j nbyte] by simp
next
  case (Suc m)
  have j: "j < NUM_DIRECT_BLOCKS" using Suc.hyps(2) by simp
  obtain d1 where d1: "write_out D k (BLOCK_SIZE \<le> nbyte - j * BLOCK_SIZE) nbyte buf (j * BLOCK_SIZE) s =
      Some (Inr (min nbyte (Suc j * BLOCK_SIZE)), s\<lparr>disk := d1\<rparr>)"
    "mounted_on current img (s\<lparr>disk := d1\<rparr>) nm (B(unat k := fit (drop (j * BLOCK_SIZE) (take nbyte buf))))"
    using write_out_ok [OF Suc.prems(1) assms(7) Suc.prems(4) assms(3,4) refl] by (auto simp: add.commute)
  define s1 where "s1 = upd_file s i (same_ptrs k (Suc j)) (blocks_bitmap s) d1"
  have step: "draft_write_direct D fd i cursor nbyte buf (j * BLOCK_SIZE) j s =
      draft_write_direct D fd i cursor nbyte buf (min nbyte (Suc j * BLOCK_SIZE)) (Suc j) s1"
    using j Suc.prems assms(4,6) d1(1)
    by (subst draft_write_direct.simps) (simp add: nth_opt_in same_ptrs_nth usub_le same_ptrs_step s1_def upd_file_def)
  have m1: "mounted_on current img s1 nm (B(unat k := fit (drop (j * BLOCK_SIZE) (take nbyte buf))))"
    using d1(2) by (simp add: s1_def upd_file_def mounted_on_def)
  show ?case
  proof (cases "Suc j * BLOCK_SIZE < nbyte")
    case True
    have "m = NUM_DIRECT_BLOCKS - Suc j" using Suc.hyps(2) by simp
    from Suc.hyps(1) [OF this m1 _ _ True] Suc.prems obtain d where
      "draft_write_direct D fd i cursor nbyte buf (Suc j * BLOCK_SIZE) (Suc j) s1 =
        Some (Inr nbyte, upd_file s1 i (same_ptrs k (ceil_blocks nbyte)) (blocks_bitmap s1) d)"
      "mounted_on current img (s1\<lparr>disk := d\<rparr>) nm (B(unat k := fit (drop ((ceil_blocks nbyte - 1) * BLOCK_SIZE) (take nbyte buf))))"
      by (auto simp: s1_def)
    then show ?thesis using step True Suc.prems(2)
      by (intro exI [of _ d]) (simp add: min_def s1_def mounted_on_def)
  next
    case False
    then have c: "ceil_blocks nbyte = Suc j" using ceil_blocks_eq Suc.prems(4) by simp
    have "draft_write_direct D fd i cursor nbyte buf (min nbyte (Suc j * BLOCK_SIZE)) (Suc j) s1 = Some (Inr nbyte, s1)"
      using False by (subst draft_write_direct.simps) (simp add: min_def)
    then show ?thesis using step d1(2) c by (intro exI [of _ d1]) (simp add: s1_def)
  qed
qed

text \<open>The file system after writing \<open>nbyte\<close> bytes to a file that has no blocks.\<close>

lemma draft_fs_write_empty:
  assumes m: "mounted_on current img s nm B" and t: "fs_typed s" and o: "open_file s fd i cursor"
    and n: "direct_block (inode_table s ! i) = replicate NUM_DIRECT_BLOCKS 0" "file_size (inode_table s ! i) = 0"
    and nb: "0 < nbyte" "nbyte \<le> NUM_DIRECT_BLOCKS * BLOCK_SIZE" "nbyte \<le> length buf" "cursor + nbyte < 2 ^ 31"
    and k: "draft_find_free_bit (blocks_bitmap s) = Some k" "k \<noteq> 0" "unat k < DISK_BLOCKS"
  shows "\<exists>d. draft_fs_write D fd buf nbyte s = Some (int nbyte, s\<lparr>disk := d,
        inode_table := (inode_table s)[i := (inode_table s ! i)\<lparr>direct_block := same_ptrs k (ceil_blocks nbyte), file_size := of_nat nbyte\<rparr>],
        fd_table := (fd_table s)[nat fd := (fd_table s ! nat fd)\<lparr>fd_offset := cursor + nbyte\<rparr>]\<rparr>) \<and>
    mounted_on current img (s\<lparr>disk := d\<rparr>) nm (B(unat k := fit (drop ((ceil_blocks nbyte - 1) * BLOCK_SIZE) (take nbyte buf))))"
proof -
  note f = open_fileD [OF t o]
  have lt: "nbyte < 2 ^ 64" "nbyte \<le> MAX_FILE_SIZE" using nb(2) by (simp_all add: c_consts)
  have c: "ceil_blocks nbyte \<le> NUM_DIRECT_BLOCKS" using nb(2) by (simp add: ceil_blocks_le_iff)
  have p: "direct_block (inode_table s ! i) = same_ptrs k 0" using n(1) by (simp add: same_ptrs_def)
  obtain d where d: "draft_write_direct D fd i cursor nbyte buf 0 0 s =
      Some (Inr nbyte, upd_file s i (same_ptrs k (ceil_blocks nbyte)) (blocks_bitmap s) d)"
    "mounted_on current img (s\<lparr>disk := d\<rparr>) nm (B(unat k := fit (drop ((ceil_blocks nbyte - 1) * BLOCK_SIZE) (take nbyte buf))))"
    using draft_write_direct_loop [OF m f(4) nb(3) lt(1) k c _ p] nb(1) by auto
  have "draft_write_body D fd i cursor nbyte buf s =
      draft_write_done fd i cursor nbyte (upd_file s i (same_ptrs k (ceil_blocks nbyte)) (blocks_bitmap s) d)"
    using lt(1) unfolding draft_write_body_def by (simp add: d(1) draft_write_rest_def usub_le)
  then have "draft_fs_write D fd buf nbyte s =
      draft_write_done fd i cursor nbyte (upd_file s i (same_ptrs k (ceil_blocks nbyte)) (blocks_bitmap s) d)"
    using f n(2) lt by (simp add: draft_fs_write_def nth_opt_in c_consts Let_def)
  also have "\<dots> = Some (int nbyte, s\<lparr>disk := d,
        inode_table := (inode_table s)[i := (inode_table s ! i)\<lparr>direct_block := same_ptrs k (ceil_blocks nbyte), file_size := of_nat nbyte\<rparr>],
        fd_table := (fd_table s)[nat fd := (fd_table s ! nat fd)\<lparr>fd_offset := cursor + nbyte\<rparr>]\<rparr>)"
    using f(3,4) n(2) nb(4) by (simp add: draft_write_done_def to_int_in nth_opt_in upd_file_def)
  finally show ?thesis using d(2) by blast
qed

section \<open>Reading it back\<close>

lemma draft_read_copy_same:
  assumes "j * BLOCK_SIZE < nbyte" and "nbyte \<le> length buf" and "nbyte < 2 ^ 64" and "length L = BLOCK_SIZE"
  shows "draft_read_copy nbyte (j * BLOCK_SIZE) L (overlay 0 (concat (replicate j L)) buf) =
    Some (min nbyte (Suc j * BLOCK_SIZE), overlay 0 (take nbyte (concat (replicate (Suc j) L))) buf)"
proof -
  define R where "R = concat (replicate j L)"
  have l: "length R = j * BLOCK_SIZE" using assms(4) by (simp add: R_def length_concat sum_list_replicate)
  have R: "concat (replicate (Suc j) L) = R @ L"
    using replicate_append_same [of j L] unfolding R_def by (metis concat_append concat.simps(1,2) append_Nil2 replicate_Suc)
  have o: "overlay (j * BLOCK_SIZE) xs (overlay 0 R buf) = overlay 0 (R @ xs) buf" for xs
    using overlay_overlay [of 0 R buf xs] l assms(1,2) by simp
  have "take nbyte (R @ L) = R @ take (nbyte - j * BLOCK_SIZE) L" "length (overlay 0 R buf) = length buf"
    using l assms(1,2) by simp_all
  then show ?thesis using assms unfolding R R_def [symmetric]
    by (auto simp: o draft_read_copy_def usub_le mem_read_in mem_write_in min_def)
qed

lemma draft_read_zeros:
  "m \<le> j \<Longrightarrow> m \<le> NUM_DIRECT_BLOCKS \<Longrightarrow> draft_read_blocks D s (same_ptrs k m) nbyte NUM_DIRECT_BLOCKS j br buf = Some (Inr (br, buf))"
proof (induction "NUM_DIRECT_BLOCKS - j" arbitrary: j)
  case 0
  then show ?case by (subst draft_read_blocks.simps) simp
next
  case (Suc x)
  then have "draft_read_blocks D s (same_ptrs k m) nbyte NUM_DIRECT_BLOCKS (Suc j) br buf = Some (Inr (br, buf))" by simp
  then show ?case using Suc by (subst draft_read_blocks.simps) (simp add: nth_opt_in same_ptrs_nth)
qed

lemma draft_read_same:
  assumes "mounted_on current img s nm B" and "k \<noteq> 0" "unat k < DISK_BLOCKS"
    and "nbyte \<le> length buf" "nbyte < 2 ^ 64" "ceil_blocks nbyte \<le> NUM_DIRECT_BLOCKS" "j \<le> ceil_blocks nbyte"
  shows "draft_read_blocks D s (same_ptrs k (ceil_blocks nbyte)) nbyte NUM_DIRECT_BLOCKS j (min nbyte (j * BLOCK_SIZE))
      (overlay 0 (take nbyte (concat (replicate j (B (unat k))))) buf) =
    Some (Inr (nbyte, overlay 0 (take nbyte (concat (replicate (ceil_blocks nbyte) (B (unat k))))) buf))"
  using assms(7)
proof (induction "ceil_blocks nbyte - j" arbitrary: j)
  case 0
  then have "j = ceil_blocks nbyte" by simp
  then show ?case using draft_read_zeros [of "ceil_blocks nbyte" j] assms(6) ceil_blocks_le [of nbyte] by (simp add: min_def)
next
  case (Suc x)
  let ?L = "B (unat k)"
  have L: "length ?L = BLOCK_SIZE" by (rule mounted_block [OF assms(1)])
  have j: "j < ceil_blocks nbyte" "j * BLOCK_SIZE < nbyte"
    using Suc.hyps(2) by (simp_all add: ceil_blocks_less)
  then have "length (concat (replicate j ?L)) \<le> nbyte" using L by (simp add: length_concat sum_list_replicate)
  then have "take nbyte (concat (replicate j ?L)) = concat (replicate j ?L)" by simp
  moreover have "draft_read_blocks D s (same_ptrs k (ceil_blocks nbyte)) nbyte NUM_DIRECT_BLOCKS (Suc j) (min nbyte (Suc j * BLOCK_SIZE))
      (overlay 0 (take nbyte (concat (replicate (Suc j) ?L))) buf) =
    Some (Inr (nbyte, overlay 0 (take nbyte (concat (replicate (ceil_blocks nbyte) ?L))) buf))"
    using Suc.hyps(2) j(1) by (intro Suc.hyps(1)) simp_all
  ultimately show ?case
    using j assms(2,6) draft_read_copy_same [OF j(2) assms(4,5) L] dev_read_mounted [OF assms(1,3)]
    by (subst draft_read_blocks.simps) (simp add: nth_opt_in same_ptrs_nth min_def)
qed

lemma draft_fs_read_same:
  assumes m: "mounted_on current img s nm B" and t: "fs_typed s" and o: "open_file s fd i 0"
    and p: "direct_block (inode_table s ! i) = same_ptrs k (ceil_blocks nbyte)" and k: "k \<noteq> 0" "unat k < DISK_BLOCKS"
    and nb: "0 < nbyte" "nbyte \<le> NUM_DIRECT_BLOCKS * BLOCK_SIZE" "nbyte \<le> length buf"
  shows "\<exists>s'. draft_fs_read D fd buf nbyte s =
    Some (int nbyte, overlay 0 (take nbyte (concat (replicate (ceil_blocks nbyte) (B (unat k))))) buf, s')"
proof -
  note f = open_fileD [OF t o]
  have lt: "nbyte < 2 ^ 64" "nbyte \<le> MAX_FILE_SIZE" "nbyte < 2 ^ 31" using nb(2) by (simp_all add: c_consts)
  have c: "ceil_blocks nbyte \<le> NUM_DIRECT_BLOCKS" using nb(2) by (simp add: ceil_blocks_le_iff)
  have "draft_read_blocks D s (direct_block (inode_table s ! i)) nbyte NUM_DIRECT_BLOCKS 0 0 buf =
      Some (Inr (nbyte, overlay 0 (take nbyte (concat (replicate (ceil_blocks nbyte) (B (unat k))))) buf))"
    using draft_read_same [OF m k nb(3) lt(1) c, of 0] p by simp
  then show ?thesis using f lt
    by (simp add: draft_fs_read_def draft_read_body_def draft_read_rest_def nth_opt_in usub_le to_int_in c_consts Let_def)
qed

end

text \<open>
  C31. In the earlier version a block that was found free is never marked: no call of \<open>fs_write\<close>, to any
  file and of any size, changes the block bitmap. So, when the first free block \<open>k\<close> is one of the first
  64, writing up to 25 blocks of data (ending at an offset that fits an \<open>int\<close>) to an empty file that
  has no direct blocks puts every block of
  the data into the same block \<open>k\<close>; reading back gives the last piece of the data, repeated, which is
  what was written when that fits one block. (More than 25 blocks go on into the indirect
  block, which the code then takes to be block \<open>k\<close> too.)
\<close>

theorem draft_write_read:
  assumes "disk_dev D current img" and "mounted_on current img s nm B" and "fs_typed s" and "open_file s fd i cursor"
    and "direct_block (inode_table s ! i) = replicate NUM_DIRECT_BLOCKS 0" and "file_size (inode_table s ! i) = 0"
    and "0 < nbyte" and "nbyte \<le> NUM_DIRECT_BLOCKS * BLOCK_SIZE" and "nbyte \<le> length buf" and "cursor + nbyte < 2 ^ 31"
    and "find_free_bit (blocks_bitmap s) = Some k" and "k \<noteq> 0" and "unat k < 64" and "length rbuf = nbyte"
  shows "\<exists>s1 s2 s3. draft_fs_write D fd buf nbyte s = Some (int nbyte, s1) \<and>
    direct_block (inode_table s1 ! i) = replicate (ceil_blocks nbyte) k @ replicate (NUM_DIRECT_BLOCKS - ceil_blocks nbyte) 0 \<and>
    (\<forall>fd' buf' nbyte' t rc t'. draft_fs_write D fd' buf' nbyte' t = Some (rc, t') \<longrightarrow> blocks_bitmap t' = blocks_bitmap t) \<and>
    fs_lseek fd 0 s1 = Some (0, s2) \<and>
    draft_fs_read D fd rbuf nbyte s2 = Some (int nbyte, take nbyte (concat (replicate (ceil_blocks nbyte)
      (fit (drop ((ceil_blocks nbyte - 1) * BLOCK_SIZE) (take nbyte buf))))), s3)"
proof -
  have len: "8 * length (blocks_bitmap s) = DISK_BLOCKS" using fs_typedD(4) [OF assms(3)] by (simp add: DISK_BLOCKS_def)
  have k: "draft_find_free_bit (blocks_bitmap s) = Some k" "unat k < DISK_BLOCKS"
    using draft_find_free_bit_64 [OF len assms(11)] assms(13) by (simp_all add: DISK_BLOCKS_def)
  note f = open_fileD [OF assms(3,4)]
  define L where "L = fit (drop ((ceil_blocks nbyte - 1) * BLOCK_SIZE) (take nbyte buf))"
  define n1 where "n1 = (inode_table s ! i)\<lparr>direct_block := same_ptrs k (ceil_blocks nbyte), file_size := of_nat nbyte\<rparr>"
  obtain s1 where s1: "draft_fs_write D fd buf nbyte s = Some (int nbyte, s1)"
    "mounted_on current img s1 nm (B(unat k := L))" "inode_table s1 = (inode_table s)[i := n1]" "blocks_bitmap s1 = blocks_bitmap s"
    "fd_table s1 = (fd_table s)[nat fd := (fd_table s ! nat fd)\<lparr>fd_offset := cursor + nbyte\<rparr>]"
    "dir_table s1 = dir_table s" "inodes_bitmap s1 = inodes_bitmap s"
    using disk_dev.draft_fs_write_empty [OF assms(1-10) k(1) assms(12) k(2)] by (auto simp: L_def n1_def mounted_on_def)
  have "inode_ok n1" using assms(8) by (simp add: n1_def inode_ok_def ceil_blocks_le_iff)
  then have t1: "fs_typed s1" "open_file s1 fd i (cursor + nbyte)"
    using assms(3,4) s1(3-7) Ball_set_update [of "inode_table s" inode_ok n1 i] f(3) by (auto simp: fs_typed_def open_file_def)
  define s2 where "s2 = s1\<lparr>fd_table := (fd_table s1)[nat fd := (fd_table s1 ! nat fd)\<lparr>fd_offset := 0\<rparr>]\<rparr>"
  have "fs_lseek fd (int 0) s1 = Some (0, s2)" unfolding s2_def by (rule fs_lseek_ok [OF t1]) simp_all
  moreover have "open_file s2 fd i 0" unfolding s2_def by (rule open_file_seek [OF t1])
  moreover have "mounted_on current img s2 nm (B(unat k := L))" "fs_typed s2"
    using s1(2) t1(1) by (simp_all add: s2_def mounted_on_def fs_typed_def)
  moreover have d: "direct_block (inode_table s1 ! i) = same_ptrs k (ceil_blocks nbyte)" using s1(3) f(4) by (simp add: n1_def)
  ultimately obtain s3 where "draft_fs_read D fd rbuf nbyte s2 =
      Some (int nbyte, overlay 0 (take nbyte (concat (replicate (ceil_blocks nbyte) L))) rbuf, s3)"
    using disk_dev.draft_fs_read_same [OF assms(1), of s2 nm "B(unat k := L)" fd i k nbyte rbuf] assms(7,8,12,14) k(2)
    by (auto simp: s2_def)
  moreover have "length (concat (replicate (ceil_blocks nbyte) L)) \<ge> nbyte"
    using ceil_blocks_le [of nbyte] by (simp add: L_def length_concat sum_list_replicate)
  ultimately show ?thesis
    using s1(1) d \<open>fs_lseek fd (int 0) s1 = Some (0, s2)\<close> assms(14) draft_fs_write_bitmap [THEN same_bitmapD]
    by (auto simp: overlay_def L_def same_ptrs_def)
qed

theorem draft_write_read_witness:
  "\<exists>s1. draft_fs_write ram_ops 0 (replicate 4096 7 @ [1, 2]) 4098 ex_fs = Some (4098, s1) \<and>
    direct_block (inode_table s1 ! 0) = [5, 5] @ replicate 23 0 \<and> blocks_bitmap s1 = blocks_bitmap ex_fs"
proof -
  have "find_free_bit ex_bm = Some 5"
  proof -
    obtain k where k: "find_free_bit ex_bm = Some k" "unat k \<notin> bitset ex_bm" "{..<unat k} \<subseteq> bitset ex_bm"
      using find_free_bit_spec [of ex_bm] bitset_ex_bm by (auto simp: length_ex_bm DISK_BLOCKS_def)
    moreover from k(3) have "\<not> 5 < unat k" using bitset_ex_bm by auto
    ultimately have "unat k = 5" using bitset_ex_bm by simp
    then show ?thesis using k(1) by (simp add: u16_eq_iff)
  qed
  then have "find_free_bit (blocks_bitmap ex_fs) = Some 5" by (simp add: ex_fs_simps)
  note w = draft_write_read [OF ramd.disk_dev_axioms ex_fs_mounted ex_fs_typed ex_fs_open _ _ _ _ _ _ this,
      of 4098 "replicate 4096 7 @ [1, 2]" "replicate 4098 0"]
  have "ceil_blocks 4098 = Suc (Suc 0)" by (simp add: ceil_blocks_def BLOCK_SIZE_def)
  with w show ?thesis by (fastforce simp: ex_fs_simps c_consts)
qed

end
