(* ===== verification/Tcb_Ring.thy ===== *)
theory Tcb_Ring
  imports Prelude
begin

text \<open>
  What the two thread libraries (\<open>thread_library/src/threads.c\<close> and
  \<open>thread_synchronization/src/threads.c\<close>) share: the thread control blocks, the circular doubly
  linked list they form, the search for the next ready thread, the initialisation of thread 0
  and the environment a new thread starts from.

  Control blocks live in a heap \<open>ptr \<rightharpoonup> tcb\<close>; a pointer is \<open>ptr option\<close> with \<open>None\<close> for
  \<open>NULL\<close>, and a dereference of \<open>NULL\<close> or of a freed block is undefined (\<open>None\<close>). An environment is
  either the register values \<open>pthread_create\<close> writes (\<open>Entry\<close>) or the point inside \<open>schedule\<close> that
  \<open>setjmp\<close> saved (\<open>Saved\<close>).

  The abstraction of the list is \<open>ring h xs\<close>: the blocks \<open>xs\<close>, in this order, form a cycle of
  \<open>next_thread\<close> and \<open>prev_thread\<close> links in the heap \<open>h\<close>.
\<close>

type_synonym u64 = "64 word"
type_synonym ptr = nat

datatype thread_status = TS_EXITED | TS_RUNNING | TS_READY | TS_BLOCKED

record regs =
  jb_rsp :: u64
  jb_r12 :: u64
  jb_r13 :: u64
  jb_pc :: u64

datatype jmp_env = Saved | Entry regs

record tcb =
  thread_id :: u64
  stack :: u64
  t_status :: thread_status
  env :: jmp_env
  next_thread :: "ptr option"
  prev_thread :: "ptr option"

record threads =
  tcbs :: "ptr \<rightharpoonup> tcb"
  head :: "ptr option"
  tail :: "ptr option"
  curr :: "ptr option"
  thread_id_counter :: u64
  num_curr_threads :: int
  is_first_call :: bool

definition MAX_THREADS :: nat where [c_consts]: "MAX_THREADS = 128"
definition THREAD_STACK_SIZE :: nat where [c_consts]: "THREAD_STACK_SIZE = 32767"
definition ADDRESS_SIZE :: nat where [c_consts]: "ADDRESS_SIZE = 8"

section \<open>Pointer accesses\<close>

definition deref :: "'a threads_scheme \<Rightarrow> ptr option \<Rightarrow> tcb option" where
  "deref s p = Option.bind p (tcbs s)"

definition upd_tcb :: "ptr option \<Rightarrow> (tcb \<Rightarrow> tcb) \<Rightarrow> 'a threads_scheme \<Rightarrow> 'a threads_scheme option" where
  "upd_tcb p f s = (case p of None \<Rightarrow> None | Some a \<Rightarrow>
    (case tcbs s a of None \<Rightarrow> None | Some t \<Rightarrow> Some (s\<lparr>tcbs := (tcbs s)(a \<mapsto> f t)\<rparr>)))"

abbreviation set_next :: "ptr option \<Rightarrow> ptr option \<Rightarrow> 'a threads_scheme \<Rightarrow> 'a threads_scheme option" where
  "set_next p q \<equiv> upd_tcb p (next_thread_update (\<lambda>_. q))"

abbreviation set_prev :: "ptr option \<Rightarrow> ptr option \<Rightarrow> 'a threads_scheme \<Rightarrow> 'a threads_scheme option" where
  "set_prev p q \<equiv> upd_tcb p (prev_thread_update (\<lambda>_. q))"

abbreviation set_status :: "ptr option \<Rightarrow> thread_status \<Rightarrow> 'a threads_scheme \<Rightarrow> 'a threads_scheme option" where
  "set_status p st \<equiv> upd_tcb p (t_status_update (\<lambda>_. st))"

definition status_of :: "(ptr \<rightharpoonup> tcb) \<Rightarrow> ptr \<Rightarrow> thread_status option" where
  "status_of h p = map_option t_status (h p)"

lemma status_of_Some: "status_of h p = Some st \<longleftrightarrow> (\<exists>t. h p = Some t \<and> t_status t = st)"
  by (auto simp: status_of_def)

lemma status_of_at [simp]:
  "h p = Some t \<Longrightarrow> status_of h p = Some (t_status t)" "h p = None \<Longrightarrow> status_of h p = None"
  by (simp_all add: status_of_def)

lemma status_of_upd [simp]:
  "status_of (h(a \<mapsto> t)) p = (if p = a then Some (t_status t) else status_of h p)"
  "status_of (h(a := None)) p = (if p = a then None else status_of h p)"
  by (simp_all add: status_of_def)

lemma deref_Some [ub_simps]: "tcbs s a = Some t \<Longrightarrow> deref s (Some a) = Some t"
  by (simp add: deref_def)

lemma upd_tcb_Some [ub_simps]:
  "tcbs s a = Some t \<Longrightarrow> upd_tcb (Some a) f s = Some (s\<lparr>tcbs := (tcbs s)(a \<mapsto> f t)\<rparr>)"
  by (simp add: upd_tcb_def)

lemma upd_tcb_eq_Some:
  "upd_tcb p f s = Some s' \<longleftrightarrow>
    (\<exists>a t. p = Some a \<and> tcbs s a = Some t \<and> s' = s\<lparr>tcbs := (tcbs s)(a \<mapsto> f t)\<rparr>)"
  by (auto simp: upd_tcb_def split: option.splits)

section \<open>The search for the next ready thread\<close>

text \<open>
  \<open>Switched\<close>: the code called \<open>longjmp\<close> into the environment of the thread that is now \<open>curr\<close>.
  \<open>Returned\<close>: the loop ended without a ready thread and \<open>schedule\<close> returns to its caller.
\<close>

datatype outcome = Switched | Returned

text \<open>
  A library call ends in one of three ways: it returns a value (\<open>Ret\<close>), control has gone to another
  thread by \<open>longjmp\<close> (\<open>Away\<close>), or the process has ended (\<open>Gone\<close>).
\<close>

datatype call = Ret int | Away | Gone

fun sched_loop :: "nat \<Rightarrow> 'a threads_scheme \<Rightarrow> (outcome \<times> 'a threads_scheme) option" where
  "sched_loop 0 s = Some (Returned, s)"
| "sched_loop (Suc i) s = do {
     t \<leftarrow> deref s (curr s);
     let s = s\<lparr>curr := next_thread t\<rparr>;
     (case curr s of
        None \<Rightarrow> Some (Returned, s)
      | Some c \<Rightarrow> do {
          u \<leftarrow> deref s (curr s);
          if t_status u = TS_READY
          then do { s \<leftarrow> set_status (curr s) TS_RUNNING s; Some (Switched, s) }
          else sched_loop i s }) }"

section \<open>Thread 0\<close>

text \<open>
  \<open>scheduler_init\<close>: \<open>a\<close> is what \<open>malloc\<close> returns and \<open>sig_ok\<close> says whether \<open>sigemptyset\<close> and
  \<open>sigaction\<close> succeed.
\<close>

definition scheduler_init ::
  "ptr option \<Rightarrow> bool \<Rightarrow> 'a threads_scheme \<Rightarrow> int \<times> 'a threads_scheme" where
  "scheduler_init a sig_ok s =
    (let s = s\<lparr>thread_id_counter := 0, num_curr_threads := 0, curr := a\<rparr> in
     case a of
       None \<Rightarrow> (- 1, s)
     | Some p \<Rightarrow>
        let t = \<lparr>thread_id = thread_id_counter s, stack = 0, t_status = TS_RUNNING, env = Saved,
                 next_thread = None, prev_thread = None\<rparr>;
            s = s\<lparr>tcbs := (tcbs s)(p \<mapsto> t), thread_id_counter := thread_id_counter s + 1,
                  tail := Some p, head := Some p, num_curr_threads := num_curr_threads s + 1\<rparr>
        in if sig_ok then (0, s) else (- 1, s))"

section \<open>The environment of a new thread\<close>

text \<open>
  \<open>ptr_mangle\<close> and \<open>ptr_demangle\<close> are the inline assembly of \<open>ec440threads.h\<close>; \<open>g\<close> is the
  pointer guard at \<open>%fs:0x30\<close>.
\<close>

definition ptr_mangle :: "u64 \<Rightarrow> u64 \<Rightarrow> u64" where
  "ptr_mangle g p = word_rotl 17 (p XOR g)"

definition ptr_demangle :: "u64 \<Rightarrow> u64 \<Rightarrow> u64" where
  "ptr_demangle g p = word_rotr 17 p XOR g"

lemma demangle_mangle [simp]: "ptr_demangle g (ptr_mangle g p) = p"
  by (simp add: ptr_mangle_def ptr_demangle_def xor.assoc)

lemma mangle_demangle [simp]: "ptr_mangle g (ptr_demangle g p) = p"
  by (simp add: ptr_mangle_def ptr_demangle_def xor.assoc)

definition new_env :: "u64 \<Rightarrow> u64 \<Rightarrow> u64 \<Rightarrow> u64 \<Rightarrow> u64 \<Rightarrow> jmp_env" where
  "new_env g start_thunk stk start_routine arg = Entry
    \<lparr>jb_rsp = ptr_mangle g (stk + of_nat THREAD_STACK_SIZE - of_nat ADDRESS_SIZE),
     jb_r12 = start_routine,
     jb_r13 = arg,
     jb_pc = ptr_mangle g start_thunk\<rparr>"

text \<open>
  What the environment of a new thread depends on besides its stack: the pointer guard, the address
  of \<open>start_thunk\<close>, and the arguments \<open>start_routine\<close> and \<open>arg\<close> of \<open>pthread_create\<close>.
\<close>

record start_args =
  sa_guard :: u64
  sa_thunk :: u64
  sa_start :: u64
  sa_arg :: u64

definition env_for :: "start_args \<Rightarrow> u64 \<Rightarrow> jmp_env" where
  "env_for e stk = new_env (sa_guard e) (sa_thunk e) stk (sa_start e) (sa_arg e)"

section \<open>Linking a control block into the list\<close>

text \<open>
  The two branches of \<open>pthread_create\<close>. With one thread alive the block is linked to \<open>base\<close> in
  both directions (\<open>curr\<close> in one library, \<open>head\<close> in the other); otherwise it is put between
  \<open>curr->prev_thread\<close> and \<open>curr\<close>.
\<close>

definition link_pair :: "ptr option \<Rightarrow> ptr \<Rightarrow> 'a threads_scheme \<Rightarrow> 'a threads_scheme option" where
  "link_pair base p s = do {
     s \<leftarrow> set_next (Some p) base s;
     s \<leftarrow> set_prev base (Some p) s;
     s \<leftarrow> set_next base (Some p) s;
     set_prev (Some p) base s }"

definition link_behind :: "ptr \<Rightarrow> 'a threads_scheme \<Rightarrow> 'a threads_scheme option" where
  "link_behind p s = do {
     t \<leftarrow> deref s (curr s);
     let s = s\<lparr>head := prev_thread t\<rparr>;
     s \<leftarrow> set_next (head s) (Some p) s;
     s \<leftarrow> set_prev (Some p) (head s) s;
     s \<leftarrow> set_next (Some p) (curr s) s;
     set_prev (curr s) (Some p) s }"

definition new_block :: "u64 \<Rightarrow> start_args \<Rightarrow> tcb" where
  "new_block stk e = \<lparr>thread_id = 0, stack = stk, t_status = TS_EXITED, env = env_for e stk,
                      next_thread = None, prev_thread = None\<rparr>"

definition finish_create :: "ptr \<Rightarrow> 'a threads_scheme \<Rightarrow> (u64 \<times> 'a threads_scheme) option" where
  "finish_create p s = do {
     s \<leftarrow> set_status (Some p) TS_READY s;
     let s = s\<lparr>num_curr_threads := num_curr_threads s + 1\<rparr>;
     let i = thread_id_counter s;
     s \<leftarrow> upd_tcb (Some p) (thread_id_update (\<lambda>_. i)) s;
     Some (i, s\<lparr>thread_id_counter := i + 1\<rparr>) }"

lemma finish_create_Some:
  assumes "tcbs s p = Some n"
  shows "finish_create p s = Some (thread_id_counter s,
    s\<lparr>tcbs := (tcbs s)(p \<mapsto> n\<lparr>t_status := TS_READY, thread_id := thread_id_counter s\<rparr>),
      num_curr_threads := num_curr_threads s + 1, thread_id_counter := thread_id_counter s + 1\<rparr>)"
  using assms by (simp add: finish_create_def upd_tcb_def Let_def)

section \<open>Rings in the heap\<close>

definition nxt :: "(ptr \<rightharpoonup> tcb) \<Rightarrow> ptr \<Rightarrow> ptr option" where
  "nxt h a = Option.bind (h a) next_thread"

definition prv :: "(ptr \<rightharpoonup> tcb) \<Rightarrow> ptr \<Rightarrow> ptr option" where
  "prv h a = Option.bind (h a) prev_thread"

lemma nxt_upd [simp]: "nxt (h(a \<mapsto> t)) b = (if b = a then next_thread t else nxt h b)"
  and prv_upd [simp]: "prv (h(a \<mapsto> t)) b = (if b = a then prev_thread t else prv h b)"
  by (simp_all add: nxt_def prv_def)

lemma nxt_Some: "h a = Some t \<Longrightarrow> nxt h a = next_thread t"
  and prv_Some: "h a = Some t \<Longrightarrow> prv h a = prev_thread t"
  by (simp_all add: nxt_def prv_def)

definition link :: "(ptr \<rightharpoonup> tcb) \<Rightarrow> ptr \<Rightarrow> ptr \<Rightarrow> bool" where
  "link h a b \<longleftrightarrow> nxt h a = Some b \<and> prv h b = Some a"

fun links :: "(ptr \<rightharpoonup> tcb) \<Rightarrow> ptr list \<Rightarrow> bool" where
  "links h (a # b # xs) \<longleftrightarrow> link h a b \<and> links h (b # xs)"
| "links h _ \<longleftrightarrow> True"

definition ring :: "(ptr \<rightharpoonup> tcb) \<Rightarrow> ptr list \<Rightarrow> bool" where
  "ring h xs \<longleftrightarrow> xs \<noteq> [] \<and> distinct xs \<and> links h (xs @ [hd xs])"

lemma links_append: "links h (xs @ y # ys) \<longleftrightarrow> links h (xs @ [y]) \<and> links h (y # ys)"
  by (induction xs rule: links.induct [of _ h]) (cases ys, auto)+

lemma links_cong:
  assumes "\<And>x. x \<in> set (butlast xs) \<Longrightarrow> nxt h' x = nxt h x"
    and "\<And>x. x \<in> set (tl xs) \<Longrightarrow> prv h' x = prv h x"
  shows "links h' xs \<longleftrightarrow> links h xs"
  using assms by (induction h xs rule: links.induct) (auto simp: link_def)

lemma ring_cong:
  assumes "\<And>x. x \<in> set xs \<Longrightarrow> nxt h' x = nxt h x \<and> prv h' x = prv h x"
  shows "ring h' xs \<longleftrightarrow> ring h xs"
proof (cases xs)
  case (Cons c ys)
  then have "links h' (xs @ [hd xs]) \<longleftrightarrow> links h (xs @ [hd xs])"
    using assms by (intro links_cong) (auto simp: butlast_append)
  then show ?thesis by (simp add: ring_def)
qed (simp add: ring_def)

lemma ring_rotate1: "ring h xs \<Longrightarrow> ring h (rotate1 xs)"
proof (cases xs)
  case (Cons c ys)
  assume "ring h xs"
  then show ?thesis
    by (cases ys) (use Cons links_append [of h "_ # _" c "[_]"] in \<open>auto simp: ring_def\<close>)
qed simp

lemma ring_rotate: "ring h xs \<Longrightarrow> ring h (rotate n xs)"
  by (induction n) (simp_all add: ring_rotate1)

lemma ring_next_hd: "ring h xs \<Longrightarrow> nxt h (hd xs) = Some (hd (rotate1 xs))"
  by (cases xs; cases "tl xs") (auto simp: ring_def link_def)

lemma ring_prev_hd: "ring h xs \<Longrightarrow> prv h (hd xs) = Some (last xs)"
proof (cases xs rule: rev_cases)
  case (snoc ys y)
  assume "ring h xs"
  then show ?thesis
    using snoc links_append [of h ys y "[hd xs]"] by (auto simp: ring_def link_def)
qed (simp add: ring_def)

lemma hd_rotate: "xs \<noteq> [] \<Longrightarrow> hd (rotate i xs) = xs ! (i mod length xs)"
  by (rule hd_rotate_conv_nth)

lemma ring_allocated: "ring h xs \<Longrightarrow> x \<in> set xs \<Longrightarrow> \<exists>t. h x = Some t"
proof -
  assume r: "ring h xs" and "x \<in> set xs"
  then obtain i where "i < length xs" "x = xs ! i" by (auto simp: in_set_conv_nth)
  with r have "x = hd (rotate i xs)" by (simp add: ring_def hd_rotate)
  with ring_next_hd [OF ring_rotate [OF r, of i]] show ?thesis
    by (auto simp: nxt_def Option_bind_eq_Some_conv)
qed

lemma ring_links: "ring h xs \<Longrightarrow> links h xs"
proof (cases xs rule: rev_cases)
  case (snoc ys y)
  assume "ring h xs"
  then show ?thesis using snoc links_append [of h ys y "[hd xs]"] by (simp add: ring_def)
qed (simp add: ring_def)

lemma distinct_last_notin_butlast: "distinct xs \<Longrightarrow> xs \<noteq> [] \<Longrightarrow> last xs \<notin> set (butlast xs)"
  by (cases xs rule: rev_cases) auto

lemma distinct_hd_notin_tl: "distinct xs \<Longrightarrow> xs \<noteq> [] \<Longrightarrow> hd xs \<notin> set (tl xs)"
  by (cases xs) auto

lemma links_inner:
  assumes "distinct xs"
    and "\<And>x. x \<in> set xs \<Longrightarrow> x \<noteq> last xs \<Longrightarrow> nxt h' x = nxt h x"
    and "\<And>x. x \<in> set xs \<Longrightarrow> x \<noteq> hd xs \<Longrightarrow> prv h' x = prv h x"
  shows "links h' xs \<longleftrightarrow> links h xs"
proof (rule links_cong)
  fix x assume x: "x \<in> set (butlast xs)"
  then have "x \<in> set xs" by (rule in_set_butlastD)
  moreover have "x \<noteq> last xs" using x assms(1) distinct_last_notin_butlast [of xs] by (cases "xs = []") auto
  ultimately show "nxt h' x = nxt h x" by (rule assms(2))
next
  fix x assume x: "x \<in> set (tl xs)"
  then have "x \<in> set xs" by (cases xs) auto
  moreover have "x \<noteq> hd xs" using x assms(1) distinct_hd_notin_tl [of xs] by (cases "xs = []") auto
  ultimately show "prv h' x = prv h x" by (rule assms(3))
qed

text \<open>A block put behind the first one becomes the last of the ring.\<close>

lemma ring_snoc:
  assumes r: "ring h xs" and p: "p \<notin> set xs"
    and n: "\<And>x. x \<in> set xs \<Longrightarrow> x \<noteq> last xs \<Longrightarrow> nxt h' x = nxt h x"
    and v: "\<And>x. x \<in> set xs \<Longrightarrow> x \<noteq> hd xs \<Longrightarrow> prv h' x = prv h x"
    and new: "link h' (last xs) p" "link h' p (hd xs)"
  shows "ring h' (xs @ [p])"
proof -
  from r have ne: "xs \<noteq> []" and d: "distinct xs" by (simp_all add: ring_def)
  from d n v have "links h' xs \<longleftrightarrow> links h xs" by (rule links_inner)
  with ring_links [OF r] have "links h' xs" by simp
  moreover have "xs = butlast xs @ [last xs]" using ne by simp
  ultimately have "links h' (xs @ [p])"
    using new links_append [of h' "butlast xs" "last xs" "[p]"]
    by (metis append.assoc append_Cons append_Nil links.simps(1) links.simps(3))
  then show ?thesis
    using ne d p new links_append [of h' xs p "[hd xs]"] by (simp add: ring_def)
qed

text \<open>A ring without its first block is a ring once the neighbours are linked to each other.\<close>

lemma ring_tl:
  assumes r: "ring h (c # ys)" and ne: "ys \<noteq> []"
    and n: "\<And>x. x \<in> set ys \<Longrightarrow> x \<noteq> last ys \<Longrightarrow> nxt h' x = nxt h x"
    and v: "\<And>x. x \<in> set ys \<Longrightarrow> x \<noteq> hd ys \<Longrightarrow> prv h' x = prv h x"
    and new: "link h' (last ys) (hd ys)"
  shows "ring h' ys"
proof -
  from r have d: "distinct ys" by (simp add: ring_def)
  have "links h ys" using ring_links [OF r] by (cases ys) auto
  moreover from d n v have "links h' ys \<longleftrightarrow> links h ys" by (rule links_inner)
  ultimately have "links h' ys" by simp
  moreover have "ys = butlast ys @ [last ys]" using ne by simp
  ultimately have "links h' (ys @ [hd ys])"
    using new links_append [of h' "butlast ys" "last ys" "[hd ys]"]
    by (metis append.assoc append_Cons append_Nil links.simps(1) links.simps(3))
  with d ne show ?thesis by (simp add: ring_def)
qed

text \<open>The ring can be read off the heap: \<open>walk\<close> follows \<open>next_thread\<close>.\<close>

fun walk :: "(ptr \<rightharpoonup> tcb) \<Rightarrow> nat \<Rightarrow> ptr option \<Rightarrow> ptr list" where
  "walk h 0 p = []"
| "walk h (Suc n) p = (case p of None \<Rightarrow> [] | Some a \<Rightarrow> a # walk h n (nxt h a))"

lemma links_walk: "links h (xs @ [y]) \<Longrightarrow> xs \<noteq> [] \<Longrightarrow> walk h (length xs) (Some (hd xs)) = xs"
proof (induction xs)
  case (Cons a xs)
  then show ?case by (cases xs) (auto simp: link_def)
qed simp

lemma ring_walk: "ring h xs \<Longrightarrow> walk h (length xs) (Some (hd xs)) = xs"
  by (auto simp: ring_def intro: links_walk)

section \<open>What the search does on a ring\<close>

definition dispatch :: "ptr \<Rightarrow> 'a threads_scheme \<Rightarrow> 'a threads_scheme" where
  "dispatch p s = s\<lparr>curr := Some p,
     tcbs := (tcbs s)(p := map_option (t_status_update (\<lambda>_. TS_RUNNING)) (tcbs s p))\<rparr>"

definition ready :: "(ptr \<rightharpoonup> tcb) \<Rightarrow> ptr \<Rightarrow> bool" where
  "ready h p \<longleftrightarrow> status_of h p = Some TS_READY"

lemma sched_loop_step:
  assumes "ring (tcbs s) xs" and "curr s = Some (hd xs)"
  shows "sched_loop (Suc n) s =
    (if ready (tcbs s) (hd (rotate1 xs)) then Some (Switched, dispatch (hd (rotate1 xs)) s)
     else sched_loop n (s\<lparr>curr := Some (hd (rotate1 xs))\<rparr>))"
proof -
  from assms have ne: "xs \<noteq> []" by (simp add: ring_def)
  then have "hd (rotate1 xs) \<in> set xs"
    by (metis hd_in_set rotate1_is_Nil_conv set_rotate1)
  then obtain u where u: "tcbs s (hd (rotate1 xs)) = Some u"
    using ring_allocated assms(1) by blast
  obtain t where t: "tcbs s (hd xs) = Some t" "next_thread t = Some (hd (rotate1 xs))"
    using ring_next_hd [OF assms(1)] by (auto simp: nxt_def Option_bind_eq_Some_conv)
  show ?thesis
    using t u assms(2) by (simp add: deref_def upd_tcb_def dispatch_def ready_def status_of_def)
qed

declare sched_loop.simps(2) [simp del]

lemma sched_loop_found:
  assumes "ring (tcbs s) xs" and "curr s = Some (hd xs)" and "0 < k" and "k \<le> n"
    and "ready (tcbs s) (hd (rotate k xs))"
    and "\<And>j. 0 < j \<Longrightarrow> j < k \<Longrightarrow> \<not> ready (tcbs s) (hd (rotate j xs))"
  shows "sched_loop n s = Some (Switched, dispatch (hd (rotate k xs)) s)"
  using assms
proof (induction n arbitrary: s xs k)
  case (Suc n)
  show ?case
  proof (cases "k = 1")
    case True
    with Suc.prems sched_loop_step [OF Suc.prems(1,2), of n] show ?thesis by simp
  next
    case False
    with Suc.prems have k: "0 < k - 1" "k - 1 \<le> n" by auto
    have rot: "rotate (k - Suc 0) (rotate1 xs) = rotate k xs"
      using Suc.prems(3) by (cases k) (simp_all add: rotate1_rotate_swap)
    have later: "\<not> ready (tcbs s) (hd (rotate j (rotate1 xs)))" if "0 < j" "j < k - 1" for j
      using Suc.prems(6) [of "Suc j"] that by (simp add: rotate1_rotate_swap)
    have "\<not> ready (tcbs s) (hd (rotate1 xs))" using Suc.prems(6) [of 1] k by simp
    moreover have "sched_loop n (s\<lparr>curr := Some (hd (rotate1 xs))\<rparr>) =
        Some (Switched, dispatch (hd (rotate (k - 1) (rotate1 xs))) (s\<lparr>curr := Some (hd (rotate1 xs))\<rparr>))"
      using k Suc.prems(1,5) later by (intro Suc.IH ring_rotate1) (simp_all add: rot)
    ultimately show ?thesis
      using sched_loop_step [OF Suc.prems(1,2), of n] k by (simp add: rot dispatch_def)
  qed
qed simp

lemma sched_loop_none:
  assumes "ring (tcbs s) xs" and "curr s = Some (hd xs)"
    and "\<And>j. 0 < j \<Longrightarrow> j \<le> n \<Longrightarrow> \<not> ready (tcbs s) (hd (rotate j xs))"
  shows "sched_loop n s = Some (Returned, s\<lparr>curr := Some (hd (rotate n xs))\<rparr>)"
  using assms
proof (induction n arbitrary: s xs)
  case (Suc n)
  have later: "\<not> ready (tcbs s) (hd (rotate j (rotate1 xs)))" if "0 < j" "j \<le> n" for j
    using Suc.prems(3) [of "Suc j"] that by (simp add: rotate1_rotate_swap)
  have "\<not> ready (tcbs s) (hd (rotate1 xs))" using Suc.prems(3) [of 1] by simp
  moreover have "sched_loop n (s\<lparr>curr := Some (hd (rotate1 xs))\<rparr>) =
      Some (Returned, s\<lparr>curr := Some (hd (rotate n (rotate1 xs)))\<rparr>)"
    using Suc.IH [of "s\<lparr>curr := Some (hd (rotate1 xs))\<rparr>" "rotate1 xs"] Suc.prems(1) later
    by (simp add: ring_rotate1)
  ultimately show ?case
    using sched_loop_step [OF Suc.prems(1,2), of n] by (simp add: rotate1_rotate_swap)
qed simp

text \<open>What happens to the thread that gives up the processor.\<close>

definition suspend :: "ptr \<Rightarrow> thread_status \<Rightarrow> 'a threads_scheme \<Rightarrow> 'a threads_scheme" where
  "suspend c st s = s\<lparr>tcbs := (tcbs s)(c := map_option (\<lambda>t. t\<lparr>env := Saved, t_status := st\<rparr>) (tcbs s c))\<rparr>"

lemma dispatch_threads [simp]:
  "curr (dispatch p s) = Some p" "head (dispatch p s) = head s"
  "num_curr_threads (dispatch p s) = num_curr_threads s" "is_first_call (dispatch p s) = is_first_call s"
  by (simp_all add: dispatch_def)

lemma suspend_threads [simp]:
  "curr (suspend c st s) = curr s" "head (suspend c st s) = head s"
  "num_curr_threads (suspend c st s) = num_curr_threads s" "is_first_call (suspend c st s) = is_first_call s"
  by (simp_all add: suspend_def)

lemma links_dispatch [simp]:
  "nxt (tcbs (dispatch p s)) x = nxt (tcbs s) x" "prv (tcbs (dispatch p s)) x = prv (tcbs s) x"
  by (cases "tcbs s p"; simp add: dispatch_def nxt_def prv_def)+

lemma links_suspend [simp]:
  "nxt (tcbs (suspend c st s)) x = nxt (tcbs s) x" "prv (tcbs (suspend c st s)) x = prv (tcbs s) x"
  by (cases "tcbs s c"; simp add: suspend_def nxt_def prv_def)+

lemma alloc_suspend [simp]: "(tcbs (suspend c st s) x = None) = (tcbs s x = None)"
  by (simp add: suspend_def)

lemma ring_dispatch [simp]: "ring (tcbs (dispatch p s)) xs \<longleftrightarrow> ring (tcbs s) xs"
  by (rule ring_cong) simp

lemma ring_suspend [simp]: "ring (tcbs (suspend c st s)) xs \<longleftrightarrow> ring (tcbs s) xs"
  by (rule ring_cong) simp

lemma status_dispatch:
  "status_of (tcbs (dispatch p s)) x =
    (if x = p \<and> tcbs s p \<noteq> None then Some TS_RUNNING else status_of (tcbs s) x)"
  by (auto simp: dispatch_def status_of_def)

lemma status_suspend:
  "status_of (tcbs (suspend c st s)) x =
    (if x = c \<and> tcbs s c \<noteq> None then Some st else status_of (tcbs s) x)"
  by (auto simp: suspend_def status_of_def)

text \<open>
  The specification of the search: among the candidates \<open>ys\<close>, in order, the first ready one
  becomes the head; the ones passed over go to the back.
\<close>

definition rr_next :: "('a \<Rightarrow> bool) \<Rightarrow> 'a list \<Rightarrow> 'a list" where
  "rr_next P ys = dropWhile (\<lambda>y. \<not> P y) ys @ takeWhile (\<lambda>y. \<not> P y) ys"

lemma set_rr_next [simp]: "set (rr_next P ys) = set ys"
proof -
  have "set (rr_next P ys) = set (takeWhile (\<lambda>y. \<not> P y) ys @ dropWhile (\<lambda>y. \<not> P y) ys)"
    by (simp only: rr_next_def set_append Un_commute)
  then show ?thesis by (simp only: takeWhile_dropWhile_id)
qed

lemma length_rr_next [simp]: "length (rr_next P ys) = length ys"
proof -
  have "length (rr_next P ys) = length (takeWhile (\<lambda>y. \<not> P y) ys @ dropWhile (\<lambda>y. \<not> P y) ys)"
    by (simp only: rr_next_def length_append add.commute)
  then show ?thesis by (simp only: takeWhile_dropWhile_id)
qed

lemma hd_rr_next: "\<exists>y \<in> set ys. P y \<Longrightarrow> P (hd (rr_next P ys))"
  by (metis (no_types, lifting) dropWhile_eq_Nil_conv hd_append2 hd_dropWhile rr_next_def)

lemma rr_next_rotate: "rr_next P ys = rotate (length (takeWhile (\<lambda>y. \<not> P y) ys)) ys"
proof (cases "\<exists>y \<in> set ys. P y")
  case True
  then have "length (takeWhile (\<lambda>y. \<not> P y) ys) < length ys"
    by (metis (full_types) length_takeWhile_le nat_less_le takeWhile_eq_take take_all_iff
        takeWhile_eq_all_conv)
  then show ?thesis
    by (simp add: rr_next_def rotate_drop_take dropWhile_eq_drop flip: takeWhile_eq_take)
next
  case False
  then have "takeWhile (\<lambda>y. \<not> P y) ys = ys" "dropWhile (\<lambda>y. \<not> P y) ys = []" by auto
  moreover have "rotate (length ys) ys = ys" by (simp add: rotate_id)
  ultimately show ?thesis by (simp only: rr_next_def append_Nil)
qed

lemma ring_rr_next: "ring h xs \<Longrightarrow> ring h (rr_next P xs)"
  by (simp add: rr_next_rotate ring_rotate)

lemma search_found:
  assumes r: "ring (tcbs s) xs" and c: "curr s = Some (hd xs)" and n: "length xs \<le> n"
    and ex: "\<exists>x \<in> set xs. ready (tcbs s) x"
  shows "sched_loop n s = Some (Switched, dispatch (hd (rr_next (ready (tcbs s)) (rotate1 xs))) s)"
proof -
  let ?P = "ready (tcbs s)" and ?ys = "rotate1 xs"
  let ?w = "takeWhile (\<lambda>y. \<not> ?P y) ?ys"
  from r have ne: "?ys \<noteq> []" by (simp add: ring_def)
  have len: "length ?w < length ?ys"
    using ex by (metis (full_types) length_takeWhile_le nat_less_le set_rotate1 takeWhile_eq_take
        take_all_iff takeWhile_eq_all_conv)
  have rot: "rotate (Suc j) xs = rotate j ?ys" for j by (simp add: rotate1_rotate_swap)
  have eq: "rr_next ?P ?ys = rotate (Suc (length ?w)) xs"
    using rr_next_rotate [of ?P ?ys] rot by simp
  have "?P (hd (rotate (Suc (length ?w)) xs))"
    using hd_rr_next [of ?ys ?P] ex eq by simp
  moreover have "\<not> ?P (hd (rotate j xs))" if j: "0 < j" "j < Suc (length ?w)" for j
  proof -
    obtain i where i: "j = Suc i" using j(1) by (cases j) auto
    with j(2) have "i < length ?w" by simp
    moreover have "hd (rotate j xs) = ?ys ! i"
      using i ne len \<open>i < length ?w\<close> rot [of i] by (simp add: hd_rotate del: rotate_Suc length_rotate1)
    ultimately show ?thesis
      using nth_mem [of i ?w] takeWhile_nth [of i "\<lambda>y. \<not> ?P y" ?ys] set_takeWhileD by metis
  qed
  ultimately show ?thesis
    using sched_loop_found [OF r c, of "Suc (length ?w)" n] len n eq by simp
qed

lemma search_none:
  assumes "ring (tcbs s) xs" and "curr s = Some (hd xs)" and "\<forall>x \<in> set xs. \<not> ready (tcbs s) x"
  shows "sched_loop n s = Some (Returned, s\<lparr>curr := Some (hd (rotate n xs))\<rparr>)"
proof (rule sched_loop_none [OF assms(1,2)])
  fix j
  from assms(1) have "rotate j xs \<noteq> []" by (simp add: ring_def)
  then have "hd (rotate j xs) \<in> set xs" by (metis hd_in_set set_rotate)
  with assms(3) show "\<not> ready (tcbs s) (hd (rotate j xs))" by blast
qed

text \<open>The search along a chain of blocks that need not close up to a ring.\<close>

fun chain :: "(ptr \<rightharpoonup> tcb) \<Rightarrow> ptr list \<Rightarrow> bool" where
  "chain h (a # b # xs) \<longleftrightarrow> nxt h a = Some b \<and> h b \<noteq> None \<and> chain h (b # xs)"
| "chain h _ \<longleftrightarrow> True"

lemma sched_loop_chain:
  assumes "chain (tcbs s) (c # ys @ [p])" and "curr s = Some c" and "length ys < n"
    and "\<forall>y \<in> set ys. \<not> ready (tcbs s) y" and "ready (tcbs s) p"
  shows "sched_loop n s = Some (Switched, dispatch p s)"
  using assms
proof (induction ys arbitrary: s c n)
  case Nil
  then obtain t u m where "tcbs s c = Some t" "next_thread t = Some p" "tcbs s p = Some u" "n = Suc m"
    by (cases n) (auto simp: nxt_def Option_bind_eq_Some_conv)
  with Nil show ?case
    by (simp add: sched_loop.simps deref_def ready_def upd_tcb_def dispatch_def)
next
  case (Cons y ys)
  then obtain t u m where t: "tcbs s c = Some t" "next_thread t = Some y" "tcbs s y = Some u" "n = Suc m"
    by (cases n) (auto simp: nxt_def Option_bind_eq_Some_conv)
  have "sched_loop m (s\<lparr>curr := Some y\<rparr>) = Some (Switched, dispatch p (s\<lparr>curr := Some y\<rparr>))"
    by (rule Cons.IH) (use Cons.prems t in auto)
  moreover have "t_status u \<noteq> TS_READY" using Cons.prems(4) t by (simp add: ready_def)
  ultimately show ?case using t Cons.prems(2)
    by (simp add: sched_loop.simps deref_def dispatch_def)
qed

section \<open>What linking does\<close>

lemma link_pair_ring:
  assumes "tcbs s b = Some t" and "tcbs s p = Some n" and "p \<noteq> b"
  shows "\<exists>h. link_pair (Some b) p s = Some (s\<lparr>tcbs := h\<rparr>) \<and> ring h [b, p] \<and>
    (\<forall>x. status_of h x = status_of (tcbs s) x)"
proof -
  let ?h = "(tcbs s)(p \<mapsto> n\<lparr>next_thread := Some b, prev_thread := Some b\<rparr>,
                     b \<mapsto> t\<lparr>prev_thread := Some p, next_thread := Some p\<rparr>)"
  have "link_pair (Some b) p s = Some (s\<lparr>tcbs := ?h\<rparr>)"
    using assms by (simp add: link_pair_def upd_tcb_def fun_upd_twist)
  moreover have "ring ?h [b, p]" using assms by (simp add: ring_def link_def)
  moreover have "\<forall>x. status_of ?h x = status_of (tcbs s) x" using assms by simp
  ultimately show ?thesis by blast
qed

lemma link_behind_ring:
  assumes r: "ring (tcbs s) xs" and c: "curr s = Some (hd xs)" and p: "p \<notin> set xs" "tcbs s p = Some n"
  shows "\<exists>h. link_behind p s = Some (s\<lparr>head := Some (last xs), tcbs := h\<rparr>) \<and> ring h (xs @ [p]) \<and>
    (\<forall>x. status_of h x = status_of (tcbs s) x)"
proof -
  from r have ne: "xs \<noteq> []" by (simp add: ring_def)
  then have notp: "last xs \<noteq> p" "hd xs \<noteq> p" using p(1) by auto
  obtain f where f: "tcbs s (hd xs) = Some f" "prev_thread f = Some (last xs)"
    using ring_prev_hd [OF r] by (auto simp: prv_def Option_bind_eq_Some_conv)
  obtain l where l: "tcbs s (last xs) = Some l" using ring_allocated [OF r] ne by (meson last_in_set)
  define h1 where "h1 = (tcbs s)(last xs \<mapsto> l\<lparr>next_thread := Some p\<rparr>,
      p \<mapsto> n\<lparr>prev_thread := Some (last xs), next_thread := Some (hd xs)\<rparr>)"
  obtain f' where f': "h1 (hd xs) = Some f'" "t_status f' = t_status f" "next_thread f' = nxt h1 (hd xs)"
    using f l notp by (cases "last xs = hd xs") (auto simp: h1_def nxt_def)
  define h2 where "h2 = h1(hd xs \<mapsto> f'\<lparr>prev_thread := Some p\<rparr>)"
  have "link_behind p s = Some (s\<lparr>head := Some (last xs), tcbs := h2\<rparr>)"
    using f l p(2) notp c f'(1)
    by (simp add: link_behind_def deref_def upd_tcb_def h1_def h2_def)
  moreover have n: "nxt h2 x = (if x = p then Some (hd xs) else if x = last xs then Some p else nxt (tcbs s) x)"
    and v: "prv h2 x = (if x = hd xs then Some p else if x = p then Some (last xs) else prv (tcbs s) x)" for x
    using f' l notp by (auto simp: h1_def h2_def nxt_def prv_def)
  have "ring h2 (xs @ [p])"
    using notp p(1) by (intro ring_snoc [OF r p(1)]) (auto simp: n v link_def)
  moreover have "\<forall>x. status_of h2 x = status_of (tcbs s) x"
    using f' f l p(2) by (simp add: h1_def h2_def)
  ultimately show ?thesis by blast
qed

end
