(* ===== verification/Thread_Entry.thy ===== *)
theory Thread_Entry
  imports Tcb_Ring
begin

text \<open>
  The first instructions of a new thread. \<open>longjmp\<close> loads the registers from the environment that
  \<open>pthread_create\<close> wrote, undoing the mangling of the stack pointer and of the program counter;
  \<open>start_thunk\<close> (\<open>ec440threads.h\<close>) then runs, after the prologue the compiler gives it.

  The machine has the registers the code touches and a memory of eight-byte cells, one per address;
  all accesses are at \<open>rsp\<close> and \<open>rsp - 8\<close>, so cells never overlap.
\<close>

record cpu =
  rip :: u64
  rsp :: u64
  rbp :: u64
  rdi :: u64
  r12 :: u64
  r13 :: u64
  mem :: "u64 \<Rightarrow> u64"

definition push_q :: "u64 \<Rightarrow> cpu \<Rightarrow> cpu" where
  "push_q v c = c\<lparr>rsp := rsp c - 8, mem := (mem c)(rsp c - 8 := v)\<rparr>"

definition pop_rbp :: "cpu \<Rightarrow> cpu" where
  "pop_rbp c = c\<lparr>rbp := mem c (rsp c), rsp := rsp c + 8\<rparr>"

definition ret_q :: "cpu \<Rightarrow> cpu" where
  "ret_q c = c\<lparr>rip := mem c (rsp c), rsp := rsp c + 8\<rparr>"

text \<open>What \<open>longjmp\<close> does with the registers \<open>pthread_create\<close> sets.\<close>

definition load_env :: "u64 \<Rightarrow> regs \<Rightarrow> cpu \<Rightarrow> cpu" where
  "load_env g e c = c\<lparr>rsp := ptr_demangle g (jb_rsp e), r12 := jb_r12 e, r13 := jb_r13 e,
                      rip := ptr_demangle g (jb_pc e)\<rparr>"

definition start_thunk :: "cpu \<Rightarrow> cpu" where
  "start_thunk c =
    (let c = push_q (rbp c) c;
         c = c\<lparr>rbp := rsp c\<rparr>;
         c = pop_rbp c;
         c = c\<lparr>rdi := r13 c\<rparr>;
         c = push_q (r12 c) c
     in ret_q c)"

lemma start_thunk_effect:
  "start_thunk c = c\<lparr>rip := r12 c, rdi := r13 c, mem := (mem c)(rsp c - 8 := r12 c)\<rparr>"
  by (cases c) (simp add: start_thunk_def push_q_def pop_rbp_def ret_q_def Let_def)

text \<open>The address of \<open>pthread_exit\<close> that \<open>pthread_create\<close> copies to the top of the stack.\<close>

definition push_exit :: "u64 \<Rightarrow> u64 \<Rightarrow> (u64 \<Rightarrow> u64) \<Rightarrow> (u64 \<Rightarrow> u64)" where
  "push_exit stk exit_addr m = m(stk + of_nat THREAD_STACK_SIZE - of_nat ADDRESS_SIZE := exit_addr)"

text \<open>
  C14. A thread that is jumped to for the first time is in its start routine, with its argument in
  \<open>rdi\<close> and the top of its stack holding the address of \<open>pthread_exit\<close>, so that a return from the
  start routine enters \<open>pthread_exit\<close>. The only other cell written is the one below.
\<close>

theorem new_thread_enters_start_routine:
  assumes "new_env g thunk stk start arg = Entry e"
    and c: "c = start_thunk (load_env g e (c0\<lparr>mem := push_exit stk exit_addr (mem c0)\<rparr>))"
  shows "rip (load_env g e c0) = thunk \<and> rip c = start \<and> rdi c = arg \<and>
    rsp c = stk + of_nat THREAD_STACK_SIZE - of_nat ADDRESS_SIZE \<and> mem c (rsp c) = exit_addr \<and>
    rip (ret_q c) = exit_addr \<and>
    (\<forall>a. a \<noteq> rsp c \<and> a \<noteq> rsp c - 8 \<longrightarrow> mem c a = mem c0 a)"
proof -
  define top where "top = stk + of_nat THREAD_STACK_SIZE - of_nat ADDRESS_SIZE"
  from assms(1) have e: "ptr_demangle g (jb_rsp e) = top" "ptr_demangle g (jb_pc e) = thunk"
    "jb_r12 e = start" "jb_r13 e = arg"
    by (auto simp: new_env_def top_def)
  have ne: "top \<noteq> top - 8" by simp
  have m: "push_exit stk exit_addr (mem c0) = (mem c0)(top := exit_addr)"
    by (simp only: push_exit_def top_def)
  show ?thesis
    unfolding c start_thunk_effect load_env_def e m top_def [symmetric] ret_q_def using ne by simp
qed

definition cpu0 :: cpu where
  "cpu0 = \<lparr>rip = 0, rsp = 0, rbp = 0, rdi = 0, r12 = 0, r13 = 0, mem = (\<lambda>_. 0)\<rparr>"

definition env0 :: regs where
  "env0 = \<lparr>jb_rsp = ptr_mangle 42 (4096 + 32767 - 8), jb_r12 = 100, jb_r13 = 5, jb_pc = ptr_mangle 42 77\<rparr>"

theorem new_thread_enters_start_routine_witness:
  "rip (start_thunk (load_env 42 env0 (cpu0\<lparr>mem := push_exit 4096 200 (mem cpu0)\<rparr>))) = 100"
proof -
  have "new_env 42 77 4096 100 5 = Entry env0"
    by (simp add: new_env_def env0_def THREAD_STACK_SIZE_def ADDRESS_SIZE_def)
  from new_thread_enters_start_routine [OF this refl, of cpu0 200] show ?thesis by blast
qed

text \<open>
  \<open>ptr_mangle\<close> and \<open>ptr_demangle\<close> are inverse to each other for every pointer guard, so every
  pointer is mangled to a different value.
\<close>

lemma mangling_round_trip:
  "ptr_demangle g (ptr_mangle g p) = p \<and> ptr_mangle g (ptr_demangle g q) = q \<and> bij (ptr_mangle g)"
proof -
  have "bij (ptr_mangle g)"
    by (rule o_bij [of "ptr_demangle g"]) (simp_all add: fun_eq_iff)
  then show ?thesis by simp
qed

end
