(* ===== verification/Thread_Library.thy ===== *)
theory Thread_Library
  imports Tcb_Ring
begin

text \<open>
  The first threading library, \<open>thread_library/src/threads.c\<close>. It shares the control blocks with
  the synchronization library, does not hide the alarm, and never removes the control block of a
  thread that has exited. Its scheduler and \<open>scheduler_init\<close> are translated from its own file;
  \<open>lib_schedule_search\<close> and \<open>lib_scheduler_init_same\<close> then show where the two files agree.
\<close>

text \<open>The search, with the counter of its loop.\<close>

function lib_sched_loop :: "nat \<Rightarrow> 'a threads_scheme \<Rightarrow> (outcome \<times> 'a threads_scheme) option" where
  "lib_sched_loop i s =
    (if i < MAX_THREADS + 1
     then do {
       t \<leftarrow> deref s (curr s);
       let s = s\<lparr>curr := next_thread t\<rparr>;
       if curr s = None then Some (Returned, s)
       else do {
         u \<leftarrow> deref s (curr s);
         if t_status u = TS_READY
         then map_option (Pair Switched) (set_status (curr s) TS_RUNNING s)
         else lib_sched_loop (i + 1) s } }
     else Some (Returned, s))"
  by pat_completeness auto

termination by (relation "measure (\<lambda>(i, s). MAX_THREADS + 1 - i)") simp_all

declare lib_sched_loop.simps [simp del]

definition lib_schedule :: "'a threads_scheme \<Rightarrow> (outcome \<times> 'a threads_scheme) option" where
  "lib_schedule s = do {
     s \<leftarrow> upd_tcb (curr s) (env_update (\<lambda>_. Saved)) s;
     t \<leftarrow> deref s (curr s);
     s \<leftarrow> (if t_status t = TS_RUNNING then set_status (curr s) TS_READY s else Some s);
     lib_sched_loop 0 s }"

text \<open>\<open>a\<close> is what \<open>malloc\<close> returns, \<open>mask_ok\<close> and \<open>act_ok\<close> say whether \<open>sigemptyset\<close> and
  \<open>sigaction\<close> succeed.\<close>

definition lib_scheduler_init ::
  "ptr option \<Rightarrow> bool \<Rightarrow> bool \<Rightarrow> 'a threads_scheme \<Rightarrow> int \<times> 'a threads_scheme" where
  "lib_scheduler_init a mask_ok act_ok s =
    (let s = s\<lparr>thread_id_counter := 0\<rparr>;
         s = s\<lparr>num_curr_threads := 0\<rparr>;
         s = s\<lparr>curr := a\<rparr> in
     case curr s of
       None \<Rightarrow> (- 1, s)
     | Some p \<Rightarrow>
        let s = s\<lparr>tcbs := (tcbs s)(p \<mapsto> \<lparr>thread_id = thread_id_counter s, stack = 0, t_status = TS_RUNNING,
                    env = Saved, next_thread = None, prev_thread = None\<rparr>)\<rparr>;
            s = s\<lparr>thread_id_counter := thread_id_counter s + 1\<rparr>;
            s = s\<lparr>tail := curr s\<rparr>;
            s = s\<lparr>head := curr s\<rparr>;
            s = s\<lparr>num_curr_threads := num_curr_threads s + 1\<rparr>
        in if \<not> mask_ok then (- 1, s) else if \<not> act_ok then (- 1, s) else (0, s))"

definition lib_pthread_create ::
  "ptr option \<Rightarrow> bool \<Rightarrow> ptr option \<Rightarrow> u64 \<Rightarrow> start_args \<Rightarrow> threads \<Rightarrow> (int \<times> u64 option \<times> threads) option" where
  "lib_pthread_create a sig_ok b stk e s =
    (let (return_code, s) =
       (if is_first_call s
        then let (rc, s) = lib_scheduler_init a sig_ok sig_ok (s\<lparr>is_first_call := False\<rparr>) in
             (if rc = 0 then 0 else 1, s)
        else (0, s)) in
     case b of
       None \<Rightarrow> Some (1, None, s)
     | Some p \<Rightarrow>
        let s = s\<lparr>tcbs := (tcbs s)(p \<mapsto> new_block stk e)\<rparr> in
        if stk = 0 then Some (1, None, s)
        else do {
          s \<leftarrow> (if num_curr_threads s = 1 then link_pair (head s) p s else link_behind p s);
          (i, s) \<leftarrow> finish_create p s;
          Some (return_code, Some i, s) })"

definition lib_pthread_exit :: "threads \<Rightarrow> (call \<times> threads) option" where
  "lib_pthread_exit s = do {
     s \<leftarrow> set_status (curr s) TS_EXITED s;
     let s = s\<lparr>num_curr_threads := num_curr_threads s - 1\<rparr>;
     if num_curr_threads s > 0
     then do { (r, s) \<leftarrow> lib_schedule s; Some (if r = Switched then (Away, s) else (Gone, s)) }
     else Some (Gone, s) }"

definition lib_pthread_self :: "threads \<Rightarrow> u64 option" where
  "lib_pthread_self s = map_option thread_id (deref s (curr s))"

section \<open>The search counted down\<close>

lemma lib_sched_loop_search: "lib_sched_loop i s = sched_loop (MAX_THREADS + 1 - i) s"
proof (induction i s rule: lib_sched_loop.induct)
  case (1 i s)
  show ?case
  proof (cases "i < MAX_THREADS + 1")
    case True
    then have n: "MAX_THREADS + 1 - i = Suc (MAX_THREADS + 1 - (i + 1))" by simp
    show ?thesis unfolding n
    proof (cases "deref s (curr s)")
      case (Some t)
      let ?s = "s\<lparr>curr := next_thread t\<rparr>"
      show "lib_sched_loop i s = sched_loop (Suc (MAX_THREADS + 1 - (i + 1))) s"
      proof (cases "deref ?s (next_thread t)")
        case None
        with Some True show ?thesis
          by (cases "next_thread t") (simp_all add: lib_sched_loop.simps [of i] sched_loop.simps(2))
      next
        case u: (Some u)
        then obtain c where c: "next_thread t = Some c" by (cases "next_thread t") (auto simp: deref_def)
        show ?thesis
        proof (cases "t_status u = TS_READY")
          case True
          with Some u c \<open>i < MAX_THREADS + 1\<close> show ?thesis
            by (simp add: lib_sched_loop.simps [of i] sched_loop.simps(2) deref_def upd_tcb_def)
        next
          case False
          from 1 [OF \<open>i < MAX_THREADS + 1\<close> Some refl _ _ False] u c
          have "lib_sched_loop (i + 1) ?s = sched_loop (MAX_THREADS + 1 - (i + 1)) ?s" by simp
          with False Some u c \<open>i < MAX_THREADS + 1\<close> show ?thesis
            by (simp add: lib_sched_loop.simps [of i] sched_loop.simps(2))
        qed
      qed
    qed (use True in \<open>simp add: lib_sched_loop.simps [of i] sched_loop.simps(2)\<close>)
  qed (simp add: lib_sched_loop.simps [of i])
qed

lemma lib_schedule_search:
  "lib_schedule s = do {
     s \<leftarrow> upd_tcb (curr s) (env_update (\<lambda>_. Saved)) s;
     t \<leftarrow> deref s (curr s);
     s \<leftarrow> (if t_status t = TS_RUNNING then set_status (curr s) TS_READY s else Some s);
     sched_loop (MAX_THREADS + 1) s }"
  by (simp add: lib_schedule_def lib_sched_loop_search)

lemma lib_scheduler_init_same: "lib_scheduler_init a m k s = scheduler_init a (m \<and> k) s"
  by (simp add: lib_scheduler_init_def scheduler_init_def Let_def split: option.split)

section \<open>The scheduler on a ring with dead threads\<close>

text \<open>\<open>lib_ok s xs\<close>: the current thread is the first of the ring and runs, the others are ready or
  have exited.\<close>

definition lib_ok :: "threads \<Rightarrow> ptr list \<Rightarrow> bool" where
  "lib_ok s xs \<longleftrightarrow> ring (tcbs s) xs \<and> curr s = Some (hd xs) \<and> length xs \<le> MAX_THREADS + 1 \<and>
    status_of (tcbs s) (hd xs) = Some TS_RUNNING \<and>
    (\<forall>x \<in> set (tl xs). status_of (tcbs s) x = Some TS_READY \<or> status_of (tcbs s) x = Some TS_EXITED)"

lemma lib_okD:
  assumes "lib_ok s xs"
  shows "ring (tcbs s) xs" "curr s = Some (hd xs)" "length xs \<le> MAX_THREADS + 1" "xs \<noteq> []" "hd xs \<in> set xs"
    "\<exists>t. tcbs s (hd xs) = Some t \<and> t_status t = TS_RUNNING" "distinct xs"
  using assms by (auto simp: lib_ok_def ring_def status_of_Some)

lemma lib_schedule_running:
  assumes "curr s = Some c" and "status_of (tcbs s) c = Some TS_RUNNING"
  shows "lib_schedule s = sched_loop (MAX_THREADS + 1) (suspend c TS_READY s)"
  using assms by (auto simp: lib_schedule_search deref_def upd_tcb_def suspend_def status_of_Some)

lemma lib_ok_dispatch:
  assumes "ring (tcbs s) zs" and "ready (tcbs s) (hd zs)" and "length zs \<le> MAX_THREADS + 1"
    and "\<And>x. x \<in> set zs \<Longrightarrow> status_of (tcbs s) x = Some TS_READY \<or> status_of (tcbs s) x = Some TS_EXITED"
  shows "lib_ok (dispatch (hd zs) s) zs"
proof -
  from assms(1) have "zs \<noteq> []" "hd zs \<notin> set (tl zs)"
    by (auto simp: ring_def dest: distinct_hd_notin_tl)
  then have "status_of (tcbs (dispatch (hd zs) s)) x = Some TS_READY \<or>
      status_of (tcbs (dispatch (hd zs) s)) x = Some TS_EXITED" if "x \<in> set (tl zs)" for x
    using that assms(4) [of x] list.set_sel(2) [of zs x] by (metis (no_types, lifting) status_dispatch)
  moreover have "status_of (tcbs (dispatch (hd zs) s)) (hd zs) = Some TS_RUNNING"
    using assms(2) by (auto simp: status_dispatch ready_def status_of_Some)
  ultimately show ?thesis using assms(1,3) by (simp add: lib_ok_def)
qed

lemma lib_alarm:
  assumes ok: "lib_ok s xs"
  defines "zs \<equiv> rr_next (\<lambda>x. x = hd xs \<or> ready (tcbs s) x) (rotate1 xs)"
  shows "\<exists>s'. lib_schedule s = Some (Switched, s') \<and> lib_ok s' zs \<and> is_first_call s' = is_first_call s \<and>
    (\<forall>x. status_of (tcbs s') x = (if x = hd zs then Some TS_RUNNING
       else if x = hd xs then Some TS_READY else status_of (tcbs s) x))"
proof -
  note d = lib_okD [OF ok]
  let ?t = "suspend (hd xs) TS_READY s"
  have P: "ready (tcbs ?t) = (\<lambda>x. x = hd xs \<or> ready (tcbs s) x)"
    using d(6) by (auto simp: fun_eq_iff ready_def status_suspend)
  have ex: "\<exists>x \<in> set xs. ready (tcbs ?t) x" using d(5) by (auto simp: P)
  have st: "status_of (tcbs ?t) x = Some TS_READY \<or> status_of (tcbs ?t) x = Some TS_EXITED" if "x \<in> set zs" for x
  proof (cases "x = hd xs")
    case False
    with that have "x \<in> set (tl xs)" unfolding zs_def using d(4) by (cases xs) auto
    then show ?thesis using ok False by (auto simp: lib_ok_def status_suspend)
  qed (use d(6) in \<open>auto simp: status_suspend\<close>)
  have "lib_schedule s = sched_loop (MAX_THREADS + 1) ?t"
    using d(2,6) by (intro lib_schedule_running) auto
  also have "\<dots> = Some (Switched, dispatch (hd zs) ?t)"
    using search_found [of ?t xs "MAX_THREADS + 1"] d(1-3) ex by (simp add: P zs_def)
  finally have "lib_schedule s = Some (Switched, dispatch (hd zs) ?t)" .
  moreover have rd: "ready (tcbs ?t) (hd zs)" unfolding P zs_def using d(5) by (intro hd_rr_next) auto
  moreover have "lib_ok (dispatch (hd zs) ?t) zs"
  proof (rule lib_ok_dispatch [OF _ _ _ st])
    show "ring (tcbs ?t) zs" using d(1) by (simp add: zs_def ring_rr_next ring_rotate1)
    show "ready (tcbs ?t) (hd zs)" by (rule rd)
    show "length zs \<le> MAX_THREADS + 1" using d(3) by (simp add: zs_def)
  qed
  moreover have "status_of (tcbs (dispatch (hd zs) ?t)) x = (if x = hd zs then Some TS_RUNNING
       else if x = hd xs then Some TS_READY else status_of (tcbs s) x)" for x
  proof -
    have "tcbs ?t (hd zs) \<noteq> None" using rd unfolding ready_def by (metis option.distinct(1) status_of_at(2))
    then show ?thesis using d(6) by (auto simp: status_dispatch status_suspend)
  qed
  ultimately show ?thesis by (intro exI [of _ "dispatch (hd zs) ?t"]) simp
qed

section \<open>Exit and creation\<close>

lemma lib_exit:
  assumes ok: "lib_ok s xs" and n: "1 < num_curr_threads s" and ex: "\<exists>x \<in> set (tl xs). ready (tcbs s) x"
  defines "zs \<equiv> rr_next (ready (tcbs s)) (rotate1 xs)"
  shows "\<exists>s'. lib_pthread_exit s = Some (Away, s') \<and> lib_ok s' zs \<and> is_first_call s' = is_first_call s \<and>
    (\<forall>x. status_of (tcbs s') x = (if x = hd zs then Some TS_RUNNING
       else if x = hd xs then Some TS_EXITED else status_of (tcbs s) x))"
proof -
  note d = lib_okD [OF ok]
  from d(6) obtain t where t: "tcbs s (hd xs) = Some t" "t_status t = TS_RUNNING" by blast
  let ?s = "s\<lparr>num_curr_threads := num_curr_threads s - 1\<rparr>"
  let ?t = "suspend (hd xs) TS_EXITED ?s"
  have P: "ready (tcbs ?t) = ready (tcbs s)" using t by (auto simp: fun_eq_iff ready_def status_suspend)
  have ex': "\<exists>x \<in> set xs. ready (tcbs ?t) x" using ex d(4) list.set_sel(2) by (fastforce simp: P)
  have sub: "x \<in> set (tl xs)" if "x \<in> set zs" "x \<noteq> hd xs" for x
    using that d(4) unfolding zs_def by (cases xs) auto
  have st: "status_of (tcbs ?t) x = Some TS_READY \<or> status_of (tcbs ?t) x = Some TS_EXITED" if "x \<in> set zs" for x
    using sub [OF that] ok t by (cases "x = hd xs") (auto simp: lib_ok_def status_suspend)
  have "lib_schedule (s\<lparr>tcbs := (tcbs s)(hd xs \<mapsto> t\<lparr>t_status := TS_EXITED\<rparr>),
      num_curr_threads := num_curr_threads s - 1\<rparr>) = sched_loop (MAX_THREADS + 1) ?t"
    using t d(2) by (cases t) (simp add: lib_schedule_search deref_def upd_tcb_def suspend_def)
  also have "\<dots> = Some (Switched, dispatch (hd zs) ?t)"
    using search_found [of ?t xs "MAX_THREADS + 1"] d(1-3) ex' by (simp add: P zs_def)
  finally have "lib_pthread_exit s = Some (Away, dispatch (hd zs) ?t)"
    using n t d(2) by (simp add: lib_pthread_exit_def upd_tcb_def Let_def)
  moreover have z: "ring (tcbs ?t) zs" "ready (tcbs ?t) (hd zs)" "length zs \<le> MAX_THREADS + 1"
    using d(1,3) ex' hd_rr_next [of "rotate1 xs" "ready (tcbs s)"]
    unfolding zs_def P by (simp_all add: ring_rr_next ring_rotate1)
  moreover have "lib_ok (dispatch (hd zs) ?t) zs" by (rule lib_ok_dispatch [OF z st])
  moreover have "tcbs ?t (hd zs) \<noteq> None" using z(2) unfolding ready_def by (metis option.distinct(1) status_of_at(2))
  then have "status_of (tcbs (dispatch (hd zs) ?t)) x = (if x = hd zs then Some TS_RUNNING
       else if x = hd xs then Some TS_EXITED else status_of (tcbs s) x)" for x
    using t by (auto simp: status_dispatch status_suspend)
  ultimately show ?thesis by simp
qed

lemma lib_exit_alone:
  assumes ok: "lib_ok s xs" and none: "\<forall>x \<in> set (tl xs). \<not> ready (tcbs s) x"
  shows "\<exists>s'. lib_pthread_exit s = Some (Gone, s')"
proof -
  note d = lib_okD [OF ok]
  from d(6) obtain t where t: "tcbs s (hd xs) = Some t" "t_status t = TS_RUNNING" by blast
  let ?t = "suspend (hd xs) TS_EXITED (s\<lparr>num_curr_threads := num_curr_threads s - 1\<rparr>)"
  have "ready (tcbs ?t) = ready (tcbs s)" using t by (auto simp: fun_eq_iff ready_def status_suspend)
  moreover have "\<not> ready (tcbs s) (hd xs)" using t by (simp add: ready_def)
  ultimately have "\<forall>x \<in> set xs. \<not> ready (tcbs ?t) x" using none by (cases xs) auto
  with search_none [of ?t xs "MAX_THREADS + 1"] d(1,2)
  have "sched_loop (MAX_THREADS + 1) ?t = Some (Returned, ?t\<lparr>curr := Some (hd (rotate (MAX_THREADS + 1) xs))\<rparr>)" by simp
  moreover have "lib_schedule (s\<lparr>tcbs := (tcbs s)(hd xs \<mapsto> t\<lparr>t_status := TS_EXITED\<rparr>),
      num_curr_threads := num_curr_threads s - 1\<rparr>) = sched_loop (MAX_THREADS + 1) ?t"
    using t d(2) by (cases t) (simp add: lib_schedule_search deref_def upd_tcb_def suspend_def)
  ultimately show ?thesis using t d(2) by (simp add: lib_pthread_exit_def upd_tcb_def Let_def)
qed

lemma lib_create:
  assumes ok: "lib_ok s xs" and n: "num_curr_threads s \<noteq> 1" "length xs \<le> MAX_THREADS" "\<not> is_first_call s"
    and p: "tcbs s p = None" and stk: "stk \<noteq> 0"
  shows "\<exists>s'. lib_pthread_create a sok (Some p) stk e s = Some (0, Some (thread_id_counter s), s') \<and>
    lib_ok s' (xs @ [p]) \<and> ready (tcbs s') = (\<lambda>x. x = p \<or> ready (tcbs s) x) \<and>
    num_curr_threads s' = num_curr_threads s + 1 \<and> \<not> is_first_call s'"
proof -
  note d = lib_okD [OF ok]
  let ?s = "s\<lparr>tcbs := (tcbs s)(p \<mapsto> new_block stk e)\<rparr>"
  have pn: "p \<notin> set xs" using ring_allocated [OF d(1)] p by fastforce
  have "ring (tcbs ?s) xs \<longleftrightarrow> ring (tcbs s) xs" using pn by (intro ring_cong) auto
  with d(1,2) pn have "\<exists>h. link_behind p ?s = Some (?s\<lparr>head := Some (last xs), tcbs := h\<rparr>) \<and>
      ring h (xs @ [p]) \<and> (\<forall>x. status_of h x = status_of (tcbs ?s) x)"
    by (intro link_behind_ring) auto
  then obtain h where l: "link_behind p ?s = Some (s\<lparr>head := Some (last xs), tcbs := h\<rparr>)"
    and rh: "ring h (xs @ [p])" and sth: "\<And>x. status_of h x = status_of (tcbs ?s) x" by auto
  obtain m where m: "h p = Some m" using ring_allocated [OF rh, of p] by auto
  let ?h = "h(p \<mapsto> m\<lparr>t_status := TS_READY, thread_id := thread_id_counter s\<rparr>)"
  have r: "ring ?h (xs @ [p])" using rh by (subst ring_cong [of _ _ h]) (auto simp: nxt_def prv_def m)
  have tl: "x \<noteq> p" if "x \<in> set (tl xs)" for x using that pn list.set_sel(2) d(4) by metis
  have "hd xs \<noteq> p" using pn d(5) by auto
  then have "lib_ok (s\<lparr>head := Some (last xs), tcbs := ?h, num_curr_threads := num_curr_threads s + 1,
      thread_id_counter := thread_id_counter s + 1\<rparr>) (xs @ [p])"
    using r ok n(2) d(4) sth tl by (auto simp: lib_ok_def)
  moreover have "ready ?h = (\<lambda>x. x = p \<or> ready (tcbs s) x)" using sth by (auto simp: ready_def fun_eq_iff)
  ultimately show ?thesis
    using n stk l m by (simp add: lib_pthread_create_def Let_def finish_create_Some)
qed

section \<open>A thread lost by its own \<open>pthread_create\<close>\<close>

lemma chain_append: "chain h (xs @ y # ys) \<longleftrightarrow> chain h (xs @ [y]) \<and> chain h (y # ys)"
  by (induction xs rule: chain.induct [of _ h]) (cases ys, auto)+

lemma ring_chain: "ring h xs \<Longrightarrow> chain h xs"
proof -
  assume r: "ring h xs"
  have "links h ys \<Longrightarrow> chain h ys" for ys
    by (induction h ys rule: links.induct) (auto simp: link_def prv_def Option_bind_eq_Some_conv)
  with ring_links [OF r] show ?thesis by blast
qed

lemma chain_cong:
  "(\<And>x. x \<in> set (butlast xs) \<Longrightarrow> nxt h' x = nxt h x) \<Longrightarrow> (\<And>x. h x \<noteq> None \<Longrightarrow> h' x \<noteq> None) \<Longrightarrow> chain h xs \<Longrightarrow> chain h' xs"
  by (induction h xs rule: chain.induct) auto

text \<open>\<open>n\<close> alarms in a row.\<close>

fun lib_alarms :: "nat \<Rightarrow> threads \<Rightarrow> threads option" where
  "lib_alarms 0 s = Some s"
| "lib_alarms (Suc n) s = do { (r, s) \<leftarrow> lib_schedule s; lib_alarms n s }"

lemma lib_alarms_alone:
  assumes "lib_ok s [p, b]" and "status_of (tcbs s) b = Some TS_EXITED" and "c \<noteq> p" "c \<noteq> b"
    and "status_of (tcbs s) c = Some TS_READY"
  shows "\<exists>s'. lib_alarms n s = Some s' \<and> curr s' = Some p \<and> status_of (tcbs s') c = Some TS_READY"
  using assms
proof (induction n arbitrary: s)
  case 0
  then show ?case by (simp add: lib_ok_def)
next
  case (Suc n)
  have "\<not> ready (tcbs s) b" using Suc.prems(2) by (simp add: ready_def)
  moreover have "p \<noteq> b" using Suc.prems(1) by (auto simp: lib_ok_def ring_def)
  ultimately have "rr_next (\<lambda>x. x = p \<or> ready (tcbs s) x) [b, p] = [p, b]" by (simp add: rr_next_def)
  then obtain s1 where s1: "lib_schedule s = Some (Switched, s1)" "lib_ok s1 [p, b]"
    "status_of (tcbs s1) x = (if x = p then Some TS_RUNNING else status_of (tcbs s) x)" for x
    using lib_alarm [OF Suc.prems(1)] by auto
  from Suc.IH [OF s1(2) _ Suc.prems(3,4)] s1 Suc.prems \<open>p \<noteq> b\<close> show ?case by simp
qed

lemma lib_create_links_head:
  assumes ok: "lib_ok s xs" and b: "head s = Some b" "b \<in> set xs" and n: "num_curr_threads s = 1" "\<not> is_first_call s"
    and p: "tcbs s p = None" and stk: "stk \<noteq> 0"
  shows "\<exists>s'. lib_pthread_create a sok (Some p) stk e s = Some (0, Some (thread_id_counter s), s') \<and>
    ring (tcbs s') [b, p] \<and> curr s' = curr s \<and> (\<forall>x. tcbs s x \<noteq> None \<longrightarrow> tcbs s' x \<noteq> None) \<and>
    (\<forall>x. x \<noteq> b \<and> x \<noteq> p \<longrightarrow> nxt (tcbs s') x = nxt (tcbs s) x) \<and>
    (\<forall>x. status_of (tcbs s') x = (if x = p then Some TS_READY else status_of (tcbs s) x))"
proof -
  note d = lib_okD [OF ok]
  obtain t where t: "tcbs s b = Some t" using ring_allocated [OF d(1) b(2)] by blast
  have "b \<noteq> p" using t p by auto
  then show ?thesis
    using n stk t b(1) p
    by (auto simp: lib_pthread_create_def link_pair_def finish_create_def upd_tcb_def Let_def ring_def link_def)
qed

lemma lib_create_orphans:
  assumes ok: "lib_ok s (c # us @ b # vs)" and hb: "head s = Some b"
    and n: "num_curr_threads s = 1" "\<not> is_first_call s" "length us < MAX_THREADS"
    and dead: "\<And>x. x \<in> set (us @ b # vs) \<Longrightarrow> status_of (tcbs s) x = Some TS_EXITED"
    and p: "tcbs s p = None" and stk: "stk \<noteq> 0"
  shows "\<exists>s' s''. lib_pthread_create a sok (Some p) stk e s = Some (0, Some (thread_id_counter s), s') \<and>
    lib_schedule s' = Some (Switched, s'') \<and> lib_ok s'' [p, b] \<and>
    status_of (tcbs s'') b = Some TS_EXITED \<and> status_of (tcbs s'') c = Some TS_READY \<and> c \<noteq> p \<and> c \<noteq> b"
proof -
  let ?xs = "c # us @ b # vs"
  note d = lib_okD [OF ok]
  from lib_create_links_head [OF ok hb _ n(1,2) p stk, of a sok e] obtain s' where
    s': "lib_pthread_create a sok (Some p) stk e s = Some (0, Some (thread_id_counter s), s')"
    and r: "ring (tcbs s') [b, p]" and c: "curr s' = Some c" and al: "\<And>x. tcbs s x \<noteq> None \<Longrightarrow> tcbs s' x \<noteq> None"
    and nx: "\<And>x. x \<noteq> b \<Longrightarrow> x \<noteq> p \<Longrightarrow> nxt (tcbs s') x = nxt (tcbs s) x"
    and st: "\<And>x. status_of (tcbs s') x = (if x = p then Some TS_READY else status_of (tcbs s) x)"
    using d(2) by auto
  have np: "x \<noteq> p" if "x \<in> set ?xs" for x using ring_allocated [OF d(1) that] p by auto
  have "chain (tcbs s) ((c # us) @ [b])"
    using ring_chain [OF d(1)] chain_append [of "tcbs s" "c # us" b vs] by simp
  moreover have "nxt (tcbs s') x = nxt (tcbs s) x" if "x \<in> set (c # us)" for x
    using that np [of x] d(7) nx [of x] by auto
  ultimately have ch1: "chain (tcbs s') ((c # us) @ [b])"
    by (intro chain_cong [of "(c # us) @ [b]" "tcbs s'" "tcbs s"]) (simp_all only: butlast_snoc al not_False_eq_True)
  have ch2: "chain (tcbs s') [b, p]" using ring_chain [OF r] .
  let ?t = "suspend c TS_READY s'"
  have "chain (tcbs s') (c # (us @ [b]) @ [p])"
    using ch1 ch2 chain_append [of "tcbs s'" "c # us" b "[p]"] by simp
  then have ch: "chain (tcbs ?t) (c # (us @ [b]) @ [p])"
    by (rule chain_cong [rotated 2]) (simp_all del: not_None_eq)
  have cd: "c \<notin> set (us @ b # vs)" using d(7) by simp
  have rc: "status_of (tcbs s') c = Some TS_RUNNING" using st np d(6) by auto
  then have ca: "tcbs s' c \<noteq> None" by (auto simp: status_of_Some)
  have stt: "status_of (tcbs ?t) x = (if x = c then Some TS_READY else status_of (tcbs s') x)" for x
    using ca by (simp add: status_suspend)
  have "sched_loop (MAX_THREADS + 1) ?t = Some (Switched, dispatch p ?t)"
  proof (rule sched_loop_chain [OF ch])
    show "\<forall>y \<in> set (us @ [b]). \<not> ready (tcbs ?t) y"
      using dead st np cd by (auto simp: ready_def stt)
    show "ready (tcbs ?t) p" using st np [of c] by (simp add: ready_def stt)
  qed (use c n(3) in simp_all)
  with lib_schedule_running [OF c rc] have "lib_schedule s' = Some (Switched, dispatch p ?t)" by simp
  moreover have "lib_ok (dispatch (hd [p, b]) ?t) [p, b]"
    using ring_rotate1 [OF r] st np [of c] np [of b] cd dead [of b]
    by (intro lib_ok_dispatch) (auto simp: ready_def stt MAX_THREADS_def)
  moreover have "status_of (tcbs (dispatch p ?t)) b = Some TS_EXITED" "status_of (tcbs (dispatch p ?t)) c = Some TS_READY"
    using st np [of c] np [of b] cd dead [of b] by (auto simp: status_dispatch stt)
  ultimately show ?thesis using s' np [of c] cd by auto
qed

end
