(* ===== verification/Thread_Sync.thy ===== *)
theory Thread_Sync
  imports Tcb_Ring
begin

text \<open>
  The threading library with mutexes and barriers, \<open>thread_synchronization/src/threads.c\<close>: one
  definition per function, over a state that extends the one of \<open>Tcb_Ring\<close> by the signal mask, the
  mutexes and the barriers.

  \<^item> Whether \<open>SIGALRM\<close> is blocked is \<open>sig_blocked\<close>; whether the global \<open>sig_mask\<close> contains it is
    \<open>sig_mask\<close>. \<open>sigprocmask\<close> fails only for an invalid first argument, which the code never
    passes, so the \<open>exit(1)\<close> branches of \<open>lock\<close> and \<open>unlock\<close> are not represented.
  \<^item> A \<open>pthread_mutex_t\<close> or \<open>pthread_barrier_t\<close> is the pointer the library stores in its first
    eight bytes (\<open>None\<close> for a zeroed one, which is what the static initialisers give).
  \<^item> A list of waiters (\<open>struct queue\<close>) is a list of control blocks, the head first.
  \<^item> What \<open>malloc\<close> returns is an argument of the operation.
\<close>

record mutex_info =
  m_init :: bool
  m_locked :: bool
  mutex_id :: int
  m_waiters :: "ptr list"

record barrier_info =
  b_init :: bool
  b_entered :: int
  b_count :: int
  barrier_id :: int
  b_waiters :: "ptr list"

record sync = threads +
  sig_blocked :: bool
  sig_mask :: bool
  mutexes :: "ptr \<rightharpoonup> mutex_info"
  barriers :: "ptr \<rightharpoonup> barrier_info"
  mutex_counter :: int
  barrier_counter :: int

definition EINVAL :: int where [c_consts]: "EINVAL = 22"
definition PTHREAD_BARRIER_SERIAL_THREAD :: int where
  [c_consts]: "PTHREAD_BARRIER_SERIAL_THREAD = - 1"

section \<open>Hiding the alarm\<close>

definition lock :: "sync \<Rightarrow> sync" where
  "lock s = (if sig_blocked s then s else s\<lparr>sig_mask := True, sig_blocked := True\<rparr>)"

definition unlock :: "sync \<Rightarrow> sync" where
  "unlock s = (if \<not> sig_blocked s then s
               else if sig_mask s then s\<lparr>sig_blocked := False\<rparr> else s)"

section \<open>The scheduler\<close>

text \<open>The case \<open>TS_EXITED\<close>: the block is freed, then its neighbours are linked to each other.\<close>

definition unlink_exited :: "sync \<Rightarrow> sync option" where
  "unlink_exited s = do {
     t \<leftarrow> deref s (curr s);
     c \<leftarrow> curr s;
     let prev = prev_thread t;
     let nxt = next_thread t;
     let s = s\<lparr>tcbs := (tcbs s)(c := None)\<rparr>;
     s \<leftarrow> set_next prev nxt s;
     s \<leftarrow> set_prev nxt prev s;
     Some (s\<lparr>curr := prev\<rparr>) }"

definition yield_running :: "sync \<Rightarrow> sync option" where
  "yield_running s = do {
     t \<leftarrow> deref s (curr s);
     if t_status t = TS_RUNNING then set_status (curr s) TS_READY s else Some s }"

definition search :: "sync \<Rightarrow> (outcome \<times> sync) option" where
  "search s = do {
     (r, s) \<leftarrow> sched_loop (MAX_THREADS + 1) s;
     Some (r, if r = Switched then unlock s else s) }"

definition schedule :: "sync \<Rightarrow> (outcome \<times> sync) option" where
  "schedule s = do {
     let s = lock s;
     s \<leftarrow> upd_tcb (curr s) (env_update (\<lambda>_. Saved)) s;
     t \<leftarrow> deref s (curr s);
     (case t_status t of
        TS_EXITED \<Rightarrow> do { s \<leftarrow> unlink_exited s; s \<leftarrow> yield_running s; search s }
      | TS_RUNNING \<Rightarrow> do { s \<leftarrow> yield_running s; search s }
      | TS_BLOCKED \<Rightarrow> search s
      | TS_READY \<Rightarrow> Some (Returned, s)) }"

text \<open>The other side of \<open>setjmp\<close>: what a thread does when it is jumped to, up to the return from the
  library call that had suspended it.\<close>

definition resume :: "sync \<Rightarrow> sync option" where
  "resume s = do { s \<leftarrow> set_status (curr s) TS_RUNNING s; Some (unlock s) }"

section \<open>Threads\<close>

text \<open>
  \<open>a\<close> and \<open>sig_ok\<close> are for \<open>scheduler_init\<close>, \<open>b\<close> is the new control block, \<open>stk\<close> its stack (0
  for a failed allocation), \<open>e\<close> what is written into its environment. The members of the block that
  are not yet assigned hold a placeholder (\<open>new_block\<close>); each is assigned before it is read. \<open>return_code\<close> is a
  \<open>bool\<close>, so a failure is returned as 1. The second result is what is stored through \<open>thread\<close>.
\<close>

definition pthread_create ::
  "ptr option \<Rightarrow> bool \<Rightarrow> ptr option \<Rightarrow> u64 \<Rightarrow> start_args \<Rightarrow> sync \<Rightarrow> (int \<times> u64 option \<times> sync) option" where
  "pthread_create a sig_ok b stk e s =
    (let (return_code, s) =
       (if is_first_call s
        then let (rc, s) = scheduler_init a sig_ok (s\<lparr>is_first_call := False\<rparr>) in
             (if rc = 0 then 0 else 1, s)
        else (0, s)) in
     case b of
       None \<Rightarrow> Some (1, None, s)
     | Some p \<Rightarrow>
        let s = s\<lparr>tcbs := (tcbs s)(p \<mapsto> new_block stk e)\<rparr> in
        if stk = 0 then Some (1, None, s)
        else do {
          s \<leftarrow> (if num_curr_threads s = 1 then link_pair (curr s) p s else link_behind p s);
          (i, s) \<leftarrow> finish_create p s;
          Some (return_code, Some i, s) })"

definition pthread_exit :: "sync \<Rightarrow> (call \<times> sync) option" where
  "pthread_exit s = do {
     let s = lock s;
     s \<leftarrow> set_status (curr s) TS_EXITED s;
     let s = s\<lparr>num_curr_threads := num_curr_threads s - 1\<rparr>;
     if num_curr_threads s > 0
     then do { (r, s) \<leftarrow> schedule s;
               Some (if r = Switched then (Away, s) else (Gone, unlock s)) }
     else Some (Gone, unlock s) }"

definition pthread_self :: "sync \<Rightarrow> u64 option" where
  "pthread_self s = map_option thread_id (deref s (curr s))"

section \<open>Mutexes\<close>

definition get_mutex :: "ptr option \<Rightarrow> ptr option" where
  "get_mutex mutex = mutex"

definition pthread_mutex_init :: "ptr option \<Rightarrow> sync \<Rightarrow> call \<times> ptr option \<times> sync" where
  "pthread_mutex_init m s =
    (let s = lock s in
     case m of
       None \<Rightarrow> (Ret 0, None, unlock s)
     | Some a \<Rightarrow>
        let s = s\<lparr>mutexes := (mutexes s)(a \<mapsto>
                    \<lparr>m_init = True, m_locked = False, mutex_id = mutex_counter s, m_waiters = []\<rparr>),
                  mutex_counter := mutex_counter s + 1\<rparr>
        in (Ret 0, Some a, unlock s))"

definition pthread_mutex_destroy :: "ptr option \<Rightarrow> sync \<Rightarrow> (call \<times> sync) option" where
  "pthread_mutex_destroy mutex s =
    (let s = lock s in
     case get_mutex mutex of
       None \<Rightarrow> Some (Ret (- 1), unlock s)
     | Some a \<Rightarrow>
        (case mutexes s a of
           None \<Rightarrow> None
         | Some i \<Rightarrow> Some (Ret 0, unlock (s\<lparr>mutexes := (mutexes s)(a := None)\<rparr>))))"

text \<open>Blocking: \<open>q\<close> says whether \<open>malloc\<close> gives the queue node, which the code does not check.\<close>

definition block_on :: "bool \<Rightarrow> (ptr \<Rightarrow> sync \<Rightarrow> sync) \<Rightarrow> sync \<Rightarrow> (call \<times> sync) option" where
  "block_on q push s = do {
     c \<leftarrow> curr s;
     s \<leftarrow> set_status (curr s) TS_BLOCKED s;
     if \<not> q then None
     else do { (r, s) \<leftarrow> schedule (push c s);
               Some (if r = Switched then (Away, s) else (Ret 0, unlock s)) } }"

definition pthread_mutex_lock :: "ptr option \<Rightarrow> bool \<Rightarrow> sync \<Rightarrow> (call \<times> sync) option" where
  "pthread_mutex_lock mutex q s =
    (let s = lock s in
     case get_mutex mutex of
       None \<Rightarrow> Some (Ret (- 1), unlock s)
     | Some a \<Rightarrow>
        (case mutexes s a of
           None \<Rightarrow> None
         | Some i \<Rightarrow>
            if m_init i \<and> m_locked i
            then block_on q (\<lambda>c s. s\<lparr>mutexes := (mutexes s)(a \<mapsto> i\<lparr>m_waiters := c # m_waiters i\<rparr>)\<rparr>) s
            else if m_init i
            then Some (Ret 0, unlock (s\<lparr>mutexes := (mutexes s)(a \<mapsto> i\<lparr>m_locked := True\<rparr>)\<rparr>))
            else Some (Ret 0, unlock s)))"

definition pthread_mutex_unlock :: "ptr option \<Rightarrow> sync \<Rightarrow> (call \<times> sync) option" where
  "pthread_mutex_unlock mutex s =
    (let s = lock s in
     case get_mutex mutex of
       None \<Rightarrow> Some (Ret (- 1), unlock s)
     | Some a \<Rightarrow>
        (case mutexes s a of
           None \<Rightarrow> None
         | Some i \<Rightarrow>
            if \<not> m_init i then Some (Ret 0, unlock s)
            else if \<not> m_locked i then Some (Ret (- 1), unlock s)
            else
              (case m_waiters i of
                 [] \<Rightarrow> Some (Ret 0, unlock (s\<lparr>mutexes := (mutexes s)(a \<mapsto> i\<lparr>m_locked := False\<rparr>)\<rparr>))
               | w # ws \<Rightarrow> do {
                   s \<leftarrow> set_status (Some w) TS_READY s;
                   Some (Ret 0, unlock (s\<lparr>mutexes := (mutexes s)(a \<mapsto>
                            i\<lparr>m_locked := True, m_waiters := ws\<rparr>)\<rparr>)) })))"

section \<open>Barriers\<close>

definition pthread_barrier_init :: "ptr option \<Rightarrow> u32 \<Rightarrow> sync \<Rightarrow> call \<times> ptr option \<times> sync" where
  "pthread_barrier_init b count s =
    (if count = 0 then (Ret EINVAL, None, s)
     else
       let s = lock s in
       case b of
         None \<Rightarrow> (Ret (- 1), None, unlock s)
       | Some a \<Rightarrow>
          let s = s\<lparr>barriers := (barriers s)(a \<mapsto>
                      \<lparr>b_init = True, b_entered = 0, b_count = sint count,
                       barrier_id = barrier_counter s, b_waiters = []\<rparr>),
                    barrier_counter := barrier_counter s + 1\<rparr>
          in (Ret 0, Some a, unlock s))"

fun wake_all :: "ptr list \<Rightarrow> sync \<Rightarrow> sync option" where
  "wake_all [] s = Some s"
| "wake_all (w # ws) s = do { s \<leftarrow> set_status (Some w) TS_READY s; wake_all ws s }"

definition get_barrier :: "ptr option \<Rightarrow> ptr option" where
  "get_barrier barrier = barrier"

definition pthread_barrier_wait :: "ptr option \<Rightarrow> bool \<Rightarrow> sync \<Rightarrow> (call \<times> sync) option" where
  "pthread_barrier_wait barrier q s =
    (let s = lock s in
     case get_barrier barrier of
       None \<Rightarrow> Some (Ret 0, unlock s)
     | Some a \<Rightarrow>
        (case barriers s a of
           None \<Rightarrow> None
         | Some i \<Rightarrow>
            if \<not> b_init i then Some (Ret 0, unlock s)
            else if b_entered i \<ge> 2 ^ 31 - 1 then None
            else
              let i = i\<lparr>b_entered := b_entered i + 1\<rparr>;
                  s = s\<lparr>barriers := (barriers s)(a \<mapsto> i)\<rparr>
              in if b_entered i < b_count i
                 then block_on q (\<lambda>c s. s\<lparr>barriers := (barriers s)(a \<mapsto> i\<lparr>b_waiters := c # b_waiters i\<rparr>)\<rparr>) s
                 else if b_entered i = b_count i
                 then do {
                   s \<leftarrow> wake_all (b_waiters i) s;
                   Some (Ret PTHREAD_BARRIER_SERIAL_THREAD,
                     unlock (s\<lparr>barriers := (barriers s)(a \<mapsto> i\<lparr>b_entered := 0, b_waiters := []\<rparr>)\<rparr>)) }
                 else Some (Ret 0, unlock s)))"

definition pthread_barrier_destroy :: "ptr option \<Rightarrow> sync \<Rightarrow> (call \<times> sync) option" where
  "pthread_barrier_destroy barrier s =
    (let s = lock s in
     case get_barrier barrier of
       None \<Rightarrow> Some (Ret (- 1), unlock s)
     | Some a \<Rightarrow>
        (case barriers s a of
           None \<Rightarrow> None
         | Some i \<Rightarrow> Some (Ret 0, unlock (s\<lparr>barriers := (barriers s)(a := None)\<rparr>))))"

end
