(* ===== verification/Fair_Sched.thy ===== *)
theory Fair_Sched
  imports Tcb_Ring
begin

text \<open>
  Bounded waiting, proved once for every scheduler that keeps its threads in a queue with the
  current thread first. The interface asks of each step only how it moves a ready thread: a step
  that stays with the current thread does not move it back, a switch moves it forward or runs it.
\<close>

fun exec :: "('s \<Rightarrow> bool \<Rightarrow> 's \<Rightarrow> bool) \<Rightarrow> 's \<Rightarrow> (bool \<times> 's) list \<Rightarrow> bool" where
  "exec step s [] \<longleftrightarrow> True"
| "exec step s ((b, t) # es) \<longleftrightarrow> step s b t \<and> exec step t es"

definition switches :: "(bool \<times> 's) list \<Rightarrow> nat" where
  "switches es = length (filter fst es)"

definition pos :: "'p list \<Rightarrow> 'p \<Rightarrow> nat" where
  "pos xs p = length (takeWhile (\<lambda>x. x \<noteq> p) xs)"

lemma pos_Cons [simp]: "pos (x # xs) p = (if x = p then 0 else Suc (pos xs p))"
  by (simp add: pos_def)

lemma pos_append: "p \<in> set xs \<Longrightarrow> pos (xs @ ys) p = pos xs p"
  by (induction xs) auto

lemma pos_append_notin: "p \<notin> set xs \<Longrightarrow> pos (xs @ ys) p = length xs + pos ys p"
  by (induction xs) auto

lemma pos_less: "p \<in> set xs \<Longrightarrow> pos xs p < length xs"
  by (induction xs) auto

lemma pos_rotate1: "p \<in> set xs \<Longrightarrow> p \<noteq> hd xs \<Longrightarrow> Suc (pos (rotate1 xs) p) = pos xs p"
  by (cases xs) (auto simp: pos_append)

lemma pos_tl: "p \<in> set xs \<Longrightarrow> p \<noteq> hd xs \<Longrightarrow> Suc (pos (tl xs) p) = pos xs p"
  by (cases xs) auto

lemma pos_rr_next: "p \<in> set ys \<Longrightarrow> P p \<Longrightarrow> pos (rr_next P ys) p \<le> pos ys p"
proof -
  assume p: "p \<in> set ys" "P p"
  let ?w = "takeWhile (\<lambda>y. \<not> P y) ys" and ?v = "dropWhile (\<lambda>y. \<not> P y) ys"
  have nw: "p \<notin> set ?w" using p(2) set_takeWhileD by fastforce
  with p(1) have "p \<in> set ?v" by (metis Un_iff set_append takeWhile_dropWhile_id)
  then have "pos (rr_next P ys) p = pos ?v p" by (simp add: rr_next_def pos_append)
  also have "\<dots> \<le> pos (?w @ ?v) p" using pos_append_notin [OF nw, of ?v] by linarith
  finally show ?thesis by simp
qed

locale fair_scheduler =
  fixes step :: "'s \<Rightarrow> bool \<Rightarrow> 's \<Rightarrow> bool"
    and inv :: "'s \<Rightarrow> bool"
    and queue :: "'s \<Rightarrow> 'p list"
    and rdy :: "'s \<Rightarrow> 'p \<Rightarrow> bool"
  assumes inv_step: "inv s \<Longrightarrow> step s b t \<Longrightarrow> inv t"
    and not_first: "inv s \<Longrightarrow> rdy s p \<Longrightarrow> p \<in> set (queue s) \<Longrightarrow> p \<noteq> hd (queue s)"
    and stay: "inv s \<Longrightarrow> step s False t \<Longrightarrow> rdy s p \<Longrightarrow> p \<in> set (queue s) \<Longrightarrow>
      rdy t p \<and> p \<in> set (queue t) \<and> pos (queue t) p \<le> pos (queue s) p"
    and switch: "inv s \<Longrightarrow> step s True t \<Longrightarrow> rdy s p \<Longrightarrow> p \<in> set (queue s) \<Longrightarrow>
      hd (queue t) = p \<or> rdy t p \<and> p \<in> set (queue t) \<and> pos (queue t) p < pos (queue s) p"
begin

lemma exec_inv: "exec step s es \<Longrightarrow> inv s \<Longrightarrow> (b, t) \<in> set es \<Longrightarrow> inv t"
proof (induction es arbitrary: s)
  case (Cons e es)
  then show ?case by (cases e) (auto dest: inv_step)
qed simp

lemma bounded_waiting:
  assumes "inv s" and "exec step s es" and "rdy s p" and "p \<in> set (queue s)"
    and "pos (queue s) p \<le> switches es"
  shows "\<exists>(b, t) \<in> set es. hd (queue t) = p"
  using assms
proof (induction es arbitrary: s)
  case Nil
  then have "pos (queue s) p = 0" by (simp add: switches_def)
  with Nil.prems(4) have "hd (queue s) = p"
    by (cases "queue s") (auto split: if_splits)
  with not_first [OF Nil.prems(1,3,4)] show ?case by simp
next
  case (Cons e es)
  obtain b t where e: "e = (b, t)" by (cases e)
  with Cons.prems have st: "step s b t" "exec step t es" by simp_all
  have it: "inv t" using inv_step Cons.prems(1) st(1) by blast
  show ?case
  proof (cases b)
    case True
    with switch [OF Cons.prems(1) _ Cons.prems(3,4)] st(1)
    consider "hd (queue t) = p" | "rdy t p" "p \<in> set (queue t)" "pos (queue t) p < pos (queue s) p" by auto
    then show ?thesis
    proof cases
      case 2
      have "pos (queue t) p \<le> switches es" using 2(3) Cons.prems(5) e True by (simp add: switches_def)
      from Cons.IH [OF it st(2) 2(1,2) this] show ?thesis by auto
    qed (use e in auto)
  next
    case False
    with stay [OF Cons.prems(1) _ Cons.prems(3,4)] st(1)
    have t: "rdy t p" "p \<in> set (queue t)" "pos (queue t) p \<le> pos (queue s) p" by auto
    have "pos (queue t) p \<le> switches es" using t(3) Cons.prems(5) e False by (simp add: switches_def)
    from Cons.IH [OF it st(2) t(1,2) this] show ?thesis by auto
  qed
qed

end

end
