(* ===== verification/Thread_Lib_Props.thy ===== *)
theory Thread_Lib_Props
  imports Thread_Library Thread_Sync Fair_Sched
begin

text \<open>
  The properties of the first threading library: its scheduler, bounded waiting (through the same
  interface as the synchronization library), the agreement of the two schedulers, and the loss of
  a thread that calls \<open>pthread_create\<close> as the only live one.
\<close>

section \<open>The two schedulers agree\<close>

lemma truncate_simps [simp]:
  "tcbs (threads.truncate s) = tcbs s" "curr (threads.truncate s) = curr s"
  "threads.truncate (s\<lparr>tcbs := h\<rparr>) = (threads.truncate s)\<lparr>tcbs := h\<rparr>"
  "threads.truncate (s\<lparr>curr := p\<rparr>) = (threads.truncate s)\<lparr>curr := p\<rparr>"
  by (simp_all add: threads.truncate_def)

lemma truncate_upd: "upd_tcb p f (threads.truncate s) = map_option threads.truncate (upd_tcb p f s)"
  by (simp add: upd_tcb_def split: option.splits)

lemma truncate_deref: "deref (threads.truncate s) p = deref s p"
  by (simp add: deref_def)

lemma truncate_sched_loop:
  "sched_loop n (threads.truncate s) = map_option (map_prod id threads.truncate) (sched_loop n s)"
proof (induction n arbitrary: s)
  case (Suc n)
  show ?case
  proof (cases "deref s (curr s)")
    case (Some t)
    show ?thesis
      using Some Suc.IH [of "s\<lparr>curr := next_thread t\<rparr>"]
      by (cases "next_thread t"; cases "Option.bind (next_thread t) (tcbs s)")
        (simp_all add: sched_loop.simps truncate_deref Let_def deref_def upd_tcb_def)
  qed (simp add: sched_loop.simps truncate_deref)
qed simp

lemma truncate_masks [simp]:
  "threads.truncate (lock s) = threads.truncate s" "threads.truncate (unlock s) = threads.truncate s"
  by (simp_all add: lock_def unlock_def threads.truncate_def)

text \<open>
  C13. The two libraries' schedulers, each written from its own file, agree: in every state whose
  current thread is running, the one of the synchronization library gives the same outcome as the
  one of the first library, and the same control blocks and globals but for the alarm mask.
\<close>

theorem schedulers_agree:
  assumes "Option.bind (curr s) (status_of (tcbs s)) = Some TS_RUNNING"
  shows "map_option (map_prod id threads.truncate) (schedule s) = lib_schedule (threads.truncate s)"
proof -
  obtain c t where c: "curr s = Some c" "tcbs s c = Some t" "t_status t = TS_RUNNING"
    using assms by (auto simp: Option_bind_eq_Some_conv status_of_Some)
  let ?s = "s\<lparr>tcbs := (tcbs s)(c \<mapsto> t\<lparr>env := Saved, t_status := TS_READY\<rparr>)\<rparr>"
  have frame: "tcbs (lock s) = tcbs s" "curr (lock s) = curr s" by (simp_all add: lock_def)
  have "schedule s = search ((lock s)\<lparr>tcbs := tcbs ?s\<rparr>)"
    using c frame by (simp add: schedule_def yield_running_def deref_def upd_tcb_def)
  then have "map_option (map_prod id threads.truncate) (schedule s) =
      map_option (map_prod id threads.truncate) (sched_loop (MAX_THREADS + 1) ((lock s)\<lparr>tcbs := tcbs ?s\<rparr>))"
    by (cases "sched_loop (MAX_THREADS + 1) ((lock s)\<lparr>tcbs := tcbs ?s\<rparr>)") (auto simp: search_def)
  also have "\<dots> = sched_loop (MAX_THREADS + 1) (threads.truncate ?s)"
    by (subst truncate_sched_loop [symmetric]) simp
  also have "\<dots> = lib_schedule (threads.truncate s)"
    using c by (simp add: lib_schedule_search deref_def upd_tcb_def)
  finally show ?thesis .
qed

section \<open>The scheduler\<close>

text \<open>
  On an alarm the first library runs the next ready thread of the ring. Control blocks of
  threads that have exited stay in the ring and are passed over.
\<close>

lemma lib_schedule_refines_round_robin:
  assumes "lib_ok s xs"
  shows "\<exists>s' zs. lib_schedule s = Some (Switched, s') \<and>
    zs = rr_next (\<lambda>x. x = hd xs \<or> status_of (tcbs s) x = Some TS_READY) (rotate1 xs) \<and>
    lib_ok s' zs \<and> set zs = set xs \<and>
    (\<forall>x. status_of (tcbs s') x = (if x = hd zs then Some TS_RUNNING
       else if x = hd xs then Some TS_READY else status_of (tcbs s) x))"
proof -
  have "set (rr_next (\<lambda>x. x = hd xs \<or> ready (tcbs s) x) (rotate1 xs)) = set xs" by simp
  then show ?thesis using lib_alarm [OF assms] unfolding ready_def by blast
qed

section \<open>Histories of the first library\<close>

inductive lib_step :: "threads \<times> ptr list \<Rightarrow> bool \<Rightarrow> threads \<times> ptr list \<Rightarrow> bool" where
  lib_step_alarm: "lib_schedule s = Some (Switched, s') \<Longrightarrow>
    lib_step (s, xs) True (s', rr_next (\<lambda>x. x = hd xs \<or> ready (tcbs s) x) (rotate1 xs))"
| lib_step_exit: "lib_pthread_exit s = Some (Away, s') \<Longrightarrow>
    lib_step (s, xs) True (s', rr_next (ready (tcbs s)) (rotate1 xs))"
| lib_step_create: "num_curr_threads s \<noteq> 1 \<Longrightarrow> length xs \<le> MAX_THREADS \<Longrightarrow> tcbs s p = None \<Longrightarrow> stk \<noteq> 0 \<Longrightarrow>
    lib_pthread_create a sok (Some p) stk e s = Some (rc, i, s') \<Longrightarrow> lib_step (s, xs) False (s', xs @ [p])"

inductive_cases lib_stepE: "lib_step \<sigma> b \<tau>"

definition lib_inv :: "threads \<times> ptr list \<Rightarrow> bool" where
  "lib_inv \<sigma> \<longleftrightarrow> lib_ok (fst \<sigma>) (snd \<sigma>) \<and> \<not> is_first_call (fst \<sigma>)"

definition lib_ready :: "threads \<times> ptr list \<Rightarrow> ptr \<Rightarrow> bool" where
  "lib_ready \<sigma> p \<longleftrightarrow> ready (tcbs (fst \<sigma>)) p"

text \<open>What a step does to a ready thread, in the form the fairness interface asks for.\<close>

lemma lib_step_moves:
  assumes st: "lib_step \<sigma> b \<tau>" and inv: "lib_inv \<sigma>"
  shows "lib_inv \<tau> \<and> (\<forall>p \<in> set (snd \<sigma>). lib_ready \<sigma> p \<longrightarrow>
    (if b then hd (snd \<tau>) = p \<or> lib_ready \<tau> p \<and> p \<in> set (snd \<tau>) \<and> pos (snd \<tau>) p < pos (snd \<sigma>) p
     else lib_ready \<tau> p \<and> p \<in> set (snd \<tau>) \<and> pos (snd \<tau>) p \<le> pos (snd \<sigma>) p))"
proof -
  have closer: "pos (rr_next P (rotate1 xs)) p < pos xs p"
    if "p \<in> set xs" "p \<noteq> hd xs" "P p" for P xs and p :: ptr
    using pos_rr_next [of p "rotate1 xs" P] pos_rotate1 [OF that(1,2)] that by simp
  have nh: "p \<noteq> hd xs" if "lib_ok s xs" "ready (tcbs s) p" for s xs p
    using that lib_okD(6) [OF that(1)] by (auto simp: ready_def)
  from st show ?thesis
  proof cases
    case (lib_step_alarm s s' xs)
    then have ok: "lib_ok s xs" using inv by (simp add: lib_inv_def)
    let ?zs = "rr_next (\<lambda>x. x = hd xs \<or> ready (tcbs s) x) (rotate1 xs)"
    from lib_alarm [OF ok] lib_step_alarm have s': "lib_ok s' ?zs" "is_first_call s' = is_first_call s"
      "status_of (tcbs s') x = (if x = hd ?zs then Some TS_RUNNING else if x = hd xs then Some TS_READY
         else status_of (tcbs s) x)" for x by auto
    have "ready (tcbs s') p" if "ready (tcbs s) p" "p \<noteq> hd ?zs" for p using that s'(3) by (simp add: ready_def)
    then show ?thesis using lib_step_alarm s'(1,2) inv closer nh [OF ok] by (auto simp: lib_inv_def lib_ready_def)
  next
    case (lib_step_exit s s' xs)
    then have ok: "lib_ok s xs" using inv by (simp add: lib_inv_def)
    let ?zs = "rr_next (ready (tcbs s)) (rotate1 xs)"
    have "1 < num_curr_threads s"
      using lib_step_exit by (auto simp: lib_pthread_exit_def Option_bind_eq_Some_conv upd_tcb_eq_Some Let_def split: if_splits)
    moreover have "\<exists>x \<in> set (tl xs). ready (tcbs s) x" using lib_exit_alone [OF ok] lib_step_exit by fastforce
    ultimately have s': "lib_ok s' ?zs" "is_first_call s' = is_first_call s"
      "status_of (tcbs s') x = (if x = hd ?zs then Some TS_RUNNING else if x = hd xs then Some TS_EXITED
         else status_of (tcbs s) x)" for x using lib_exit [OF ok] lib_step_exit by auto
    have "ready (tcbs s') p" if "ready (tcbs s) p" "p \<noteq> hd ?zs" for p
      using that s'(3) nh [OF ok] by (simp add: ready_def)
    then show ?thesis using lib_step_exit s'(1,2) inv closer nh [OF ok] by (auto simp: lib_inv_def lib_ready_def)
  next
    case (lib_step_create s xs p stk a sok e rc i s')
    then have ok: "lib_ok s xs" "\<not> is_first_call s" using inv by (simp_all add: lib_inv_def)
    from lib_create [OF ok(1) lib_step_create(4,5) ok(2) lib_step_create(6,7), of a sok e] lib_step_create
    show ?thesis by (auto simp: lib_inv_def lib_ready_def pos_append)
  qed
qed

interpretation lib: fair_scheduler lib_step lib_inv snd lib_ready
proof
  show "lib_inv s \<Longrightarrow> lib_step s b t \<Longrightarrow> lib_inv t" for s b t using lib_step_moves by blast
  show "lib_inv s \<Longrightarrow> lib_ready s p \<Longrightarrow> p \<in> set (snd s) \<Longrightarrow> p \<noteq> hd (snd s)" for s p
    using lib_okD(6) [of "fst s" "snd s"] by (auto simp: lib_inv_def lib_ready_def ready_def)
  show "lib_inv s \<Longrightarrow> lib_step s False t \<Longrightarrow> lib_ready s p \<Longrightarrow> p \<in> set (snd s) \<Longrightarrow>
      lib_ready t p \<and> p \<in> set (snd t) \<and> pos (snd t) p \<le> pos (snd s) p" for s t p
    using lib_step_moves [of s False t] by auto
  show "lib_inv s \<Longrightarrow> lib_step s True t \<Longrightarrow> lib_ready s p \<Longrightarrow> p \<in> set (snd s) \<Longrightarrow>
      hd (snd t) = p \<or> lib_ready t p \<and> p \<in> set (snd t) \<and> pos (snd t) p < pos (snd s) p" for s t p
    using lib_step_moves [of s True t] by auto
qed

section \<open>Concrete states\<close>

definition largs :: start_args where
  "largs = \<lparr>sa_guard = 42, sa_thunk = 77, sa_start = 100, sa_arg = 5\<rparr>"

definition lib_boot :: threads where
  "lib_boot = \<lparr>tcbs = Map.empty, head = None, tail = None, curr = None, thread_id_counter = 0,
     num_curr_threads = 0, is_first_call = True\<rparr>"

definition block :: "u64 \<Rightarrow> u64 \<Rightarrow> thread_status \<Rightarrow> jmp_env \<Rightarrow> ptr \<Rightarrow> ptr \<Rightarrow> tcb" where
  "block i stk st e n p = \<lparr>thread_id = i, stack = stk, t_status = st, env = e,
     next_thread = Some n, prev_thread = Some p\<rparr>"

definition lib_two :: threads where
  "lib_two = \<lparr>tcbs = [1 \<mapsto> block 0 0 TS_RUNNING Saved 2 2, 2 \<mapsto> block 1 16 TS_READY (env_for largs 16) 1 1],
     head = Some 1, tail = Some 1, curr = Some 1, thread_id_counter = 2, num_curr_threads = 2, is_first_call = False\<rparr>"

lemma lib_two_reached: "lib_pthread_create (Some 1) True (Some 2) 16 largs lib_boot = Some (0, Some 1, lib_two)"
  by (simp add: lib_pthread_create_def lib_scheduler_init_same scheduler_init_def lib_boot_def lib_two_def
      block_def new_block_def link_pair_def finish_create_def upd_tcb_def Let_def fun_upd_twist)

lemma lib_two_ok: "lib_ok lib_two [1, 2]"
  by (simp add: lib_ok_def lib_two_def ring_def link_def block_def MAX_THREADS_def)

text \<open>Threads 1 and 2 have exited; thread 3 is the only one alive, and \<open>head\<close> is block 2.\<close>

definition lib_last :: threads where
  "lib_last = \<lparr>tcbs = [1 \<mapsto> block 0 0 TS_EXITED Saved 2 3, 2 \<mapsto> block 1 16 TS_EXITED Saved 3 1, 3 \<mapsto> block 2 16 TS_RUNNING (env_for largs 16) 1 2],
     head = Some 2, tail = Some 1, curr = Some 3, thread_id_counter = 3, num_curr_threads = 1, is_first_call = False\<rparr>"

lemmas sched_loop_numeral = sched_loop.simps(2) [of "pred_numeral k" for k, folded numeral_eq_Suc]

lemma lib_last_reached:
  "do { (rc, i, s) \<leftarrow> lib_pthread_create None True (Some 3) 16 largs lib_two;
        (c, s) \<leftarrow> lib_pthread_exit s;
        (c, s) \<leftarrow> lib_pthread_exit s;
        Some s } = Some lib_last"
  unfolding lib_two_def lib_last_def block_def lib_pthread_create_def lib_pthread_exit_def lib_schedule_search MAX_THREADS_def
  by (simp add: new_block_def link_behind_def finish_create_def upd_tcb_def deref_def Let_def
      sched_loop_numeral fun_upd_twist)

lemma lib_last_ok: "lib_ok lib_last (3 # [1] @ 2 # [])"
  by (simp add: lib_ok_def lib_last_def ring_def link_def block_def MAX_THREADS_def)

theorem schedulers_agree_witness:
  "map_option (map_prod id threads.truncate)
     (schedule (threads.extend lib_two (sync.fields False False Map.empty Map.empty 0 0))) = lib_schedule lib_two"
proof -
  let ?s = "threads.extend lib_two (sync.fields False False Map.empty Map.empty 0 0)"
  have "threads.truncate ?s = lib_two" by (simp add: threads.defs)
  moreover have "Option.bind (curr ?s) (status_of (tcbs ?s)) = Some TS_RUNNING"
    by (simp add: threads.defs lib_two_def block_def)
  ultimately show ?thesis using schedulers_agree [of ?s] by simp
qed

text \<open>
  C26. Bounded waiting for the first library: a ready thread at distance \<open>d\<close> in the ring (dead blocks
  counted) runs after at most \<open>d\<close> switches, as long as no thread calls \<open>pthread_create\<close> as the only
  live one.
\<close>

theorem lib_bounded_waiting:
  assumes "lib_inv \<sigma>" and "exec lib_step \<sigma> es" and "ready (tcbs (fst \<sigma>)) p" and "p \<in> set (snd \<sigma>)"
    and "pos (snd \<sigma>) p \<le> switches es"
  shows "\<exists>(b, \<tau>) \<in> set es. curr (fst \<tau>) = Some p \<and> status_of (tcbs (fst \<tau>)) p = Some TS_RUNNING"
proof -
  from assms(3) have "lib_ready \<sigma> p" by (simp add: lib_ready_def)
  from lib.bounded_waiting [OF assms(1,2) this assms(4,5)] obtain b t
    where t: "(b, t) \<in> set es" "hd (snd t) = p" by auto
  have "lib_inv t" by (rule lib.exec_inv [OF assms(2,1) t(1)])
  then have "lib_ok (fst t) (snd t)" by (simp add: lib_inv_def)
  with t show ?thesis by (auto simp: lib_ok_def)
qed

theorem lib_bounded_waiting_witness:
  "\<exists>s' xs. lib_step (lib_two, [1, 2]) True (s', xs) \<and> curr s' = Some 2"
proof -
  from lib_alarm [OF lib_two_ok] obtain s' where "lib_schedule lib_two = Some (Switched, s')" by auto
  then have st: "lib_step (lib_two, [1, 2]) True (s', rr_next (\<lambda>x. x = hd [1, 2] \<or> ready (tcbs lib_two) x) (rotate1 [1, 2]))"
    by (rule lib_step_alarm)
  have "ready (tcbs lib_two) 2" by (simp add: ready_def lib_two_def block_def)
  with lib_bounded_waiting [of "(lib_two, [1, 2])" "[(True, (s', rr_next (\<lambda>x. x = hd [1, 2] \<or> ready (tcbs lib_two) x) (rotate1 [1, 2])))]" 2]
    st lib_two_ok show ?thesis by (auto simp: lib_inv_def switches_def lib_two_def)
qed

text \<open>
  C27. If the only live thread \<open>c\<close> of the first library calls \<open>pthread_create\<close> while \<open>head\<close> is another
  (dead) block, the new block is linked to \<open>head\<close> and not to \<open>c\<close>: at the next alarm the new thread
  runs, and however many alarms follow, \<open>c\<close> stays ready and never runs again.
\<close>

theorem lib_create_loses_creator:
  assumes "lib_ok s (c # us @ b # vs)" and "head s = Some b"
    and "num_curr_threads s = 1" and "\<not> is_first_call s" and "length us < MAX_THREADS"
    and "\<forall>x \<in> set (us @ b # vs). status_of (tcbs s) x = Some TS_EXITED"
    and "tcbs s p = None" and "stk \<noteq> 0"
  shows "\<exists>s' s''. lib_pthread_create a sok (Some p) stk e s = Some (0, Some (thread_id_counter s), s') \<and>
    lib_schedule s' = Some (Switched, s'') \<and>
    (\<forall>n. \<exists>t. lib_alarms n s'' = Some t \<and> curr t = Some p \<and> curr t \<noteq> Some c \<and>
       status_of (tcbs t) c = Some TS_READY)"
proof -
  from lib_create_orphans [OF assms(1-5) _ assms(7,8), of a sok e] assms(6) obtain s' s'' where
    s: "lib_pthread_create a sok (Some p) stk e s = Some (0, Some (thread_id_counter s), s')"
      "lib_schedule s' = Some (Switched, s'')" "lib_ok s'' [p, b]" "status_of (tcbs s'') b = Some TS_EXITED"
      "status_of (tcbs s'') c = Some TS_READY" "c \<noteq> p" "c \<noteq> b" by blast
  have "\<exists>t. lib_alarms n s'' = Some t \<and> curr t = Some p \<and> curr t \<noteq> Some c \<and> status_of (tcbs t) c = Some TS_READY" for n
    using lib_alarms_alone [OF s(3,4,6,7,5), of n] s(6) by auto
  with s(1,2) show ?thesis by blast
qed

theorem lib_create_loses_creator_witness:
  "\<exists>s' s''. lib_pthread_create None True (Some 4) 16 largs lib_last = Some (0, Some 3, s') \<and>
    lib_schedule s' = Some (Switched, s'') \<and> (\<forall>n. \<exists>t. lib_alarms n s'' = Some t \<and> curr t = Some 4)"
proof -
  have "head lib_last = Some 2" "num_curr_threads lib_last = 1" "\<not> is_first_call lib_last"
    "thread_id_counter lib_last = 3" "tcbs lib_last 4 = None"
    "\<forall>x \<in> set ([1] @ 2 # []). status_of (tcbs lib_last) x = Some TS_EXITED"
    by (simp_all add: lib_last_def block_def)
  with lib_create_loses_creator [OF lib_last_ok, of 4 16 None True largs] show ?thesis
    by (simp add: MAX_THREADS_def) blast
qed

end
