(* ===== verification/Thread_Sync_Sched.thy ===== *)
theory Thread_Sync_Sched
  imports Thread_Sync
begin

text \<open>
  The scheduler of the synchronization library against its specification. \<open>sched_ok s xs\<close> says
  that the control blocks \<open>xs\<close> form the ring, that the first one is the current thread and the only
  running one, that the others are ready or blocked, and that the alarm is not hidden. Each way
  into \<open>schedule\<close> (alarm, blocking, exit) takes such a state to \<open>sched_ok s' zs\<close> where \<open>zs\<close> is
  given by \<open>rr_next\<close>.
\<close>

definition sched_core :: "(ptr \<rightharpoonup> tcb) \<Rightarrow> ptr list \<Rightarrow> bool" where
  "sched_core h xs \<longleftrightarrow> ring h xs \<and> status_of h (hd xs) = Some TS_RUNNING \<and>
    (\<forall>x \<in> set (tl xs). status_of h x = Some TS_READY \<or> status_of h x = Some TS_BLOCKED)"

definition sched_ok :: "sync \<Rightarrow> ptr list \<Rightarrow> bool" where
  "sched_ok s xs \<longleftrightarrow> sched_core (tcbs s) xs \<and> curr s = Some (hd xs) \<and>
    num_curr_threads s = int (length xs) \<and> length xs \<le> MAX_THREADS + 1 \<and>
    \<not> sig_blocked s \<and> \<not> is_first_call s"

definition blocked :: "(ptr \<rightharpoonup> tcb) \<Rightarrow> ptr list \<Rightarrow> ptr set" where
  "blocked h xs = {x \<in> set xs. status_of h x = Some TS_BLOCKED}"

lemma lock_frame [simp]:
  "tcbs (lock s) = tcbs s" "curr (lock s) = curr s" "head (lock s) = head s"
  "num_curr_threads (lock s) = num_curr_threads s" "mutexes (lock s) = mutexes s"
  "barriers (lock s) = barriers s" "is_first_call (lock s) = is_first_call s"
  "thread_id_counter (lock s) = thread_id_counter s" "sig_blocked (lock s)"
  by (simp_all add: lock_def)

lemma unlock_frame [simp]:
  "tcbs (unlock s) = tcbs s" "curr (unlock s) = curr s" "head (unlock s) = head s"
  "num_curr_threads (unlock s) = num_curr_threads s" "mutexes (unlock s) = mutexes s"
  "barriers (unlock s) = barriers s" "is_first_call (unlock s) = is_first_call s"
  "thread_id_counter (unlock s) = thread_id_counter s"
  by (simp_all add: unlock_def)

lemma lock_lock [simp]: "lock (lock s) = lock s"
  by (simp add: lock_def)

lemma sig_mask_lock: "\<not> sig_blocked s \<Longrightarrow> sig_mask (lock s)"
  by (simp add: lock_def)

lemma not_blocked_unlock: "sig_mask s \<Longrightarrow> \<not> sig_blocked (unlock s)"
  by (simp add: unlock_def)

lemma dispatch_frame [simp]:
  "mutexes (dispatch p s) = mutexes s" "barriers (dispatch p s) = barriers s"
  "sig_mask (dispatch p s) = sig_mask s" "sig_blocked (dispatch p s) = sig_blocked s"
  by (simp_all add: dispatch_def)

lemma suspend_frame [simp]:
  "mutexes (suspend c st s) = mutexes s" "barriers (suspend c st s) = barriers s"
  "sig_mask (suspend c st s) = sig_mask s" "sig_blocked (suspend c st s) = sig_blocked s"
  by (simp_all add: suspend_def)

text \<open>Dispatching the head of a ring of ready and blocked threads gives a good state.\<close>

lemma sched_ok_dispatch:
  assumes "ring (tcbs s) zs" and "ready (tcbs s) (hd zs)"
    and "\<And>x. x \<in> set zs \<Longrightarrow> status_of (tcbs s) x = Some TS_READY \<or> status_of (tcbs s) x = Some TS_BLOCKED"
    and "num_curr_threads s = int (length zs)" and "length zs \<le> MAX_THREADS + 1"
    and "sig_mask s" and "\<not> is_first_call s"
  shows "sched_ok (unlock (dispatch (hd zs) s)) zs"
    and "blocked (tcbs (unlock (dispatch (hd zs) s))) zs = blocked (tcbs s) zs"
proof -
  from assms(2) have al: "tcbs s (hd zs) \<noteq> None" by (auto simp: ready_def status_of_def)
  from assms(1) have "zs \<noteq> []" "hd zs \<notin> set (tl zs)"
    by (auto simp: ring_def dest: distinct_hd_notin_tl)
  then have "status_of (tcbs (dispatch (hd zs) s)) x = Some TS_READY \<or>
      status_of (tcbs (dispatch (hd zs) s)) x = Some TS_BLOCKED" if "x \<in> set (tl zs)" for x
    using that assms(3) [of x] list.set_sel(2) [of zs x]
    by (metis (no_types, lifting) status_dispatch)
  then have "sched_core (tcbs (dispatch (hd zs) s)) zs"
    using assms(1) al unfolding sched_core_def by (simp add: status_dispatch)
  then show "sched_ok (unlock (dispatch (hd zs) s)) zs"
    using assms(4-7) by (simp add: sched_ok_def not_blocked_unlock)
  show "blocked (tcbs (unlock (dispatch (hd zs) s))) zs = blocked (tcbs s) zs"
    using assms(2) al by (auto simp: blocked_def status_dispatch ready_def)
qed

section \<open>The three ways into the scheduler\<close>

abbreviation limit :: nat where "limit \<equiv> MAX_THREADS + 1"

lemma search_switch:
  assumes "ring (tcbs s) xs" and "curr s = Some (hd xs)" and "length xs \<le> limit"
    and "\<exists>x \<in> set xs. ready (tcbs s) x"
  shows "search s = Some (Switched,
    unlock (dispatch (hd (rr_next (ready (tcbs s)) (rotate1 xs))) s))"
  using search_found [OF assms(1,2,3,4)] by (simp add: search_def)

lemma schedule_running:
  assumes r: "ring (tcbs s) xs" and c: "curr s = Some (hd xs)" and n: "length xs \<le> limit"
    and st: "status_of (tcbs s) (hd xs) = Some TS_RUNNING"
  shows "schedule s = Some (Switched,
    let s' = suspend (hd xs) TS_READY (lock s) in
    unlock (dispatch (hd (rr_next (ready (tcbs s')) (rotate1 xs))) s'))"
proof -
  let ?s' = "suspend (hd xs) TS_READY (lock s)"
  obtain t where t: "tcbs s (hd xs) = Some t" "t_status t = TS_RUNNING" using st by (auto simp: status_of_Some)
  have "ready (tcbs ?s') (hd xs)" using t by (simp add: ready_def suspend_def status_of_def)
  moreover have "hd xs \<in> set xs" using r by (simp add: ring_def)
  ultimately have "search ?s' = Some (Switched,
      unlock (dispatch (hd (rr_next (ready (tcbs ?s')) (rotate1 xs))) ?s'))"
    using r c n by (intro search_switch) auto
  moreover have "schedule s = search ?s'"
    using t c by (simp add: schedule_def yield_running_def deref_def upd_tcb_def suspend_def)
  ultimately show ?thesis by (simp add: Let_def)
qed

lemma schedule_blocked:
  assumes c: "curr s = Some c" and st: "status_of (tcbs s) c = Some TS_BLOCKED"
  shows "schedule s = search (suspend c TS_BLOCKED (lock s))"
proof -
  obtain t where t: "tcbs s c = Some t" "t_status t = TS_BLOCKED" using st by (auto simp: status_of_Some)
  then show ?thesis using c by (cases t) (simp add: schedule_def deref_def upd_tcb_def suspend_def)
qed

lemma unlink_exited_ring:
  assumes r: "ring (tcbs s) (c # ys)" and c: "curr s = Some c" and ne: "ys \<noteq> []"
  shows "\<exists>h. unlink_exited s = Some (s\<lparr>tcbs := h, curr := Some (last ys)\<rparr>) \<and> ring h ys \<and>
    (\<forall>x. x \<noteq> c \<longrightarrow> status_of h x = status_of (tcbs s) x) \<and> h c = None"
proof -
  let ?h = "(tcbs s)(c := None)"
  have notc: "last ys \<noteq> c" "hd ys \<noteq> c" using r ne by (auto simp: ring_def)
  obtain t where t: "tcbs s c = Some t" "next_thread t = Some (hd ys)" "prev_thread t = Some (last ys)"
    using ring_next_hd [OF r] ring_prev_hd [OF r] ne
    by (auto simp: nxt_def prv_def Option_bind_eq_Some_conv)
  obtain l f where lf: "tcbs s (last ys) = Some l" "tcbs s (hd ys) = Some f"
    using ring_allocated [OF r] ne by (metis hd_in_set last_in_set list.set_intros(2))
  define h1 where "h1 = ?h(last ys \<mapsto> l\<lparr>next_thread := Some (hd ys)\<rparr>)"
  obtain f' where f': "h1 (hd ys) = Some f'" "t_status f' = t_status f" "next_thread f' = nxt h1 (hd ys)"
    using lf notc by (cases "last ys = hd ys") (auto simp: h1_def nxt_def)
  define h2 where "h2 = h1(hd ys \<mapsto> f'\<lparr>prev_thread := Some (last ys)\<rparr>)"
  have "unlink_exited s = Some (s\<lparr>tcbs := h2, curr := Some (last ys)\<rparr>)"
    using t lf f' notc c by (simp add: unlink_exited_def deref_def upd_tcb_def h1_def h2_def Let_def)
  moreover have "nxt h2 x = (if x = last ys then Some (hd ys) else nxt (tcbs s) x)"
    "prv h2 x = (if x = hd ys then Some (last ys) else prv (tcbs s) x)" if "x \<in> set ys" for x
    using that f' lf r by (auto simp: h1_def h2_def nxt_def prv_def ring_def)
  then have "ring h2 ys"
    using ne by (intro ring_tl [OF r ne]) (simp_all add: link_def)
  moreover have "status_of h2 x = status_of (tcbs s) x" if "x \<noteq> c" for x
    using that lf f' by (auto simp: h1_def h2_def status_of_def)
  moreover have "h2 c = None" using notc by (simp add: h1_def h2_def)
  ultimately show ?thesis by blast
qed

section \<open>What a switch does\<close>

text \<open>
  \<open>switched P ys s s'\<close>: of the candidates \<open>ys\<close> the first that satisfies \<open>P\<close> now runs; the threads
  satisfying \<open>P\<close> that were passed over or come later are ready.
\<close>

definition switched :: "(ptr \<Rightarrow> bool) \<Rightarrow> ptr list \<Rightarrow> sync \<Rightarrow> sync \<Rightarrow> bool" where
  "switched P ys s s' \<longleftrightarrow> sched_ok s' (rr_next P ys) \<and>
    (\<forall>x. ready (tcbs s') x \<longleftrightarrow> P x \<and> x \<noteq> hd (rr_next P ys)) \<and>
    mutexes s' = mutexes s \<and> barriers s' = barriers s"

lemma switched_dispatch:
  assumes r: "ring (tcbs s) ys" and ex: "\<exists>y \<in> set ys. ready (tcbs s) y"
    and st: "\<And>x. x \<in> set ys \<Longrightarrow> status_of (tcbs s) x = Some TS_READY \<or> status_of (tcbs s) x = Some TS_BLOCKED"
    and "num_curr_threads s = int (length ys)" and "length ys \<le> limit"
    and "sig_mask s" and "\<not> is_first_call s"
  shows "switched (ready (tcbs s)) ys s (unlock (dispatch (hd (rr_next (ready (tcbs s)) ys)) s))"
    and "blocked (tcbs (unlock (dispatch (hd (rr_next (ready (tcbs s)) ys)) s))) (rr_next (ready (tcbs s)) ys)
      = blocked (tcbs s) ys"
proof -
  let ?zs = "rr_next (ready (tcbs s)) ys"
  have z: "ring (tcbs s) ?zs" "ready (tcbs s) (hd ?zs)" "set ?zs = set ys" "length ?zs = length ys"
    using r ex by (auto intro: ring_rr_next hd_rr_next)
  have zst: "status_of (tcbs s) x = Some TS_READY \<or> status_of (tcbs s) x = Some TS_BLOCKED"
    if "x \<in> set ?zs" for x using st that z(3) by blast
  have n: "num_curr_threads s = int (length ?zs)" "length ?zs \<le> limit" using assms(4,5) z(4) by simp_all
  note ok = sched_ok_dispatch [OF z(1,2) zst n assms(6,7)]
  have "ready (tcbs (dispatch (hd ?zs) s)) x \<longleftrightarrow> ready (tcbs s) x \<and> x \<noteq> hd ?zs" for x
    using z(2) by (auto simp: ready_def status_dispatch)
  then show "switched (ready (tcbs s)) ys s (unlock (dispatch (hd ?zs) s))"
    unfolding switched_def using ok(1) by simp
  have "blocked (tcbs s) ?zs = blocked (tcbs s) ys" by (simp add: blocked_def)
  with ok(2) show "blocked (tcbs (unlock (dispatch (hd ?zs) s))) ?zs = blocked (tcbs s) ys" by simp
qed

lemma sched_okD:
  assumes "sched_ok s xs"
  shows "ring (tcbs s) xs" "curr s = Some (hd xs)" "length xs \<le> limit" "xs \<noteq> []"
    "status_of (tcbs s) (hd xs) = Some TS_RUNNING" "num_curr_threads s = int (length xs)"
    "\<not> sig_blocked s" "\<not> is_first_call s" "hd xs \<in> set xs" "distinct xs"
    "\<exists>t. tcbs s (hd xs) = Some t \<and> t_status t = TS_RUNNING"
  using assms by (auto simp: sched_ok_def sched_core_def ring_def status_of_Some)

lemma sched_ok_status:
  "sched_ok s xs \<Longrightarrow> x \<in> set xs \<Longrightarrow> x \<noteq> hd xs \<Longrightarrow>
    status_of (tcbs s) x = Some TS_READY \<or> status_of (tcbs s) x = Some TS_BLOCKED"
  unfolding sched_ok_def sched_core_def by (cases xs) auto

lemma alarm_switches:
  assumes ok: "sched_ok s xs"
  shows "\<exists>s'. schedule s = Some (Switched, s') \<and>
    switched (\<lambda>x. x = hd xs \<or> ready (tcbs s) x) (rotate1 xs) s s' \<and>
    blocked (tcbs s') (rr_next (\<lambda>x. x = hd xs \<or> ready (tcbs s) x) (rotate1 xs)) = blocked (tcbs s) xs"
proof -
  note d = sched_okD [OF ok]
  let ?t = "suspend (hd xs) TS_READY (lock s)"
  have P: "ready (tcbs ?t) = (\<lambda>x. x = hd xs \<or> ready (tcbs s) x)"
    using d(11) by (auto simp: fun_eq_iff ready_def status_suspend)
  have st: "status_of (tcbs ?t) x = Some TS_READY \<or> status_of (tcbs ?t) x = Some TS_BLOCKED"
    if "x \<in> set (rotate1 xs)" for x
    using that sched_ok_status [OF ok, of x] d(11)
    by (auto simp: status_suspend)
  have "\<exists>y \<in> set (rotate1 xs). ready (tcbs ?t) y" using d(9) by (auto simp: P)
  note sw = switched_dispatch [OF _ this st]
  have "blocked (tcbs ?t) (rotate1 xs) = blocked (tcbs s) xs"
    using d(11) by (auto simp: blocked_def status_suspend)
  with sw schedule_running [OF d(1,2,3,5)] d show ?thesis
    by (simp add: Let_def P ring_rotate1 sig_mask_lock switched_def)
qed

text \<open>What \<open>block_on\<close> needs of its argument: it changes neither the control blocks nor the mask.\<close>

definition queue_push :: "(ptr \<Rightarrow> sync \<Rightarrow> sync) \<Rightarrow> bool" where
  "queue_push push \<longleftrightarrow> (\<forall>c s t. push c (s\<lparr>tcbs := t\<rparr>) = (push c s)\<lparr>tcbs := t\<rparr> \<and>
    tcbs (push c s) = tcbs s \<and> curr (push c s) = curr s \<and> sig_blocked (push c s) = sig_blocked s \<and>
    sig_mask (push c s) = sig_mask s \<and> num_curr_threads (push c s) = num_curr_threads s \<and>
    is_first_call (push c s) = is_first_call s)"

definition same_threads :: "sync \<Rightarrow> sync \<Rightarrow> bool" where
  "same_threads s s' \<longleftrightarrow> tcbs s' = tcbs s \<and> curr s' = curr s \<and>
    num_curr_threads s' = num_curr_threads s \<and> is_first_call s' = is_first_call s"

lemma block_on_search:
  assumes ok: "sched_ok s xs" and fr: "same_threads s s'" and sm: "sig_blocked s'" and pu: "queue_push push"
  shows "block_on True push s' = Option.bind (search (suspend (hd xs) TS_BLOCKED (push (hd xs) s')))
    (\<lambda>(r, s). Some (if r = Switched then (Away, s) else (Ret 0, unlock s)))"
proof -
  note d = sched_okD [OF ok]
  let ?p = "push (hd xs) s'"
  from d(11) obtain t where t: "tcbs s (hd xs) = Some t" "t_status t = TS_RUNNING" by blast
  let ?q = "?p\<lparr>tcbs := (tcbs s)(hd xs \<mapsto> t\<lparr>t_status := TS_BLOCKED\<rparr>)\<rparr>"
  have p: "tcbs ?p = tcbs s" "curr ?p = Some (hd xs)" "sig_blocked ?p"
    "push (hd xs) (s'\<lparr>tcbs := h\<rparr>) = ?p\<lparr>tcbs := h\<rparr>" for h
    using pu fr sm d(2) by (simp_all add: queue_push_def same_threads_def)
  have "schedule ?q = search (suspend (hd xs) TS_BLOCKED (lock ?q))"
    using p by (intro schedule_blocked) auto
  also have "suspend (hd xs) TS_BLOCKED (lock ?q) = suspend (hd xs) TS_BLOCKED ?p"
    using t p by (simp add: suspend_def lock_def)
  finally have q: "schedule ?q = search (suspend (hd xs) TS_BLOCKED ?p)" .
  have "block_on True push s' =
      Option.bind (schedule ?q) (\<lambda>(r, s). Some (if r = Switched then (Away, s) else (Ret 0, unlock s)))"
    using t fr p d(2) by (simp add: block_on_def upd_tcb_def same_threads_def)
  then show ?thesis unfolding q .
qed

lemma ready_suspend_blocked:
  assumes "tcbs s' = tcbs s" and "status_of (tcbs s) c = Some TS_RUNNING"
  shows "ready (tcbs (suspend c TS_BLOCKED s')) = ready (tcbs s)"
  using assms by (intro ext) (auto simp: ready_def status_suspend)

lemma block_switches:
  assumes ok: "sched_ok s xs" and ex: "\<exists>x \<in> set (tl xs). ready (tcbs s) x"
    and fr: "same_threads s s'" and sm: "sig_blocked s'" "sig_mask s'" and pu: "queue_push push"
  shows "\<exists>s''. block_on True push s' = Some (Away, s'') \<and>
    switched (ready (tcbs s)) (rotate1 xs) (push (hd xs) s') s'' \<and>
    blocked (tcbs s'') (rr_next (ready (tcbs s)) (rotate1 xs)) = insert (hd xs) (blocked (tcbs s) xs)"
proof -
  note d = sched_okD [OF ok]
  let ?p = "push (hd xs) s'"
  let ?t = "suspend (hd xs) TS_BLOCKED ?p"
  from d(11) obtain t where t: "tcbs s (hd xs) = Some t" "t_status t = TS_RUNNING" by blast
  have p: "tcbs ?p = tcbs s" "curr ?p = Some (hd xs)" "sig_mask ?p"
    "num_curr_threads ?p = int (length xs)" "\<not> is_first_call ?p"
    using pu fr sm d(2,6,8) by (simp_all add: queue_push_def same_threads_def)
  have P: "ready (tcbs ?t) = ready (tcbs s)" using p(1) d(5) by (rule ready_suspend_blocked)
  have st: "status_of (tcbs ?t) x = Some TS_READY \<or> status_of (tcbs ?t) x = Some TS_BLOCKED"
    if "x \<in> set (rotate1 xs)" for x
    using that sched_ok_status [OF ok, of x] t p(1) by (auto simp: status_suspend)
  have ex': "\<exists>y \<in> set (rotate1 xs). ready (tcbs ?t) y"
    using ex d(4) list.set_sel(2) by (fastforce simp: P)
  have b: "blocked (tcbs ?t) (rotate1 xs) = insert (hd xs) (blocked (tcbs s) xs)"
    using t p(1) d(9) by (auto simp: blocked_def status_suspend)
  have "search ?t = Some (Switched, unlock (dispatch (hd (rr_next (ready (tcbs ?t)) (rotate1 xs))) ?t))"
    using d p ex' by (intro search_switch) auto
  with block_on_search [OF ok fr sm(1) pu] switched_dispatch [OF _ ex' st] d(1,3) p b show ?thesis
    by (simp add: P ring_rotate1 switched_def)
qed

text \<open>Without a ready thread the search gives up and the blocking call returns.\<close>

lemma block_alone:
  assumes ok: "sched_ok s xs" and none: "\<forall>x \<in> set (tl xs). \<not> ready (tcbs s) x"
    and fr: "same_threads s s'" and sm: "sig_blocked s'" and pu: "queue_push push"
  shows "block_on True push s' = Some (Ret 0,
    unlock ((suspend (hd xs) TS_BLOCKED (push (hd xs) s'))\<lparr>curr := Some (hd (rotate limit xs))\<rparr>))"
proof -
  note d = sched_okD [OF ok]
  let ?t = "suspend (hd xs) TS_BLOCKED (push (hd xs) s')"
  have p: "tcbs (push (hd xs) s') = tcbs s" "curr (push (hd xs) s') = Some (hd xs)"
    using pu fr d(2) by (simp_all add: queue_push_def same_threads_def)
  have P: "ready (tcbs ?t) = ready (tcbs s)" using p(1) d(5) by (rule ready_suspend_blocked)
  have "\<not> ready (tcbs s) (hd xs)" using d(5) by (simp add: ready_def)
  with none have "\<forall>x \<in> set xs. \<not> ready (tcbs ?t) x" using P by (cases xs) auto
  moreover have "ring (tcbs ?t) xs" "curr ?t = Some (hd xs)" using d(1) p by simp_all
  ultimately have "search ?t = Some (Returned, ?t\<lparr>curr := Some (hd (rotate limit xs))\<rparr>)"
    by (simp add: search_def search_none)
  with block_on_search [OF ok fr sm pu] show ?thesis by simp
qed

lemma schedule_exited:
  assumes r: "ring (tcbs s) (c # ys)" and c: "curr s = Some c" and ne: "ys \<noteq> []"
    and st: "status_of (tcbs s) c = Some TS_EXITED" "\<And>x. x \<in> set ys \<Longrightarrow> status_of (tcbs s) x \<noteq> Some TS_RUNNING"
  shows "\<exists>h. schedule s = search ((lock s)\<lparr>tcbs := h, curr := Some (last ys)\<rparr>) \<and> ring h ys \<and>
    (\<forall>x. x \<noteq> c \<longrightarrow> status_of h x = status_of (tcbs s) x) \<and> h c = None"
proof -
  obtain t where t: "tcbs s c = Some t" "t_status t = TS_EXITED" using st by (auto simp: status_of_Some)
  let ?e = "(lock s)\<lparr>tcbs := (tcbs s)(c \<mapsto> t\<lparr>env := Saved\<rparr>)\<rparr>"
  have "ring (tcbs ?e) (c # ys) \<longleftrightarrow> ring (tcbs s) (c # ys)"
    by (rule ring_cong) (auto simp: nxt_def prv_def t)
  with r have re: "ring (tcbs ?e) (c # ys)" by simp
  have "curr ?e = Some c" using c by simp
  from unlink_exited_ring [OF re this ne] obtain h where
    u: "unlink_exited ?e = Some (?e\<lparr>tcbs := h, curr := Some (last ys)\<rparr>)" and rh: "ring h ys"
    and sth: "\<And>x. x \<noteq> c \<Longrightarrow> status_of h x = status_of (tcbs s) x" and hc: "h c = None" by auto
  obtain l where l: "h (last ys) = Some l" using ring_allocated [OF rh] ne by (meson last_in_set)
  have "last ys \<noteq> c" using r ne by (auto simp: ring_def)
  then have "t_status l \<noteq> TS_RUNNING" using sth [of "last ys"] st(2) [of "last ys"] ne l by auto
  then have "yield_running (?e\<lparr>tcbs := h, curr := Some (last ys)\<rparr>) = Some (?e\<lparr>tcbs := h, curr := Some (last ys)\<rparr>)"
    using l by (simp add: yield_running_def deref_def)
  moreover have "schedule s = Option.bind (unlink_exited ?e) (\<lambda>s. Option.bind (yield_running s) search)"
    using t c by (simp add: schedule_def deref_def upd_tcb_def)
  ultimately show ?thesis using u rh sth hc by auto
qed

lemma rotate_last: "ys \<noteq> [] \<Longrightarrow> rotate (length ys - 1) ys = last ys # butlast ys"
  by (cases ys rule: rev_cases) (simp_all add: rotate_append)

lemma exit_unlinks:
  assumes ok: "sched_ok s xs" and xs: "xs = c # ys" and ne: "ys \<noteq> []"
  shows "\<exists>h. pthread_exit s = Option.bind
      (search ((lock s)\<lparr>tcbs := h, num_curr_threads := num_curr_threads s - 1, curr := Some (last ys)\<rparr>))
      (\<lambda>(r, s). Some (if r = Switched then (Away, s) else (Gone, unlock s))) \<and>
    ring h ys \<and> h c = None \<and> (\<forall>x. x \<noteq> c \<longrightarrow> status_of h x = status_of (tcbs s) x)"
proof -
  note d = sched_okD [OF ok]
  from d(11) xs obtain t where t: "tcbs s c = Some t" "t_status t = TS_RUNNING" by auto
  let ?e = "(lock s)\<lparr>tcbs := (tcbs s)(c \<mapsto> t\<lparr>t_status := TS_EXITED\<rparr>), num_curr_threads := num_curr_threads s - 1\<rparr>"
  have cn: "c \<notin> set ys" using d(10) xs by simp
  have nr: "status_of (tcbs ?e) x \<noteq> Some TS_RUNNING" if "x \<in> set ys" for x
    using that sched_ok_status [OF ok, of x] cn xs by auto
  have "ring (tcbs ?e) (c # ys) \<longleftrightarrow> ring (tcbs s) (c # ys)"
    by (rule ring_cong) (auto simp: nxt_def prv_def t)
  then have "\<exists>h. schedule ?e = search ((lock ?e)\<lparr>tcbs := h, curr := Some (last ys)\<rparr>) \<and> ring h ys \<and>
      (\<forall>x. x \<noteq> c \<longrightarrow> status_of h x = status_of (tcbs ?e) x) \<and> h c = None"
    using d(1,2) xs ne nr by (intro schedule_exited) (simp_all add: t)
  moreover have "pthread_exit s = Option.bind (schedule ?e)
      (\<lambda>(r, s). Some (if r = Switched then (Away, s) else (Gone, unlock s)))"
    using d(2,6) xs ne by (simp add: pthread_exit_def upd_tcb_def t Let_def)
  moreover have "(lock ?e)\<lparr>tcbs := h, curr := Some (last ys)\<rparr> =
      (lock s)\<lparr>tcbs := h, num_curr_threads := num_curr_threads s - 1, curr := Some (last ys)\<rparr>" for h
    by (simp add: lock_def)
  ultimately show ?thesis by auto
qed

lemma exit_switches:
  assumes ok: "sched_ok s xs" and ex: "\<exists>x \<in> set (tl xs). ready (tcbs s) x"
  shows "\<exists>s'. pthread_exit s = Some (Away, s') \<and> switched (ready (tcbs s)) (tl xs) s s' \<and>
    blocked (tcbs s') (rr_next (ready (tcbs s)) (tl xs)) = blocked (tcbs s) xs"
proof -
  note d = sched_okD [OF ok]
  obtain c ys where xs: "xs = c # ys" using d(4) by (cases xs) auto
  from ex xs have ne: "ys \<noteq> []" by auto
  have cn: "c \<notin> set ys" using d(10) xs by simp
  from d(5) xs have run: "status_of (tcbs s) c = Some TS_RUNNING" by simp
  from exit_unlinks [OF ok xs ne] obtain h where e: "pthread_exit s = Option.bind
      (search ((lock s)\<lparr>tcbs := h, num_curr_threads := num_curr_threads s - 1, curr := Some (last ys)\<rparr>))
      (\<lambda>(r, s). Some (if r = Switched then (Away, s) else (Gone, unlock s)))"
    and rh: "ring h ys" and hc: "h c = None"
    and sth: "\<And>x. x \<noteq> c \<Longrightarrow> status_of h x = status_of (tcbs s) x" by auto
  let ?u = "(lock s)\<lparr>tcbs := h, num_curr_threads := num_curr_threads s - 1, curr := Some (last ys)\<rparr>"
  have P: "ready h = ready (tcbs s)"
    using sth hc run by (intro ext) (metis ready_def option.distinct(1) option.inject status_of_at(2) thread_status.distinct(7))
  have st: "status_of (tcbs ?u) x = Some TS_READY \<or> status_of (tcbs ?u) x = Some TS_BLOCKED"
    if "x \<in> set ys" for x
    using sched_ok_status [OF ok, of x] sth [of x] that cn xs by (cases "x = c") auto
  have rl: "ring (tcbs ?u) (last ys # butlast ys)"
    using ring_rotate [OF rh, of "length ys - 1"] rotate_last [OF ne] by simp
  have exu: "\<exists>y \<in> set ys. ready (tcbs ?u) y" using ex xs P by simp
  have b: "blocked (tcbs ?u) ys = blocked (tcbs s) xs"
  proof -
    have "status_of h x = status_of (tcbs s) x" if "x \<in> set ys" for x using that cn sth by metis
    then show ?thesis using run xs by (auto simp: blocked_def)
  qed
  have rot: "rotate1 (last ys # butlast ys) = ys" using ne by simp
  have "search ?u = Some (Switched, unlock (dispatch (hd (rr_next (ready (tcbs ?u))
      (rotate1 (last ys # butlast ys)))) ?u))"
  proof (rule search_switch [OF rl])
    have "set (last ys # butlast ys) = set ys" using rot by (metis set_rotate1)
    with exu show "\<exists>x \<in> set (last ys # butlast ys). ready (tcbs ?u) x" by simp
  qed (use d(3) xs in simp_all)
  then have "pthread_exit s = Some (Away, unlock (dispatch (hd (rr_next (ready (tcbs ?u)) ys)) ?u))"
    unfolding rot using e by simp
  moreover note switched_dispatch [of ?u ys, OF _ exu st]
  ultimately show ?thesis
    using rh d xs b by (simp add: P sig_mask_lock switched_def)
qed

section \<open>Creating a thread\<close>

lemma exit_alone:
  assumes ok: "sched_ok s xs" and none: "\<forall>x \<in> set (tl xs). \<not> ready (tcbs s) x"
  shows "\<exists>s'. pthread_exit s = Some (Gone, s')"
proof -
  note d = sched_okD [OF ok]
  obtain c ys where xs: "xs = c # ys" using d(4) by (cases xs) auto
  show ?thesis
  proof (cases "ys = []")
    case True
    with d(2,6,11) xs show ?thesis by (auto simp: pthread_exit_def upd_tcb_def Let_def)
  next
    case False
    from exit_unlinks [OF ok xs False] obtain h where e: "pthread_exit s = Option.bind
        (search ((lock s)\<lparr>tcbs := h, num_curr_threads := num_curr_threads s - 1, curr := Some (last ys)\<rparr>))
        (\<lambda>(r, s). Some (if r = Switched then (Away, s) else (Gone, unlock s)))" (is "_ = Option.bind (search ?u) _")
      and rh: "ring h ys" and sth: "\<And>x. x \<noteq> c \<Longrightarrow> status_of h x = status_of (tcbs s) x" by auto
    have "ring (tcbs ?u) (last ys # butlast ys)"
      using ring_rotate [OF rh, of "length ys - 1"] rotate_last [OF False] by simp
    moreover have "\<forall>x \<in> set (last ys # butlast ys). \<not> ready (tcbs ?u) x"
    proof
      fix x assume "x \<in> set (last ys # butlast ys)"
      then have "x \<in> set ys" using False in_set_butlastD last_in_set by fastforce
      moreover from this have "x \<noteq> c" using d(10) xs by auto
      ultimately show "\<not> ready (tcbs ?u) x" using none xs sth by (simp add: ready_def)
    qed
    ultimately have "search ?u = Some (Returned, ?u\<lparr>curr := Some (hd (rotate limit (last ys # butlast ys)))\<rparr>)"
      by (simp add: search_def search_none)
    with e show ?thesis by simp
  qed
qed

definition created :: "ptr \<Rightarrow> sync \<Rightarrow> sync \<Rightarrow> ptr list \<Rightarrow> bool" where
  "created p s s' xs \<longleftrightarrow> sched_ok s' (xs @ [p]) \<and> ready (tcbs s') = (\<lambda>x. x = p \<or> ready (tcbs s) x) \<and>
    blocked (tcbs s') (xs @ [p]) = blocked (tcbs s) xs \<and>
    mutexes s' = mutexes s \<and> barriers s' = barriers s \<and>
    thread_id_counter s' = thread_id_counter s + 1"

lemma created_finish:
  assumes ok: "sched_ok s xs" and n: "length xs \<le> MAX_THREADS" and p: "tcbs s p = None"
    and r: "ring h (xs @ [p])" and st: "\<And>x. x \<noteq> p \<Longrightarrow> status_of h x = status_of (tcbs s) x"
  shows "\<exists>s'. finish_create p (s\<lparr>head := g, tcbs := h\<rparr>) = Some (thread_id_counter s, s') \<and> created p s s' xs"
proof -
  note d = sched_okD [OF ok]
  obtain m where m: "h p = Some m" using ring_allocated [OF r, of p] by auto
  let ?h = "h(p \<mapsto> m\<lparr>t_status := TS_READY, thread_id := thread_id_counter s\<rparr>)"
  let ?s = "s\<lparr>head := g, tcbs := ?h, num_curr_threads := num_curr_threads s + 1,
              thread_id_counter := thread_id_counter s + 1\<rparr>"
  have pn: "p \<notin> set xs" using r by (auto simp: ring_def)
  have "ring ?h (xs @ [p]) \<longleftrightarrow> ring h (xs @ [p])"
    by (rule ring_cong) (auto simp: nxt_def prv_def m)
  moreover have "status_of (tcbs s) x = Some TS_READY \<or> status_of (tcbs s) x = Some TS_BLOCKED"
    if "x \<in> set (tl xs)" for x using ok that by (simp add: sched_ok_def sched_core_def)
  moreover have "x \<noteq> p" if "x \<in> set (tl xs)" for x using that pn list.set_sel(2) d(4) by metis
  moreover have "hd xs \<noteq> p" using pn d(4,9) by auto
  ultimately have "sched_ok ?s (xs @ [p])"
    using r d n st by (auto simp: sched_ok_def sched_core_def)
  moreover have "ready ?h x \<longleftrightarrow> x = p \<or> ready (tcbs s) x" for x using st by (simp add: ready_def)
  moreover have "blocked ?h (xs @ [p]) = blocked (tcbs s) xs"
    using st pn by (auto simp: blocked_def)
  ultimately show ?thesis
    using finish_create_Some [of "s\<lparr>head := g, tcbs := h\<rparr>" p m] m by (auto simp: created_def fun_eq_iff)
qed

lemma create_links:
  assumes ok: "sched_ok s xs" and n: "length xs \<le> MAX_THREADS" and p: "tcbs s p = None" and stk: "stk \<noteq> 0"
  shows "\<exists>s'. pthread_create a sok (Some p) stk e s = Some (0, Some (thread_id_counter s), s') \<and> created p s s' xs"
proof -
  note d = sched_okD [OF ok]
  let ?s = "s\<lparr>tcbs := (tcbs s)(p \<mapsto> new_block stk e)\<rparr>"
  have pn: "p \<notin> set xs" using ring_allocated [OF d(1)] p by fastforce
  have st: "status_of (tcbs ?s) x = status_of (tcbs s) x" if "x \<noteq> p" for x using that by simp
  have "\<exists>g h. (if num_curr_threads ?s = 1 then link_pair (curr ?s) p ?s else link_behind p ?s) =
      Some (s\<lparr>head := g, tcbs := h\<rparr>) \<and> ring h (xs @ [p]) \<and> (\<forall>x. status_of h x = status_of (tcbs ?s) x)"
  proof (cases "num_curr_threads s = 1")
    case True
    with d(6) obtain c where xs: "xs = [c]" by (cases xs) auto
    with d(11) obtain t where "tcbs s c = Some t" by auto
    with pn xs have "\<exists>h. link_pair (Some c) p ?s = Some (?s\<lparr>tcbs := h\<rparr>) \<and> ring h [c, p] \<and>
        (\<forall>x. status_of h x = status_of (tcbs ?s) x)"
      by (intro link_pair_ring) auto
    with d(2) xs True show ?thesis by (auto intro!: exI [of _ "head s"])
  next
    case False
    have "ring (tcbs ?s) xs \<longleftrightarrow> ring (tcbs s) xs" using pn by (intro ring_cong) auto
    with d(1,2) pn have "\<exists>h. link_behind p ?s = Some (?s\<lparr>head := Some (last xs), tcbs := h\<rparr>) \<and>
        ring h (xs @ [p]) \<and> (\<forall>x. status_of h x = status_of (tcbs ?s) x)"
      by (intro link_behind_ring) auto
    with False show ?thesis by (auto intro!: exI [of _ "Some (last xs)"])
  qed
  then obtain g h where l: "(if num_curr_threads ?s = 1 then link_pair (curr ?s) p ?s else link_behind p ?s) =
      Some (s\<lparr>head := g, tcbs := h\<rparr>)" and rh: "ring h (xs @ [p])" and sth: "\<And>x. status_of h x = status_of (tcbs ?s) x"
    by blast
  from created_finish [OF ok n p rh, of g] sth st l d(8) stk show ?thesis
    by (auto simp: pthread_create_def Let_def)
qed

end
