(* ===== verification/Thread_Sync_Inv.thy ===== *)
theory Thread_Sync_Inv
  imports Thread_Sync_Sched Fair_Sched
begin

text \<open>
  The histories of a program that uses the synchronization library, as a step relation, and the
  invariant they keep. A state of a history is the library's state together with the pairs
  (mutex, thread) of the threads that hold a mutex; the library itself keeps no owner, so the pairs
  are read off what its calls do. A thread holds a mutex when its \<open>pthread_mutex_lock\<close> has returned
  0, whatever the state of the mutex was, or when it waits for the mutex and an unlock has made it
  ready, after which its call returns 0 without another test; it gives it back by unlocking.

  Every step is one library call of the running thread, or the alarm, with the result and the state
  the library's definitions give. The conditions on the steps are what POSIX asks of the caller (a
  mutex that is held is unlocked by the thread that holds it and not destroyed, a barrier is
  destroyed when nobody waits), that \<open>malloc\<close> returns fresh blocks, that a program has at most
  \<open>MAX_THREADS + 1\<close> threads, and, for \<open>pthread_mutex_lock\<close> and \<open>pthread_barrier_wait\<close>, that
  some other thread is ready unless the mutex is free or the barrier complete. The case left out, a
  call that has to wait when every other thread is blocked, has its own theorems at the end of
  \<open>Thread_Sync_Props\<close>.
\<close>

section \<open>Waiting threads\<close>

datatype waitobj = Mx ptr | Br ptr

definition wl :: "sync \<Rightarrow> waitobj \<Rightarrow> ptr list" where
  "wl s ob = (case ob of
     Mx a \<Rightarrow> (case mutexes s a of None \<Rightarrow> [] | Some i \<Rightarrow> m_waiters i)
   | Br a \<Rightarrow> (case barriers s a of None \<Rightarrow> [] | Some i \<Rightarrow> b_waiters i))"

text \<open>The blocked threads are exactly the waiting ones, each waits for one object, once.\<close>

definition wait_ok :: "ptr set \<Rightarrow> (waitobj \<Rightarrow> ptr list) \<Rightarrow> bool" where
  "wait_ok B W \<longleftrightarrow> (\<forall>ob. distinct (W ob)) \<and>
    (\<forall>ob ob' x. x \<in> set (W ob) \<longrightarrow> x \<in> set (W ob') \<longrightarrow> ob = ob') \<and>
    (\<forall>x. x \<in> B \<longleftrightarrow> (\<exists>ob. x \<in> set (W ob)))"

lemma wait_push: "wait_ok B W \<Longrightarrow> c \<notin> B \<Longrightarrow> wait_ok (insert c B) (W(ob := c # W ob))"
  unfolding wait_ok_def by (auto split: if_splits)

lemma wait_shrink:
  assumes ok: "wait_ok B W" and ws: "distinct ws" "set ws \<subseteq> set (W ob)"
  shows "wait_ok (B - (set (W ob) - set ws)) (W(ob := ws))"
proof -
  have sub: "set ((W(ob := ws)) o') \<subseteq> set (W o')" for o' using ws(2) by simp
  have in_B: "x \<in> B \<longleftrightarrow> (\<exists>ob. x \<in> set (W ob))" for x using ok by (simp add: wait_ok_def)
  have uniq: "x \<in> set (W a) \<Longrightarrow> x \<in> set (W b) \<Longrightarrow> a = b" for x a b using ok unfolding wait_ok_def by blast
  have "x \<in> B - (set (W ob) - set ws) \<longleftrightarrow> (\<exists>o'. x \<in> set ((W(ob := ws)) o'))" for x
  proof
    assume x: "x \<in> B - (set (W ob) - set ws)"
    then obtain o' where "x \<in> set (W o')" using in_B by blast
    with x show "\<exists>o'. x \<in> set ((W(ob := ws)) o')" by (cases "o' = ob") (auto intro: exI [of _ o'])
  next
    assume "\<exists>o'. x \<in> set ((W(ob := ws)) o')"
    then obtain o' where o': "x \<in> set ((W(ob := ws)) o')" by blast
    then have "x \<in> set (W o')" using sub by blast
    moreover have "x \<in> set ws" if "x \<in> set (W ob)"
      using uniq [OF that \<open>x \<in> set (W o')\<close>] o' by auto
    ultimately show "x \<in> B - (set (W ob) - set ws)" using in_B by blast
  qed
  moreover have "distinct ((W(ob := ws)) o')" for o' using ok ws(1) by (simp add: wait_ok_def)
  moreover have "x \<in> set ((W(ob := ws)) a) \<Longrightarrow> x \<in> set ((W(ob := ws)) b) \<Longrightarrow> a = b" for x a b
    using uniq sub by blast
  ultimately show ?thesis unfolding wait_ok_def by blast
qed

section \<open>The invariant\<close>

type_synonym holders = "(ptr \<times> ptr) set"

definition mutex_ok :: "(ptr \<rightharpoonup> mutex_info) \<Rightarrow> holders \<Rightarrow> bool" where
  "mutex_ok ms H \<longleftrightarrow>
    (\<forall>a i. ms a = Some i \<longrightarrow> m_init i \<and> (m_locked i \<longleftrightarrow> (\<exists>t. (a, t) \<in> H)) \<and>
       (m_waiters i \<noteq> [] \<longrightarrow> m_locked i)) \<and>
    (\<forall>a t u. (a, t) \<in> H \<longrightarrow> (a, u) \<in> H \<longrightarrow> t = u) \<and> (\<forall>a t. (a, t) \<in> H \<longrightarrow> ms a \<noteq> None)"

definition barrier_wf :: "barrier_info \<Rightarrow> bool" where
  "barrier_wf i \<longleftrightarrow> b_init i \<and>
    (if 0 < b_count i then b_entered i = int (length (b_waiters i)) \<and> b_entered i < b_count i
     else b_waiters i = [] \<and> 0 \<le> b_entered i)"

definition barrier_ok :: "(ptr \<rightharpoonup> barrier_info) \<Rightarrow> bool" where
  "barrier_ok bs \<longleftrightarrow> (\<forall>a i. bs a = Some i \<longrightarrow> barrier_wf i)"

lemma barrier_ok_upd: "barrier_ok bs \<Longrightarrow> barrier_wf i \<Longrightarrow> barrier_ok (bs(a \<mapsto> i))"
  and barrier_ok_del: "barrier_ok bs \<Longrightarrow> barrier_ok (bs(a := None))"
  by (auto simp: barrier_ok_def)

definition inv_at :: "ptr list \<Rightarrow> sync \<Rightarrow> holders \<Rightarrow> bool" where
  "inv_at xs s H \<longleftrightarrow> sched_ok s xs \<and> wait_ok (blocked (tcbs s) xs) (wl s) \<and>
     mutex_ok (mutexes s) H \<and> barrier_ok (barriers s)"

definition sync_inv :: "sync \<times> holders \<Rightarrow> bool" where
  "sync_inv \<sigma> \<longleftrightarrow> (\<exists>xs. inv_at xs (fst \<sigma>) (snd \<sigma>))"

section \<open>Histories\<close>

text \<open>Some thread of the ring is ready: the running one is not, so it is another one.\<close>

definition other_ready :: "sync \<Rightarrow> bool" where
  "other_ready s \<longleftrightarrow> (\<exists>p \<in> set (walk (tcbs s) (nat (num_curr_threads s)) (curr s)). ready (tcbs s) p)"

text \<open>The conditions under which a call need not wait.\<close>

definition mutex_free :: "sync \<Rightarrow> ptr \<Rightarrow> bool" where
  "mutex_free s a \<longleftrightarrow> (\<exists>i. mutexes s a = Some i \<and> \<not> m_locked i)"

definition barrier_full :: "sync \<Rightarrow> ptr \<Rightarrow> bool" where
  "barrier_full s a \<longleftrightarrow> (\<exists>i. barriers s a = Some i \<and> b_count i \<le> b_entered i + 1)"

inductive sync_step :: "sync \<times> holders \<Rightarrow> call \<Rightarrow> sync \<times> holders \<Rightarrow> bool" where
  step_alarm: "schedule s = Some (Switched, s') \<Longrightarrow> sync_step (s, H) Away (s', H)"
| step_create: "num_curr_threads s \<le> int MAX_THREADS \<Longrightarrow> (\<forall>p. b = Some p \<longrightarrow> tcbs s p = None) \<Longrightarrow>
    pthread_create a sok b stk e s = Some (rc, i, s') \<Longrightarrow> sync_step (s, H) (Ret rc) (s', H)"
| step_exit: "pthread_exit s = Some (Away, s') \<Longrightarrow> sync_step (s, H) Away (s', H)"
| step_mutex_init: "(\<forall>a. m = Some a \<longrightarrow> mutexes s a = None) \<Longrightarrow>
    pthread_mutex_init m s = (r, x, s') \<Longrightarrow> sync_step (s, H) r (s', H)"
| step_mutex_destroy: "(\<forall>t. (a, t) \<notin> H) \<Longrightarrow>
    pthread_mutex_destroy (Some a) s = Some (r, s') \<Longrightarrow> sync_step (s, H) r (s', H)"
| step_lock: "curr s = Some c \<Longrightarrow> other_ready s \<or> mutex_free s a \<Longrightarrow>
    pthread_mutex_lock (Some a) q s = Some (r, s') \<Longrightarrow>
    sync_step (s, H) r (s', if r = Ret 0 then insert (a, c) H else H)"
| step_unlock: "curr s = Some c \<Longrightarrow> (a, c) \<in> H \<or> (\<forall>t. (a, t) \<notin> H) \<Longrightarrow>
    pthread_mutex_unlock (Some a) s = Some (r, s') \<Longrightarrow>
    sync_step (s, H) r (s', H - {(a, c)} \<union> {(a, w) | w. w \<in> set (wl s (Mx a)) \<and> ready (tcbs s') w})"
| step_null: "pthread_mutex_lock None q s = Some (r, s') \<or> pthread_mutex_unlock None s = Some (r, s') \<or>
    pthread_mutex_destroy None s = Some (r, s') \<or> pthread_barrier_wait None q s = Some (r, s') \<or>
    pthread_barrier_destroy None s = Some (r, s') \<Longrightarrow> sync_step (s, H) r (s', H)"
| step_barrier_init: "(\<forall>a. b = Some a \<longrightarrow> barriers s a = None) \<Longrightarrow>
    pthread_barrier_init b n s = (r, x, s') \<Longrightarrow> sync_step (s, H) r (s', H)"
| step_barrier_wait: "other_ready s \<or> barrier_full s a \<Longrightarrow>
    pthread_barrier_wait (Some a) q s = Some (r, s') \<Longrightarrow> sync_step (s, H) r (s', H)"
| step_barrier_destroy: "wl s (Br a) = [] \<Longrightarrow>
    pthread_barrier_destroy (Some a) s = Some (r, s') \<Longrightarrow> sync_step (s, H) r (s', H)"

inductive_cases sync_stepE: "sync_step \<sigma> r \<sigma>'"

inductive sync_steps :: "sync \<times> holders \<Rightarrow> sync \<times> holders \<Rightarrow> bool" where
  sync_refl: "sync_steps \<sigma> \<sigma>"
| sync_more: "sync_step \<sigma> r \<sigma>' \<Longrightarrow> sync_steps \<sigma>' \<sigma>'' \<Longrightarrow> sync_steps \<sigma> \<sigma>''"

lemma other_ready_ring:
  assumes "sched_ok s xs"
  shows "other_ready s \<longleftrightarrow> (\<exists>x \<in> set (tl xs). ready (tcbs s) x)"
proof -
  note d = sched_okD [OF assms]
  have "walk (tcbs s) (nat (num_curr_threads s)) (curr s) = xs"
    using d(2,6) ring_walk [OF d(1)] by simp
  moreover have "\<not> ready (tcbs s) (hd xs)" using d(5) by (simp add: ready_def)
  ultimately show ?thesis using d(4) by (cases xs) (auto simp: other_ready_def)
qed

section \<open>Effects on the waiting lists and on the statuses\<close>

lemma wl_cong: "mutexes s' = mutexes s \<Longrightarrow> barriers s' = barriers s \<Longrightarrow> wl s' = wl s"
  by (simp add: wl_def fun_eq_iff split: waitobj.splits)

lemma wl_mutex:
  "mutexes s' = (mutexes s)(a \<mapsto> i) \<Longrightarrow> barriers s' = barriers s \<Longrightarrow> wl s' = (wl s)(Mx a := m_waiters i)"
  by (auto simp: wl_def fun_eq_iff split: waitobj.splits)

lemma wl_mutex_del:
  "mutexes s' = (mutexes s)(a := None) \<Longrightarrow> barriers s' = barriers s \<Longrightarrow> wl s' = (wl s)(Mx a := [])"
  by (auto simp: wl_def fun_eq_iff split: waitobj.splits)

lemma wl_barrier:
  "barriers s' = (barriers s)(a \<mapsto> i) \<Longrightarrow> mutexes s' = mutexes s \<Longrightarrow> wl s' = (wl s)(Br a := b_waiters i)"
  by (auto simp: wl_def fun_eq_iff split: waitobj.splits)

lemma wl_barrier_del:
  "barriers s' = (barriers s)(a := None) \<Longrightarrow> mutexes s' = mutexes s \<Longrightarrow> wl s' = (wl s)(Br a := [])"
  by (auto simp: wl_def fun_eq_iff split: waitobj.splits)

lemma wl_at:
  "mutexes s a = Some i \<Longrightarrow> wl s (Mx a) = m_waiters i"
  "barriers s b = Some j \<Longrightarrow> wl s (Br b) = b_waiters j"
  "mutexes s a = None \<Longrightarrow> wl s (Mx a) = []" "barriers s b = None \<Longrightarrow> wl s (Br b) = []"
  by (simp_all add: wl_def)

lemma sched_ok_frame: "same_threads s s' \<Longrightarrow> \<not> sig_blocked s' \<Longrightarrow> sched_ok s xs \<Longrightarrow> sched_ok s' xs"
  by (simp add: sched_ok_def same_threads_def)

lemma wait_hd: "inv_at xs s H \<Longrightarrow> hd xs \<notin> blocked (tcbs s) xs"
  using sched_okD(5) by (fastforce simp: inv_at_def blocked_def)

lemma wl_blocked: "inv_at xs s H \<Longrightarrow> x \<in> set (wl s ob) \<Longrightarrow> x \<in> blocked (tcbs s) xs"
  unfolding inv_at_def wait_ok_def by blast

definition wake :: "(ptr \<rightharpoonup> tcb) \<Rightarrow> ptr list \<Rightarrow> (ptr \<rightharpoonup> tcb)" where
  "wake h ws = (\<lambda>x. if x \<in> set ws then map_option (t_status_update (\<lambda>_. TS_READY)) (h x) else h x)"

lemma wake_Nil [simp]: "wake h [] = h"
  by (simp add: wake_def)

lemma wake_all_wake:
  "(\<And>w. w \<in> set ws \<Longrightarrow> tcbs s w \<noteq> None) \<Longrightarrow> wake_all ws s = Some (s\<lparr>tcbs := wake (tcbs s) ws\<rparr>)"
proof (induction ws arbitrary: s)
  case (Cons w ws)
  then obtain t where t: "tcbs s w = Some t" by (metis list.set_intros(1) not_Some_eq)
  let ?s = "s\<lparr>tcbs := (tcbs s)(w \<mapsto> t\<lparr>t_status := TS_READY\<rparr>)\<rparr>"
  have "wake_all ws ?s = Some (?s\<lparr>tcbs := wake (tcbs ?s) ws\<rparr>)" by (rule Cons.IH) (use Cons.prems in auto)
  moreover have "wake (tcbs ?s) ws = wake (tcbs s) (w # ws)" using t by (auto simp: wake_def fun_eq_iff)
  ultimately show ?case using t by (simp add: upd_tcb_def)
qed simp

lemma status_wake: "status_of (wake h ws) x = (if x \<in> set ws \<and> h x \<noteq> None then Some TS_READY else status_of h x)"
  by (auto simp: wake_def status_of_def)

lemma ring_wake [simp]: "ring (wake h ws) xs \<longleftrightarrow> ring h xs"
proof (rule ring_cong)
  fix x show "nxt (wake h ws) x = nxt h x \<and> prv (wake h ws) x = prv h x"
    by (cases "h x") (simp_all add: nxt_def prv_def wake_def)
qed

lemma wake_core:
  assumes "sched_core h xs" and "set ws \<subseteq> blocked h xs"
  shows "sched_core (wake h ws) xs" and "blocked (wake h ws) xs = blocked h xs - set ws"
    and "ready (wake h ws) x \<longleftrightarrow> x \<in> set ws \<or> ready h x"
proof -
  have al: "h w \<noteq> None" "status_of h w = Some TS_BLOCKED" if "w \<in> set ws" for w
    using that assms(2) by (auto simp: blocked_def status_of_Some)
  have "hd xs \<notin> set ws" using al assms(1) by (auto simp: sched_core_def)
  then show "sched_core (wake h ws) xs"
    using assms(1) by (auto simp: sched_core_def status_wake)
  show "blocked (wake h ws) xs = blocked h xs - set ws"
    using al by (auto simp: blocked_def status_wake)
  show "ready (wake h ws) x \<longleftrightarrow> x \<in> set ws \<or> ready h x"
    using al [of x] by (auto simp: ready_def status_wake)
qed

section \<open>How each step moves the threads\<close>

definition progress :: "call \<Rightarrow> ptr list \<Rightarrow> sync \<Rightarrow> ptr list \<Rightarrow> sync \<Rightarrow> bool" where
  "progress r xs s xs' s' \<longleftrightarrow> (\<forall>p \<in> set xs. ready (tcbs s) p \<longrightarrow>
     (if r = Away then hd xs' = p \<or> ready (tcbs s') p \<and> p \<in> set xs' \<and> pos xs' p < pos xs p
      else ready (tcbs s') p \<and> p \<in> set xs' \<and> pos xs' p \<le> pos xs p))"

lemma progress_same: "r \<noteq> Away \<Longrightarrow> (\<And>p. ready (tcbs s) p \<Longrightarrow> ready (tcbs s') p) \<Longrightarrow> progress r xs s xs s'"
  by (simp add: progress_def)

lemma progress_switched:
  assumes ok: "sched_ok s xs" and sw: "switched P ys s0 s'" and ys: "ys = rotate1 xs \<or> ys = tl xs"
    and P: "\<And>p. ready (tcbs s) p \<Longrightarrow> P p"
  shows "progress Away xs s (rr_next P ys) s'"
  unfolding progress_def
proof (intro ballI impI)
  fix p assume p: "p \<in> set xs" "ready (tcbs s) p"
  note d = sched_okD [OF ok]
  have nh: "p \<noteq> hd xs" using p(2) d(5) by (auto simp: ready_def)
  with p(1) have "p \<in> set (tl xs)" by (cases xs) auto
  with p(1) ys have py: "p \<in> set ys" by auto
  have "Suc (pos ys p) = pos xs p" using ys pos_rotate1 [OF p(1) nh] pos_tl [OF p(1) nh] by auto
  then have "pos (rr_next P ys) p < pos xs p" using pos_rr_next [of p ys P, OF py P [OF p(2)]] by linarith
  then show "if Away = Away then hd (rr_next P ys) = p \<or> ready (tcbs s') p \<and> p \<in> set (rr_next P ys) \<and>
      pos (rr_next P ys) p < pos xs p else ready (tcbs s') p \<and> p \<in> set (rr_next P ys) \<and> pos (rr_next P ys) p \<le> pos xs p"
    using sw P [OF p(2)] py by (auto simp: switched_def)
qed

lemma inv_switched:
  assumes "switched P ys s0 s'" and "blocked (tcbs s') (rr_next P ys) = B" and "wait_ok B (wl s0)"
    and "mutex_ok (mutexes s0) H" and "barrier_ok (barriers s0)"
  shows "inv_at (rr_next P ys) s' H"
proof -
  from assms(1) have m: "mutexes s' = mutexes s0" "barriers s' = barriers s0" and ok: "sched_ok s' (rr_next P ys)"
    by (simp_all add: switched_def)
  have "wl s' = wl s0" using m by (rule wl_cong)
  with assms ok m show ?thesis by (simp add: inv_at_def)
qed

lemma alarm_step:
  assumes inv: "inv_at xs s H" and e: "schedule s = Some (Switched, s')"
  shows "\<exists>xs'. inv_at xs' s' H \<and> progress Away xs s xs' s'"
proof -
  let ?P = "\<lambda>x. x = hd xs \<or> ready (tcbs s) x"
  from inv have ok: "sched_ok s xs" by (simp add: inv_at_def)
  from alarm_switches [OF ok] e have sw: "switched ?P (rotate1 xs) s s'"
    and b: "blocked (tcbs s') (rr_next ?P (rotate1 xs)) = blocked (tcbs s) xs" by auto
  have "inv_at (rr_next ?P (rotate1 xs)) s' H" by (rule inv_switched [OF sw b]) (use inv in \<open>simp_all add: inv_at_def\<close>)
  moreover have "progress Away xs s (rr_next ?P (rotate1 xs)) s'" by (rule progress_switched [OF ok sw]) auto
  ultimately show ?thesis by blast
qed

lemma exit_step:
  assumes inv: "inv_at xs s H" and e: "pthread_exit s = Some (Away, s')"
  shows "\<exists>xs'. inv_at xs' s' H \<and> progress Away xs s xs' s'"
proof -
  from inv have ok: "sched_ok s xs" by (simp add: inv_at_def)
  have ex: "\<exists>x \<in> set (tl xs). ready (tcbs s) x" using exit_alone [OF ok] e by fastforce
  from exit_switches [OF ok ex] e have sw: "switched (ready (tcbs s)) (tl xs) s s'"
    and b: "blocked (tcbs s') (rr_next (ready (tcbs s)) (tl xs)) = blocked (tcbs s) xs" by auto
  have "inv_at (rr_next (ready (tcbs s)) (tl xs)) s' H"
    by (rule inv_switched [OF sw b]) (use inv in \<open>simp_all add: inv_at_def\<close>)
  moreover have "progress Away xs s (rr_next (ready (tcbs s)) (tl xs)) s'"
    by (rule progress_switched [OF ok sw]) auto
  ultimately show ?thesis by blast
qed

text \<open>Blocking on an object whose list becomes \<open>c # ws\<close>.\<close>

lemma block_step:
  assumes inv: "inv_at xs s H" and e: "block_on q push s1 = Some (Away, s')"
    and fr: "same_threads s s1" and sm: "sig_blocked s1" "sig_mask s1" and pu: "queue_push push"
    and w: "wl (push (hd xs) s1) = (wl s)(ob := hd xs # wl s ob)"
    and m: "mutex_ok (mutexes (push (hd xs) s1)) H" and b: "barrier_ok (barriers (push (hd xs) s1))"
  shows "\<exists>xs'. inv_at xs' s' H \<and> progress Away xs s xs' s'"
proof -
  from inv have ok: "sched_ok s xs" and wo: "wait_ok (blocked (tcbs s) xs) (wl s)" by (simp_all add: inv_at_def)
  have q: "q" using e by (auto simp: block_on_def Option_bind_eq_Some_conv split: if_splits)
  have ex: "\<exists>x \<in> set (tl xs). ready (tcbs s) x" using block_alone [OF ok _ fr sm(1) pu] e q by fastforce
  from block_switches [OF ok ex fr sm pu] e q have
    sw: "switched (ready (tcbs s)) (rotate1 xs) (push (hd xs) s1) s'" and
    bl: "blocked (tcbs s') (rr_next (ready (tcbs s)) (rotate1 xs)) = insert (hd xs) (blocked (tcbs s) xs)" by auto
  have "wait_ok (insert (hd xs) (blocked (tcbs s) xs)) (wl (push (hd xs) s1))"
    unfolding w by (rule wait_push [OF wo wait_hd [OF inv]])
  from inv_switched [OF sw bl this m b] progress_switched [OF ok sw] show ?thesis by blast
qed

text \<open>With another thread ready, a call that has to wait does not return.\<close>

lemma block_away:
  assumes "inv_at xs s H" and "other_ready s" and e: "block_on q push s1 = Some (r, s')"
    and "same_threads s s1" and "sig_blocked s1" "sig_mask s1" and "queue_push push"
  shows "r = Away"
proof -
  from assms(1) have ok: "sched_ok s xs" by (simp add: inv_at_def)
  have "q" using e by (auto simp: block_on_def Option_bind_eq_Some_conv split: if_splits)
  with block_switches [OF ok _ assms(4-7)] other_ready_ring [OF ok] assms(2) e show ?thesis by auto
qed

lemma quiet_step:
  assumes "inv_at xs s H" and "same_threads s s'" and "\<not> sig_blocked s'"
    and "wait_ok (blocked (tcbs s) xs) (wl s')" and "mutex_ok (mutexes s') H'" and "barrier_ok (barriers s')"
    and "r \<noteq> Away"
  shows "\<exists>xs'. inv_at xs' s' H' \<and> progress r xs s xs' s'"
proof -
  have "inv_at xs s' H'"
    using assms sched_ok_frame [OF assms(2,3)] by (simp add: inv_at_def same_threads_def)
  moreover have "progress r xs s xs s'"
    using assms(2,7) by (intro progress_same) (simp_all add: same_threads_def)
  ultimately show ?thesis by blast
qed

lemma wake_step:
  assumes inv: "inv_at xs s H" and ob: "wl s ob = ws @ vs"
    and s': "tcbs s' = wake (tcbs s) ws" "curr s' = curr s" "num_curr_threads s' = num_curr_threads s"
      "is_first_call s' = is_first_call s" "\<not> sig_blocked s'"
    and w: "wl s' = (wl s)(ob := vs)"
    and m: "mutex_ok (mutexes s') H'" and b: "barrier_ok (barriers s')" and r: "r \<noteq> Away"
  shows "\<exists>xs'. inv_at xs' s' H' \<and> progress r xs s xs' s'"
proof -
  from inv have ok: "sched_ok s xs" and wo: "wait_ok (blocked (tcbs s) xs) (wl s)" by (simp_all add: inv_at_def)
  have sub: "set ws \<subseteq> blocked (tcbs s) xs" using wl_blocked [OF inv, of _ ob] ob by auto
  have core: "sched_core (tcbs s) xs" using ok by (simp add: sched_ok_def)
  note wk = wake_core [OF core sub]
  have "distinct (ws @ vs)" using wo ob unfolding wait_ok_def by metis
  then have "set (wl s ob) - set vs = set ws" "distinct vs" using ob by auto
  with wait_shrink [OF wo, of vs ob] ob have "wait_ok (blocked (tcbs s) xs - set ws) (wl s')"
    unfolding w by simp
  then have "inv_at xs s' H'"
    using wk(1,2) ok s' m b by (simp add: inv_at_def sched_ok_def)
  moreover have "progress r xs s xs s'" using r wk(3) s'(1) by (intro progress_same) auto
  ultimately show ?thesis by blast
qed

text \<open>A control block allocated for a thread whose stack could not be is lost, and harmless.\<close>

lemma leak_step:
  assumes inv: "inv_at xs s H" and qn: "tcbs s q = None"
    and s': "s' = s\<lparr>tcbs := (tcbs s)(q \<mapsto> n)\<rparr>" and r: "r \<noteq> Away"
  shows "\<exists>xs'. inv_at xs' s' H \<and> progress r xs s xs' s'"
proof -
  from inv have ok: "sched_ok s xs" by (simp add: inv_at_def)
  note d = sched_okD [OF ok]
  have nq: "x \<noteq> q" if "x \<in> set xs" for x using ring_allocated [OF d(1) that] qn by auto
  have "ring (tcbs s') xs \<longleftrightarrow> ring (tcbs s) xs" using nq s' by (intro ring_cong) auto
  moreover have st: "status_of (tcbs s') x = status_of (tcbs s) x" if "x \<in> set xs" for x
    using nq [OF that] s' by simp
  moreover have "x \<in> set xs" if "x \<in> set (tl xs)" for x using that d(4) by (simp add: list.set_sel(2))
  ultimately have "sched_core (tcbs s') xs \<longleftrightarrow> sched_core (tcbs s) xs" using d(9)
    unfolding sched_core_def by metis
  then have "sched_ok s' xs" using ok s' by (simp add: sched_ok_def)
  moreover have "blocked (tcbs s') xs = blocked (tcbs s) xs" using st by (auto simp: blocked_def)
  moreover have "wl s' = wl s" using s' by (intro wl_cong) simp_all
  ultimately have "inv_at xs s' H" using inv s' by (simp add: inv_at_def)
  moreover have "progress r xs s xs s'" using st r by (simp add: progress_def ready_def)
  ultimately show ?thesis by blast
qed

lemma create_step:
  assumes inv: "inv_at xs s H" and n: "num_curr_threads s \<le> int MAX_THREADS"
    and p: "\<forall>p. b = Some p \<longrightarrow> tcbs s p = None" and e: "pthread_create a sok b stk e s = Some (rc, i, s')"
  shows "\<exists>xs'. inv_at xs' s' H \<and> progress (Ret rc) xs s xs' s'"
proof -
  from inv have ok: "sched_ok s xs" by (simp add: inv_at_def)
  note d = sched_okD [OF ok]
  have len: "length xs \<le> MAX_THREADS" using n d(6) by simp
  show ?thesis
  proof (cases b)
    case None
    with e d(8) have "s' = s" by (auto simp: pthread_create_def Let_def)
    then have "progress (Ret rc) xs s xs s'" by (simp add: progress_def)
    with inv \<open>s' = s\<close> show ?thesis by blast
  next
    case (Some q)
    with p have qn: "tcbs s q = None" by simp
    show ?thesis
    proof (cases "stk = 0")
      case True
      with e d(8) Some have "s' = s\<lparr>tcbs := (tcbs s)(q \<mapsto> new_block stk e)\<rparr>"
        by (auto simp: pthread_create_def Let_def)
      from leak_step [OF inv qn this] show ?thesis by simp
    next
      case False
      from create_links [OF ok len qn False, of a sok e] e Some have c: "created q s s' xs" by auto
      then have "inv_at (xs @ [q]) s' H" using inv wl_cong [of s' s] by (simp add: inv_at_def created_def)
      moreover have "progress (Ret rc) xs s (xs @ [q]) s'"
        using c by (simp add: progress_def created_def pos_append)
      ultimately show ?thesis by blast
    qed
  qed
qed

section \<open>The mutex and barrier steps\<close>

lemma sig_unlock [simp]:
  "\<not> sig_blocked s \<Longrightarrow> \<not> sig_blocked (unlock ((lock s)\<lparr>mutexes := m\<rparr>))"
  "\<not> sig_blocked s \<Longrightarrow> \<not> sig_blocked (unlock ((lock s)\<lparr>barriers := bb\<rparr>))"
  "\<not> sig_blocked s \<Longrightarrow> \<not> sig_blocked (unlock ((lock s)\<lparr>mutexes := m, mutex_counter := k\<rparr>))"
  "\<not> sig_blocked s \<Longrightarrow> \<not> sig_blocked (unlock ((lock s)\<lparr>barriers := bb, barrier_counter := k\<rparr>))"
  "\<not> sig_blocked s \<Longrightarrow> \<not> sig_blocked (unlock (lock s))"
  by (simp_all add: unlock_def lock_def)

lemma inv_atD:
  assumes "inv_at xs s H"
  shows "sched_ok s xs" "wait_ok (blocked (tcbs s) xs) (wl s)" "mutex_ok (mutexes s) H"
    "barrier_ok (barriers s)" "\<not> sig_blocked s" "curr s = Some (hd xs)"
  using assms sched_okD by (auto simp: inv_at_def)

lemma null_step:
  assumes "inv_at xs s H" and "r \<noteq> Away"
  shows "\<exists>xs'. inv_at xs' (unlock (lock s)) H \<and> progress r xs s xs' (unlock (lock s))"
  using inv_atD [OF assms(1)] assms(2) wl_cong [of "unlock (lock s)" s]
  by (intro quiet_step [OF assms(1)]) (simp_all add: same_threads_def)

lemma mutex_init_step:
  assumes inv: "inv_at xs s H" and "\<forall>a. m = Some a \<longrightarrow> mutexes s a = None"
    and e: "pthread_mutex_init m s = (r, x, s')"
  shows "\<exists>xs'. inv_at xs' s' H \<and> progress r xs s xs' s'"
proof (cases m)
  case None
  with e have "s' = unlock (lock s)" "r \<noteq> Away" by (auto simp: pthread_mutex_init_def Let_def)
  then show ?thesis using null_step [OF inv] by simp
next
  case (Some a)
  note i = inv_atD [OF inv]
  let ?i = "\<lparr>m_init = True, m_locked = False, mutex_id = mutex_counter s, m_waiters = []\<rparr>"
  from Some e have s': "s' = unlock ((lock s)\<lparr>mutexes := (mutexes s)(a \<mapsto> ?i), mutex_counter := mutex_counter s + 1\<rparr>)"
    "r = Ret 0" by (auto simp: pthread_mutex_init_def Let_def lock_def)
  have free: "mutexes s a = None" using assms(2) Some by simp
  have "wl s' = (wl s)(Mx a := [])" using s' by (subst wl_mutex [of s' s a ?i]) simp_all
  moreover have "(wl s)(Mx a := []) = wl s" using free by (simp add: fun_upd_idem wl_at)
  moreover have "mutex_ok (mutexes s') H" using i(3) free s' by (auto simp: mutex_ok_def)
  ultimately show ?thesis
    using i s' by (intro quiet_step [OF inv]) (simp_all add: same_threads_def)
qed

end
