(* ===== verification/Thread_Sync_Steps.thy ===== *)
theory Thread_Sync_Steps
  imports Thread_Sync_Inv
begin

text \<open>
  Every step of a history keeps the invariant and moves the ready threads as the fairness
  interface asks: the remaining mutex and barrier calls, the induction over histories, and the
  interpretation of \<open>fair_scheduler\<close>.
\<close>

lemma mutex_okD:
  assumes "mutex_ok ms H"
  shows "ms a = Some i \<Longrightarrow> m_init i" "ms a = Some i \<Longrightarrow> m_locked i \<longleftrightarrow> (\<exists>t. (a, t) \<in> H)"
    "ms a = Some i \<Longrightarrow> \<not> m_locked i \<Longrightarrow> m_waiters i = []" "(a, t) \<in> H \<Longrightarrow> \<exists>i. ms a = Some i"
  using assms unfolding mutex_ok_def by blast+

lemma mutex_destroy_step:
  assumes inv: "inv_at xs s H" and free: "\<forall>t. (a, t) \<notin> H"
    and e: "pthread_mutex_destroy (Some a) s = Some (r, s')"
  shows "\<exists>xs'. inv_at xs' s' H \<and> progress r xs s xs' s'"
proof -
  note i = inv_atD [OF inv]
  from e obtain m where m: "mutexes s a = Some m" and r: "r = Ret 0"
    and s': "s' = unlock ((lock s)\<lparr>mutexes := (mutexes s)(a := None)\<rparr>)"
    by (auto simp: pthread_mutex_destroy_def Let_def get_mutex_def split: option.splits)
  from mutex_okD [OF i(3)] m free have "m_waiters m = []" by blast
  then have "(wl s)(Mx a := []) = wl s" using m by (simp add: fun_upd_idem wl_at)
  moreover have "wl s' = (wl s)(Mx a := [])" using s' by (intro wl_mutex_del) simp_all
  moreover have "mutex_ok (mutexes s') H" using i(3) free s' by (auto simp: mutex_ok_def)
  ultimately show ?thesis
    using i s' r by (intro quiet_step [OF inv]) (simp_all add: same_threads_def)
qed

lemma lock_now_step:
  assumes inv: "inv_at xs s H" and m: "mutexes s a = Some i" "\<not> m_locked i" and c: "curr s = Some c"
    and e: "pthread_mutex_lock (Some a) q s = Some (r, s')"
  shows "\<exists>xs'. inv_at xs' s' (insert (a, c) H) \<and> progress r xs s xs' s'"
proof -
  note v = inv_atD [OF inv]
  from mutex_okD [OF v(3), of a] m have mi: "m_init i" "m_waiters i = []" "\<And>t. (a, t) \<notin> H" by blast+
  with e m have s': "s' = unlock ((lock s)\<lparr>mutexes := (mutexes s)(a \<mapsto> i\<lparr>m_locked := True\<rparr>)\<rparr>)" and r: "r = Ret 0"
    by (auto simp: pthread_mutex_lock_def Let_def get_mutex_def)
  have "wl s' = (wl s)(Mx a := m_waiters (i\<lparr>m_locked := True\<rparr>))" using s' by (intro wl_mutex) simp_all
  also have "\<dots> = wl s" using m by (simp add: fun_upd_idem wl_at)
  finally have "wl s' = wl s" .
  moreover have "mutex_ok (mutexes s') (insert (a, c) H)" using v(3) mi m s' by (auto simp: mutex_ok_def)
  ultimately show ?thesis
    using v s' r by (intro quiet_step [OF inv]) (simp_all add: same_threads_def)
qed

lemma lock_wait_step:
  assumes inv: "inv_at xs s H" and e: "pthread_mutex_lock (Some a) q s = Some (Away, s')"
  shows "\<exists>xs'. inv_at xs' s' H \<and> progress Away xs s xs' s'"
proof -
  note v = inv_atD [OF inv]
  obtain i where i: "mutexes s a = Some i" "m_locked i"
    and b: "block_on q (\<lambda>c s. s\<lparr>mutexes := (mutexes s)(a \<mapsto> i\<lparr>m_waiters := c # m_waiters i\<rparr>)\<rparr>) (lock s) = Some (Away, s')"
    using e by (auto simp: pthread_mutex_lock_def Let_def get_mutex_def split: option.splits if_splits)
  let ?push = "\<lambda>c s. s\<lparr>mutexes := (mutexes s)(a \<mapsto> i\<lparr>m_waiters := c # m_waiters i\<rparr>)\<rparr>"
  show ?thesis
  proof (rule block_step [OF inv b, where ob = "Mx a"])
    have "wl (?push (hd xs) (lock s)) = (wl s)(Mx a := m_waiters (i\<lparr>m_waiters := hd xs # m_waiters i\<rparr>))"
      by (intro wl_mutex) simp_all
    then show "wl (?push (hd xs) (lock s)) = (wl s)(Mx a := hd xs # wl s (Mx a))" using i by (simp add: wl_at)
    show "mutex_ok (mutexes (?push (hd xs) (lock s))) H" using v(3) i by (auto simp: mutex_ok_def)
  qed (use v in \<open>simp_all add: same_threads_def queue_push_def sig_mask_lock\<close>)
qed

lemma lock_step:
  assumes inv: "inv_at xs s H" and c: "curr s = Some c" and free: "other_ready s \<or> mutex_free s a"
    and e: "pthread_mutex_lock (Some a) q s = Some (r, s')"
  shows "\<exists>xs'. inv_at xs' s' (if r = Ret 0 then insert (a, c) H else H) \<and> progress r xs s xs' s'"
proof -
  note v = inv_atD [OF inv]
  obtain i where i: "mutexes s a = Some i"
    using e by (auto simp: pthread_mutex_lock_def Let_def get_mutex_def split: option.splits)
  have ini: "m_init i" using mutex_okD(1) [OF v(3) i] .
  show ?thesis
  proof (cases "m_locked i")
    case True
    with free i have rd: "other_ready s" by (simp add: mutex_free_def)
    have "block_on q (\<lambda>c s. s\<lparr>mutexes := (mutexes s)(a \<mapsto> i\<lparr>m_waiters := c # m_waiters i\<rparr>)\<rparr>) (lock s) = Some (r, s')"
      using e i ini True by (simp add: pthread_mutex_lock_def Let_def get_mutex_def)
    from block_away [OF inv rd this] v(5) have "r = Away"
      by (simp add: same_threads_def queue_push_def sig_mask_lock)
    with lock_wait_step [OF inv] e show ?thesis by simp
  next
    case False
    then have "r = Ret 0" using e i ini by (simp add: pthread_mutex_lock_def Let_def get_mutex_def)
    with lock_now_step [OF inv i False c e] show ?thesis by simp
  qed
qed

lemma mutex_ok_handoff:
  assumes ok: "mutex_ok ms H" and "ms a = Some i" and ac: "(a, c) \<in> H"
  shows "mutex_ok (ms(a \<mapsto> i\<lparr>m_locked := True, m_waiters := ws\<rparr>)) (H - {(a, c)} \<union> {(a, w)})"
proof -
  have only: "(a, t) \<in> H \<Longrightarrow> t = c" for t using ok ac by (auto simp: mutex_ok_def)
  show ?thesis unfolding mutex_ok_def
  proof (intro conjI allI impI)
    fix a' t u assume "(a', t) \<in> H - {(a, c)} \<union> {(a, w)}" "(a', u) \<in> H - {(a, c)} \<union> {(a, w)}"
    then show "t = u" using only ok by (cases "a' = a") (auto simp: mutex_ok_def)
  qed (use ok assms(2) in \<open>auto simp: mutex_ok_def split: if_splits\<close>)
qed

lemma mutex_ok_release:
  assumes ok: "mutex_ok ms H" and "ms a = Some i" "m_waiters i = []" and ac: "(a, c) \<in> H"
  shows "mutex_ok (ms(a \<mapsto> i\<lparr>m_locked := False\<rparr>)) (H - {(a, c)})"
proof -
  have only: "(a, t) \<in> H \<Longrightarrow> t = c" for t using ok ac by (auto simp: mutex_ok_def)
  show ?thesis using ok only assms(2,3) by (auto simp: mutex_ok_def)
qed

lemma unlock_step:
  assumes inv: "inv_at xs s H" and c: "curr s = Some c" "(a, c) \<in> H"
    and e: "pthread_mutex_unlock (Some a) s = Some (r, s')"
  shows "\<exists>xs'. inv_at xs' s' (H - {(a, c)} \<union> {(a, w) | w. w \<in> set (wl s (Mx a)) \<and> ready (tcbs s') w}) \<and>
    progress r xs s xs' s'"
proof -
  note v = inv_atD [OF inv]
  obtain i where i: "mutexes s a = Some i" "m_locked i" "m_init i"
    using mutex_okD [OF v(3)] c(2) by metis
  show ?thesis
  proof (cases "m_waiters i")
    case Nil
    with e i have s': "s' = unlock ((lock s)\<lparr>mutexes := (mutexes s)(a \<mapsto> i\<lparr>m_locked := False\<rparr>)\<rparr>)" and r: "r = Ret 0"
      by (auto simp: pthread_mutex_unlock_def Let_def get_mutex_def)
    have "wl s' = (wl s)(Mx a := m_waiters (i\<lparr>m_locked := False\<rparr>))" using s' by (intro wl_mutex) simp_all
    also have "\<dots> = wl s" using i by (simp add: fun_upd_idem wl_at)
    finally have w: "wl s' = wl s" .
    have "mutex_ok (mutexes s') (H - {(a, c)})"
      using mutex_ok_release [OF v(3) i(1) Nil c(2)] s' by simp
    with w i Nil v s' r show ?thesis
      by (intro quiet_step [OF inv]) (simp_all add: same_threads_def wl_at)
  next
    case (Cons w ws)
    have wb: "wl s (Mx a) = [w] @ ws" using i Cons by (simp add: wl_at)
    have "w \<in> blocked (tcbs s) xs" using wl_blocked [OF inv, of w "Mx a"] wb by simp
    then obtain t where t: "tcbs s w = Some t" by (auto simp: blocked_def status_of_Some)
    from e i Cons t have s': "s' = unlock ((lock s)\<lparr>tcbs := (tcbs s)(w \<mapsto> t\<lparr>t_status := TS_READY\<rparr>),
        mutexes := (mutexes s)(a \<mapsto> i\<lparr>m_locked := True, m_waiters := ws\<rparr>)\<rparr>)" and r: "r = Ret 0"
      by (auto simp: pthread_mutex_unlock_def Let_def get_mutex_def upd_tcb_def)
    have "wl s' = (wl s)(Mx a := m_waiters (i\<lparr>m_locked := True, m_waiters := ws\<rparr>))"
      using s' by (intro wl_mutex) simp_all
    moreover have "mutex_ok (mutexes s') (H - {(a, c)} \<union> {(a, w)})"
      using mutex_ok_handoff [OF v(3) i(1) c(2), of ws w] s' by simp
    moreover have tw: "tcbs s' = wake (tcbs s) [w]" using s' t by (auto simp: wake_def)
    moreover have "{(a, x) | x. x \<in> set (wl s (Mx a)) \<and> ready (tcbs s') x} = {(a, w)}"
    proof -
      have "\<not> ready (tcbs s) x" if "x \<in> set (wl s (Mx a))" for x
        using wl_blocked [OF inv that] by (simp add: blocked_def ready_def)
      then show ?thesis using tw wb t by (auto simp: ready_def status_wake split: if_splits)
    qed
    ultimately show ?thesis using v s' r wb
      by (intro wake_step [OF inv wb]) (simp_all add: unlock_def lock_def)
  qed
qed

lemma unlock_free_step:
  assumes inv: "inv_at xs s H" and free: "\<forall>t. (a, t) \<notin> H"
    and e: "pthread_mutex_unlock (Some a) s = Some (r, s')"
  shows "s' = unlock (lock s)" "r \<noteq> Away" "wl s (Mx a) = []"
proof -
  note v = inv_atD [OF inv]
  obtain i where i: "mutexes s a = Some i"
    using e by (auto simp: pthread_mutex_unlock_def Let_def get_mutex_def split: option.splits)
  have "m_init i" "\<not> m_locked i" "m_waiters i = []" using mutex_okD(1-3) [OF v(3) i] free by blast+
  with e i show "s' = unlock (lock s)" "r \<noteq> Away" "wl s (Mx a) = []"
    by (auto simp: pthread_mutex_unlock_def get_mutex_def Let_def wl_at)
qed

lemma block_on_Ret: "block_on q push s = Some (Ret v, s') \<Longrightarrow> v = 0"
  by (auto simp: block_on_def Option_bind_eq_Some_conv split: if_splits)

lemma barrier_init_step:
  assumes inv: "inv_at xs s H" and "\<forall>a. b = Some a \<longrightarrow> barriers s a = None"
    and e: "pthread_barrier_init b n s = (r, x, s')"
  shows "\<exists>xs'. inv_at xs' s' H \<and> progress r xs s xs' s'"
proof -
  note v = inv_atD [OF inv]
  consider "n = 0" "s' = s" "r \<noteq> Away" | "b = None" "s' = unlock (lock s)" "r \<noteq> Away"
    | a where "n \<noteq> 0" "b = Some a" "r = Ret 0" "s' = unlock ((lock s)\<lparr>barriers := (barriers s)(a \<mapsto>
          \<lparr>b_init = True, b_entered = 0, b_count = sint n, barrier_id = barrier_counter s, b_waiters = []\<rparr>),
          barrier_counter := barrier_counter s + 1\<rparr>)"
    using e by (cases b) (auto simp: pthread_barrier_init_def Let_def lock_def split: if_splits)
  then show ?thesis
  proof cases
    case 1
    with inv show ?thesis by (auto intro!: exI [of _ xs] simp: progress_def)
  next
    case 2
    then show ?thesis using null_step [OF inv] by simp
  next
    case 3
    have free: "barriers s a = None" using assms(2) 3 by simp
    have "wl s' = (wl s)(Br a := b_waiters \<lparr>b_init = True, b_entered = 0, b_count = sint n,
        barrier_id = barrier_counter s, b_waiters = []\<rparr>)"
      using 3 by (intro wl_barrier) simp_all
    moreover have "(wl s)(Br a := []) = wl s" using free by (simp add: fun_upd_idem wl_at)
    moreover have "barrier_ok (barriers s')" using v(4) 3 by (simp add: barrier_ok_upd barrier_wf_def)
    ultimately show ?thesis
      using v 3 by (intro quiet_step [OF inv]) (simp_all add: same_threads_def)
  qed
qed

text \<open>The three outcomes of \<open>pthread_barrier_wait\<close> on a live barrier.\<close>

lemma barrier_wait_cases:
  assumes "pthread_barrier_wait (Some a) q s = Some (r, s')" and "barriers s a = Some i" and "b_init i"
  defines "j \<equiv> i\<lparr>b_entered := b_entered i + 1\<rparr>"
  shows "b_entered j < b_count i \<and> block_on q (\<lambda>c s. s\<lparr>barriers := (barriers s)(a \<mapsto> j\<lparr>b_waiters := c # b_waiters i\<rparr>)\<rparr>)
        ((lock s)\<lparr>barriers := (barriers s)(a \<mapsto> j)\<rparr>) = Some (r, s')
    \<or> b_entered j = b_count i \<and> r = Ret PTHREAD_BARRIER_SERIAL_THREAD \<and>
        (\<exists>t. wake_all (b_waiters i) ((lock s)\<lparr>barriers := (barriers s)(a \<mapsto> j)\<rparr>) = Some t \<and>
          s' = unlock (t\<lparr>barriers := (barriers t)(a \<mapsto> i\<lparr>b_entered := 0, b_waiters := []\<rparr>)\<rparr>))
    \<or> b_count i < b_entered j \<and> r = Ret 0 \<and> s' = unlock ((lock s)\<lparr>barriers := (barriers s)(a \<mapsto> j)\<rparr>)"
  using assms
  by (auto simp: pthread_barrier_wait_def Let_def get_barrier_def Option_bind_eq_Some_conv split: if_splits)

lemma barrier_okD:
  assumes "barrier_ok bs" and "bs a = Some i"
  shows "b_init i" "0 < b_count i \<Longrightarrow> b_entered i = int (length (b_waiters i)) \<and> b_entered i < b_count i"
    "b_count i \<le> 0 \<Longrightarrow> b_waiters i = [] \<and> 0 \<le> b_entered i" "0 \<le> b_entered i"
  proof -
  from assms have "barrier_wf i" by (auto simp: barrier_ok_def)
  then show "b_init i" "0 < b_count i \<Longrightarrow> b_entered i = int (length (b_waiters i)) \<and> b_entered i < b_count i"
    "b_count i \<le> 0 \<Longrightarrow> b_waiters i = [] \<and> 0 \<le> b_entered i" "0 \<le> b_entered i"
    by (auto simp: barrier_wf_def split: if_splits)
qed

lemma barrier_pass_step:
  assumes inv: "inv_at xs s H"
    and e: "pthread_barrier_wait (Some a) q s = Some (Ret PTHREAD_BARRIER_SERIAL_THREAD, s')"
  shows "\<exists>xs'. inv_at xs' s' H \<and> progress (Ret PTHREAD_BARRIER_SERIAL_THREAD) xs s xs' s'"
proof -
  note v = inv_atD [OF inv]
  obtain i where i: "barriers s a = Some i"
    using e by (auto simp: pthread_barrier_wait_def Let_def get_barrier_def split: option.splits)
  note bi = barrier_okD [OF v(4) i]
  let ?s1 = "(lock s)\<lparr>barriers := (barriers s)(a \<mapsto> i\<lparr>b_entered := b_entered i + 1\<rparr>)\<rparr>"
  from barrier_wait_cases [OF e i bi(1)] obtain t where n: "b_entered i + 1 = b_count i"
    and t: "wake_all (b_waiters i) ?s1 = Some t"
    and s': "s' = unlock (t\<lparr>barriers := (barriers t)(a \<mapsto> i\<lparr>b_entered := 0, b_waiters := []\<rparr>)\<rparr>)"
    by (auto simp: PTHREAD_BARRIER_SERIAL_THREAD_def dest: block_on_Ret)
  have ws: "wl s (Br a) = b_waiters i @ []" using i by (simp add: wl_at)
  have "tcbs ?s1 w \<noteq> None" if "w \<in> set (b_waiters i)" for w
    using wl_blocked [OF inv, of w "Br a"] that ws by (auto simp: blocked_def status_of_Some)
  with t have t': "t = ?s1\<lparr>tcbs := wake (tcbs s) (b_waiters i)\<rparr>" by (simp add: wake_all_wake)
  have "wl s' = (wl s)(Br a := b_waiters (i\<lparr>b_entered := 0, b_waiters := []\<rparr>))"
    using s' t' by (intro wl_barrier) simp_all
  moreover have "barrier_ok (barriers s')" using v(4) bi(1,4) n s' t' by (simp add: barrier_ok_upd barrier_wf_def)
  ultimately show ?thesis
    using v s' t' ws by (intro wake_step [OF inv ws]) (simp_all add: unlock_def lock_def)
qed

lemma barrier_block_step:
  assumes inv: "inv_at xs s H" and e: "pthread_barrier_wait (Some a) q s = Some (Away, s')"
  shows "\<exists>xs'. inv_at xs' s' H \<and> progress Away xs s xs' s'"
proof -
  note v = inv_atD [OF inv]
  obtain i where i: "barriers s a = Some i"
    using e by (auto simp: pthread_barrier_wait_def Let_def get_barrier_def split: option.splits)
  note bi = barrier_okD [OF v(4) i]
  let ?j = "i\<lparr>b_entered := b_entered i + 1\<rparr>"
  let ?s1 = "(lock s)\<lparr>barriers := (barriers s)(a \<mapsto> ?j)\<rparr>"
  let ?push = "\<lambda>c s. s\<lparr>barriers := (barriers s)(a \<mapsto> ?j\<lparr>b_waiters := c # b_waiters i\<rparr>)\<rparr>"
  from barrier_wait_cases [OF e i bi(1)] have n: "b_entered i + 1 < b_count i"
    and b: "block_on q ?push ?s1 = Some (Away, s')" by auto
  show ?thesis
  proof (rule block_step [OF inv b, where ob = "Br a"])
    have "wl (?push (hd xs) ?s1) = (wl s)(Br a := b_waiters (?j\<lparr>b_waiters := hd xs # b_waiters i\<rparr>))"
      by (intro wl_barrier) simp_all
    then show "wl (?push (hd xs) ?s1) = (wl s)(Br a := hd xs # wl s (Br a))" using i by (simp add: wl_at)
    show "barrier_ok (barriers (?push (hd xs) ?s1))" using v(4) bi n by (auto simp: barrier_ok_upd barrier_wf_def)
  qed (use v in \<open>simp_all add: same_threads_def queue_push_def sig_mask_lock\<close>)
qed

lemma barrier_open_step:
  assumes inv: "inv_at xs s H" and i: "barriers s a = Some i" "b_count i \<le> 0"
    and e: "pthread_barrier_wait (Some a) q s = Some (r, s')"
  shows "\<exists>xs'. inv_at xs' s' H \<and> progress r xs s xs' s'"
proof -
  note v = inv_atD [OF inv]
  note bi = barrier_okD [OF v(4) i(1)]
  let ?j = "i\<lparr>b_entered := b_entered i + 1\<rparr>"
  from barrier_wait_cases [OF e i(1) bi(1)] bi(4) i(2) have r: "r = Ret 0"
    and s': "s' = unlock ((lock s)\<lparr>barriers := (barriers s)(a \<mapsto> ?j)\<rparr>)" by auto
  have "wl s' = (wl s)(Br a := b_waiters ?j)" using s' by (intro wl_barrier) simp_all
  also have "\<dots> = wl s" using i by (simp add: fun_upd_idem wl_at)
  finally have "wl s' = wl s" .
  moreover have "barrier_ok (barriers s')" using v(4) bi i s' by (simp add: barrier_ok_upd barrier_wf_def)
  ultimately show ?thesis
    using v s' r by (intro quiet_step [OF inv]) (simp_all add: same_threads_def)
qed

lemma barrier_wait_step:
  assumes inv: "inv_at xs s H" and full: "other_ready s \<or> barrier_full s a"
    and e: "pthread_barrier_wait (Some a) q s = Some (r, s')"
  shows "\<exists>xs'. inv_at xs' s' H \<and> progress r xs s xs' s'"
proof -
  note v = inv_atD [OF inv]
  obtain i where i: "barriers s a = Some i"
    using e by (auto simp: pthread_barrier_wait_def Let_def get_barrier_def split: option.splits)
  note bi = barrier_okD [OF v(4) i]
  from barrier_wait_cases [OF e i bi(1)] consider
      "b_entered i + 1 < b_count i" "block_on q (\<lambda>c s. s\<lparr>barriers := (barriers s)(a \<mapsto> i\<lparr>b_entered := b_entered i + 1,
        b_waiters := c # b_waiters i\<rparr>)\<rparr>) ((lock s)\<lparr>barriers := (barriers s)(a \<mapsto> i\<lparr>b_entered := b_entered i + 1\<rparr>)\<rparr>) = Some (r, s')"
    | "r = Ret PTHREAD_BARRIER_SERIAL_THREAD" | "b_count i < b_entered i + 1" by auto
  then show ?thesis
  proof cases
    case 1
    with full i have rd: "other_ready s" by (simp add: barrier_full_def)
    from block_away [OF inv rd 1(2)] v(5) have "r = Away"
      by (simp add: same_threads_def queue_push_def sig_mask_lock)
    with barrier_block_step [OF inv] e show ?thesis by simp
  next
    case 2
    with barrier_pass_step [OF inv] e show ?thesis by simp
  next
    case 3
    with bi(2) have "b_count i \<le> 0" by linarith
    with barrier_open_step [OF inv i _ e] show ?thesis by simp
  qed
qed

lemma barrier_destroy_step:
  assumes inv: "inv_at xs s H" and free: "wl s (Br a) = []"
    and e: "pthread_barrier_destroy (Some a) s = Some (r, s')"
  shows "\<exists>xs'. inv_at xs' s' H \<and> progress r xs s xs' s'"
proof -
  note v = inv_atD [OF inv]
  from e have r: "r = Ret 0" and s': "s' = unlock ((lock s)\<lparr>barriers := (barriers s)(a := None)\<rparr>)"
    by (auto simp: pthread_barrier_destroy_def Let_def get_barrier_def split: option.splits)
  have "(wl s)(Br a := []) = wl s" using free by (simp add: fun_upd_idem)
  moreover have "wl s' = (wl s)(Br a := [])" using s' by (intro wl_barrier_del) simp_all
  moreover have "barrier_ok (barriers s')" using v(4) s' by (simp add: barrier_ok_del)
  ultimately show ?thesis
    using v s' r by (intro quiet_step [OF inv]) (simp_all add: same_threads_def)
qed

section \<open>Histories\<close>

lemma sync_step_inv:
  assumes "sync_step \<sigma> r \<sigma>'" and "inv_at xs (fst \<sigma>) (snd \<sigma>)"
  shows "\<exists>xs'. inv_at xs' (fst \<sigma>') (snd \<sigma>') \<and> progress r xs (fst \<sigma>) xs' (fst \<sigma>')"
  using assms
proof cases
  case (step_null q s s' H)
  then have "s' = unlock (lock s)" "r \<noteq> Away"
    by (auto simp: pthread_mutex_lock_def pthread_mutex_unlock_def pthread_mutex_destroy_def
        pthread_barrier_wait_def pthread_barrier_destroy_def get_mutex_def get_barrier_def Let_def)
  with step_null assms(2) null_step show ?thesis by simp
next
  case (step_lock s c a q s' H)
  with assms(2) lock_step [of xs s H c a q r s'] show ?thesis by simp
next
  case (step_unlock s c a H s')
  show ?thesis
  proof (cases "(a, c) \<in> H")
    case True
    with step_unlock assms(2) unlock_step [of xs s H c a r s'] show ?thesis by simp
  next
    case False
    with step_unlock have f: "\<forall>t. (a, t) \<notin> H" by blast
    from step_unlock assms(2) have inv: "inv_at xs s H" by simp
    note u = unlock_free_step [OF inv f step_unlock(5)]
    from False u(3) step_unlock have "snd \<sigma>' = H" by auto
    with step_unlock u(1,2) null_step [OF inv] show ?thesis by simp
  qed
qed (use assms(2) in \<open>auto intro: alarm_step create_step exit_step mutex_init_step mutex_destroy_step
  barrier_init_step barrier_wait_step barrier_destroy_step\<close>)

lemma sync_inv_step: "sync_inv \<sigma> \<Longrightarrow> sync_step \<sigma> r \<sigma>' \<Longrightarrow> sync_inv \<sigma>'"
  unfolding sync_inv_def using sync_step_inv by blast

lemma sync_inv_steps: "sync_steps \<sigma> \<sigma>' \<Longrightarrow> sync_inv \<sigma> \<Longrightarrow> sync_inv \<sigma>'"
  by (induction rule: sync_steps.induct) (auto intro: sync_inv_step)

section \<open>Fairness\<close>

definition queue_of :: "sync \<times> holders \<Rightarrow> ptr list" where
  "queue_of \<sigma> = walk (tcbs (fst \<sigma>)) (nat (num_curr_threads (fst \<sigma>))) (curr (fst \<sigma>))"

definition hist_step :: "sync \<times> holders \<Rightarrow> bool \<Rightarrow> sync \<times> holders \<Rightarrow> bool" where
  "hist_step \<sigma> b \<sigma>' \<longleftrightarrow> (\<exists>r. sync_step \<sigma> r \<sigma>' \<and> b = (r = Away))"

definition ready_in :: "sync \<times> holders \<Rightarrow> ptr \<Rightarrow> bool" where
  "ready_in \<sigma> p \<longleftrightarrow> ready (tcbs (fst \<sigma>)) p"

lemma queue_of_ring: "sched_ok (fst \<sigma>) xs \<Longrightarrow> queue_of \<sigma> = xs"
  using sched_okD ring_walk by (metis nat_int queue_of_def)

interpretation sched: fair_scheduler hist_step sync_inv queue_of ready_in
proof
  show "sync_inv s \<Longrightarrow> hist_step s b t \<Longrightarrow> sync_inv t" for s b t
    unfolding hist_step_def using sync_inv_step by blast
next
  fix s p assume "sync_inv s" "ready_in s p" "p \<in> set (queue_of s)"
  then obtain xs where ok: "sched_ok (fst s) xs" by (auto simp: sync_inv_def inv_at_def)
  from queue_of_ring [OF ok] sched_okD(5) [OF ok] \<open>ready_in s p\<close> show "p \<noteq> hd (queue_of s)"
    by (auto simp: ready_in_def ready_def)
next
  fix s t p assume a: "sync_inv s" "hist_step s False t" "ready_in s p" "p \<in> set (queue_of s)"
  then obtain r xs where st: "sync_step s r t" "r \<noteq> Away" and inv: "inv_at xs (fst s) (snd s)"
    by (auto simp: hist_step_def sync_inv_def)
  from sync_step_inv [OF st(1) inv] obtain xs' where "inv_at xs' (fst t) (snd t)" "progress r xs (fst s) xs' (fst t)" by blast
  then show "ready_in t p \<and> p \<in> set (queue_of t) \<and> pos (queue_of t) p \<le> pos (queue_of s) p"
    using a st(2) inv queue_of_ring [of s xs] queue_of_ring [of t xs']
    by (simp add: inv_at_def progress_def ready_in_def)
next
  fix s t p assume a: "sync_inv s" "hist_step s True t" "ready_in s p" "p \<in> set (queue_of s)"
  then obtain xs where st: "sync_step s Away t" and inv: "inv_at xs (fst s) (snd s)"
    by (auto simp: hist_step_def sync_inv_def)
  from sync_step_inv [OF st inv] obtain xs' where "inv_at xs' (fst t) (snd t)" "progress Away xs (fst s) xs' (fst t)" by blast
  then show "hd (queue_of t) = p \<or> ready_in t p \<and> p \<in> set (queue_of t) \<and> pos (queue_of t) p < pos (queue_of s) p"
    using a inv queue_of_ring [of s xs] queue_of_ring [of t xs']
    by (simp add: inv_at_def progress_def ready_in_def)
qed

section \<open>The start of a program\<close>

definition boot :: sync where
  "boot = \<lparr>tcbs = Map.empty, head = None, tail = None, curr = None, thread_id_counter = 0,
     num_curr_threads = 0, is_first_call = True, sig_blocked = False, sig_mask = False,
     mutexes = Map.empty, barriers = Map.empty, mutex_counter = 0, barrier_counter = 0\<rparr>"

definition started :: "ptr \<Rightarrow> ptr \<Rightarrow> u64 \<Rightarrow> start_args \<Rightarrow> sync" where
  "started a p stk e = boot\<lparr>is_first_call := False, curr := Some a, head := Some a, tail := Some a,
     thread_id_counter := 2, num_curr_threads := 2,
     tcbs := [a \<mapsto> \<lparr>thread_id = 0, stack = 0, t_status = TS_RUNNING, env = Saved,
                     next_thread = Some p, prev_thread = Some p\<rparr>,
              p \<mapsto> \<lparr>thread_id = 1, stack = stk, t_status = TS_READY, env = env_for e stk,
                     next_thread = Some a, prev_thread = Some a\<rparr>]\<rparr>"

lemma first_create:
  assumes "a \<noteq> p" and "stk \<noteq> 0"
  shows "pthread_create (Some a) True (Some p) stk e boot = Some (0, Some 1, started a p stk e)"
  using assms
  by (simp add: pthread_create_def boot_def scheduler_init_def new_block_def link_pair_def upd_tcb_def
      finish_create_def started_def Let_def fun_upd_twist)

lemma started_inv: "a \<noteq> p \<Longrightarrow> inv_at [a, p] (started a p stk e) {}"
  by (simp add: inv_at_def sched_ok_def sched_core_def ring_def link_def started_def boot_def
      blocked_def wait_ok_def wl_def mutex_ok_def barrier_ok_def MAX_THREADS_def split: waitobj.splits)

end
