(* ===== verification/Thread_Sync_Props.thy ===== *)
theory Thread_Sync_Props
  imports Thread_Sync_Steps
begin

text \<open>
  The properties of the synchronization library: what every history keeps, mutual exclusion,
  bounded waiting, the effect of the scheduler, of the hand-over of a mutex and of a barrier, and
  what a call that has to wait does when no other thread is ready.
\<close>

section \<open>An alarm in the first call\<close>

text \<open>
  \<open>pthread_create\<close> does not hide the alarm. If it comes in the first call, between \<open>scheduler_init\<close> and
  the linking, the scheduler follows the \<open>NULL\<close> in \<open>next_thread\<close> and returns with \<open>curr\<close> being
  \<open>NULL\<close>; the rest of the call, which is what a call that is not the first does, dereferences it.
\<close>

lemma schedule_unlinked:
  assumes "curr s = Some p" "tcbs s p = Some t" "t_status t = TS_RUNNING" "next_thread t = None"
  shows "\<exists>s'. schedule s = Some (Returned, s') \<and> curr s' = None \<and> num_curr_threads s' = num_curr_threads s \<and>
    is_first_call s' = is_first_call s"
  using assms
  by (simp add: schedule_def lock_def upd_tcb_def deref_def yield_running_def search_def sched_loop.simps(2) Let_def)

lemma first_create_alarm_undefined:
  assumes "\<not> is_first_call s" and "stk \<noteq> 0"
  shows "\<exists>s1 s2. scheduler_init (Some p) True s = (0, s1) \<and> schedule s1 = Some (Returned, s2) \<and> curr s2 = None \<and>
    pthread_create a sig_ok (Some q) stk e s2 = None"
proof -
  obtain s1 t where s1: "scheduler_init (Some p) True s = (0, s1)" "curr s1 = Some p" "tcbs s1 p = Some t"
    "t_status t = TS_RUNNING" "next_thread t = None" "num_curr_threads s1 = 1" "\<not> is_first_call s1"
    using assms(1) by (simp add: scheduler_init_def Let_def)
  obtain s2 where s2: "schedule s1 = Some (Returned, s2)" "curr s2 = None" "num_curr_threads s2 = 1" "\<not> is_first_call s2"
    using schedule_unlinked [OF s1(2-5)] s1(6,7) by auto
  have "pthread_create a sig_ok (Some q) stk e s2 = None"
    using s2(2-) assms(2) by (simp add: pthread_create_def link_pair_def upd_tcb_def Let_def)
  then show ?thesis using s1(1) s2(1,2) by blast
qed
section \<open>Two threads, for the examples\<close>

definition args0 :: start_args where
  "args0 = \<lparr>sa_guard = 42, sa_thunk = 77, sa_start = 100, sa_arg = 5\<rparr>"

definition two :: sync where "two = started 1 2 16 args0"

lemma two_inv: "inv_at [1, 2] two {}"
  unfolding two_def by (rule started_inv) simp

lemma two_ok: "sched_ok two [1, 2]"
  using two_inv by (simp add: inv_at_def)

lemma two_sync_inv: "sync_inv (two, {})"
  unfolding sync_inv_def using two_inv by auto

lemma two_ready: "ready (tcbs two) 2" "\<not> ready (tcbs two) 1"
  by (simp_all add: two_def started_def boot_def ready_def)

lemma two_fields [simp]: "mutexes two = Map.empty" "barriers two = Map.empty" "curr two = Some 1"
  "\<not> sig_blocked two" "mutex_counter two = 0" "barrier_counter two = 0"
  by (simp_all add: two_def started_def boot_def)

section \<open>Histories\<close>

text \<open>
  C10. In every history of a program that has started its first thread, the control blocks form
  one ring in which the current thread, and only it, is running; the count of threads is the
  length of the ring; a thread is blocked exactly when it waits, and then for one object only.
\<close>

theorem sync_histories_ring:
  assumes "sync_steps (started a p stk e, {}) (s, H)" and "a \<noteq> p"
  shows "\<exists>xs. ring (tcbs s) xs \<and> curr s = Some (hd xs) \<and> num_curr_threads s = int (length xs) \<and>
    (\<forall>x \<in> set xs. status_of (tcbs s) x = Some TS_RUNNING \<longleftrightarrow> x = hd xs) \<and>
    (\<forall>x \<in> set xs. status_of (tcbs s) x = Some TS_BLOCKED \<longleftrightarrow> (\<exists>!ob. x \<in> set (wl s ob)))"
proof -
  have "sync_inv (started a p stk e, {})" unfolding sync_inv_def using started_inv [OF assms(2)] by auto
  from sync_inv_steps [OF assms(1) this] obtain xs where inv: "inv_at xs s H" by (auto simp: sync_inv_def)
  note d = sched_okD [OF inv_atD(1) [OF inv]]
  have "status_of (tcbs s) x = Some TS_RUNNING \<longleftrightarrow> x = hd xs" if "x \<in> set xs" for x
    using sched_ok_status [OF inv_atD(1) [OF inv] that] d(5) by (cases "x = hd xs") auto
  moreover have "status_of (tcbs s) x = Some TS_BLOCKED \<longleftrightarrow> (\<exists>!ob. x \<in> set (wl s ob))" if "x \<in> set xs" for x
    using inv_atD(2) [OF inv] that unfolding wait_ok_def blocked_def by blast
  ultimately show ?thesis using d by blast
qed

theorem sync_histories_ring_witness:
  "\<exists>s' xs. sync_steps (started 1 2 16 args0, {}) (s', {}) \<and> curr s' = Some 2 \<and> ring (tcbs s') xs \<and> curr s' = Some (hd xs)"
proof -
  obtain s' where e: "schedule two = Some (Switched, s')" "switched (\<lambda>x. x = 1 \<or> ready (tcbs two) x) [2, 1] two s'"
    using alarm_switches [OF two_ok] by auto
  have st: "sync_steps (started 1 2 16 args0, {}) (s', {})"
    using e(1) step_alarm sync_more sync_refl two_def by metis
  moreover from e(2) two_ready have "curr s' = Some 2"
    by (auto simp: switched_def rr_next_def sched_ok_def)
  moreover have "\<exists>xs. ring (tcbs s') xs \<and> curr s' = Some (hd xs)" using sync_histories_ring [OF st] by auto
  ultimately show ?thesis by blast
qed

text \<open>
  C2. Mutual exclusion: in no history do two threads hold the same mutex, where a thread holds it
  from the moment its \<open>pthread_mutex_lock\<close> returns 0, or an unlock makes it ready while it waits,
  until it unlocks; and a mutex somebody holds is marked locked. The histories take every call with
  the result the code gives, except a lock or a barrier wait that has to wait while no other thread
  is ready (what the code does then is shown below), and misuse: a mutex that somebody else holds is not
  unlocked, one that is held is not destroyed, a barrier with waiters is not destroyed.
\<close>

theorem sync_mutual_exclusion:
  assumes "sync_steps (started a p stk e, {}) (s, H)" and "a \<noteq> p" and "(m, t) \<in> H" and "(m, u) \<in> H"
  shows "t = u \<and> (\<exists>i. mutexes s m = Some i \<and> m_locked i)"
proof -
  have "sync_inv (started a p stk e, {})" unfolding sync_inv_def using started_inv [OF assms(2)] by auto
  from sync_inv_steps [OF assms(1) this] obtain xs where "inv_at xs s H" by (auto simp: sync_inv_def)
  then have ok: "mutex_ok (mutexes s) H" by (rule inv_atD)
  then have "t = u" using assms(3,4) by (auto simp: mutex_ok_def)
  moreover obtain i where "mutexes s m = Some i" using mutex_okD(4) [OF ok assms(3)] by blast
  moreover from this have "m_locked i" using mutex_okD(2) [OF ok] assms(3) by blast
  ultimately show ?thesis by blast
qed

text \<open>A history in which thread 1 initialises mutex 7 and takes it.\<close>

definition two_locked :: sync where
  "two_locked = two\<lparr>sig_mask := True, mutex_counter := 1, mutexes := [7 \<mapsto>
     \<lparr>m_init = True, m_locked = True, mutex_id = 0, m_waiters = []\<rparr>]\<rparr>"

lemma two_locked_steps: "sync_steps (two, {}) (two_locked, {(7, 1)})"
proof -
  let ?i = "\<lparr>m_init = True, m_locked = False, mutex_id = 0, m_waiters = []\<rparr>"
  let ?s = "two\<lparr>sig_mask := True, mutex_counter := 1, mutexes := [7 \<mapsto> ?i]\<rparr>"
  have "sync_step (two, {}) (Ret 0) (?s, {})"
    by (rule step_mutex_init [of "Some 7" _ _ "Some 7"]) (simp_all add: pthread_mutex_init_def lock_def unlock_def Let_def)
  moreover have "sync_step (?s, {}) (Ret 0) (two_locked, {(7, 1)})"
    using step_lock [of ?s 1 7 True "Ret 0" two_locked "{}"]
    by (simp add: pthread_mutex_lock_def get_mutex_def lock_def unlock_def Let_def two_locked_def mutex_free_def)
  ultimately show ?thesis using sync_more sync_refl by blast
qed

theorem sync_mutual_exclusion_witness:
  "sync_steps (started 1 2 16 args0, {}) (two_locked, {(7, 1)}) \<and> (\<exists>i. mutexes two_locked 7 = Some i \<and> m_locked i)"
  using sync_mutual_exclusion [of 1 2 16 args0 two_locked "{(7, 1)}" 7 1 1] two_locked_steps two_def by auto

text \<open>
  C4. Bounded waiting: whatever the threads do, a ready thread at distance \<open>d\<close> behind the current
  one in the ring is running after at most \<open>d\<close> switches, and \<open>d\<close> is at most \<open>MAX_THREADS\<close>.
\<close>

theorem sync_bounded_waiting:
  assumes "sync_inv \<sigma>" and "exec hist_step \<sigma> es" and "ready_in \<sigma> p" and "p \<in> set (queue_of \<sigma>)"
    and "pos (queue_of \<sigma>) p \<le> switches es"
  shows "(\<exists>(b, \<sigma>') \<in> set es. curr (fst \<sigma>') = Some p \<and> status_of (tcbs (fst \<sigma>')) p = Some TS_RUNNING) \<and>
    pos (queue_of \<sigma>) p \<le> MAX_THREADS"
proof -
  from sched.bounded_waiting [OF assms] obtain b t where t: "(b, t) \<in> set es" "hd (queue_of t) = p" by auto
  have "sync_inv t" by (rule sched.exec_inv [OF assms(2,1) t(1)])
  then obtain xs where xs: "sched_ok (fst t) xs" by (auto simp: sync_inv_def inv_at_def)
  from assms(1) obtain ys where ys: "sched_ok (fst \<sigma>) ys" by (auto simp: sync_inv_def inv_at_def)
  have "pos (queue_of \<sigma>) p < length ys" using pos_less assms(4) queue_of_ring [OF ys] by metis
  then have "pos (queue_of \<sigma>) p \<le> MAX_THREADS" using sched_okD(3) [OF ys] by simp
  moreover have "curr (fst t) = Some p" "status_of (tcbs (fst t)) p = Some TS_RUNNING"
    using sched_okD(2,5) [OF xs] queue_of_ring [OF xs] t(2) by simp_all
  ultimately show ?thesis using t(1) by blast
qed

theorem sync_bounded_waiting_witness:
  "\<exists>\<sigma>. hist_step (two, {}) True \<sigma> \<and> curr (fst \<sigma>) = Some 2"
proof -
  obtain s' where e: "schedule two = Some (Switched, s')" using alarm_switches [OF two_ok] by auto
  then have st: "hist_step (two, {}) True (s', {})" unfolding hist_step_def using step_alarm by blast
  have q: "queue_of (two, {}) = [1, 2]" using queue_of_ring [of "(two, {})"] two_ok by simp
  from sync_bounded_waiting [of "(two, {})" "[(True, (s', {}))]" 2] show ?thesis
    using st q two_sync_inv two_ready by (auto simp: ready_in_def switches_def)
qed

section \<open>The scheduler\<close>

text \<open>
  C15. On an alarm the scheduler runs the first thread behind the current one that is ready, the
  current one being the last candidate; the ring is rotated to it, nothing else changes order, and
  the pointer structure is again a ring with one running thread.
\<close>

theorem schedule_refines_round_robin:
  assumes "sched_ok s xs"
  shows "\<exists>s' zs. schedule s = Some (Switched, s') \<and>
    zs = rr_next (\<lambda>x. x = hd xs \<or> status_of (tcbs s) x = Some TS_READY) (rotate1 xs) \<and>
    sched_ok s' zs \<and> (\<exists>k. zs = rotate k xs) \<and> blocked (tcbs s') zs = blocked (tcbs s) xs \<and>
    mutexes s' = mutexes s \<and> barriers s' = barriers s"
proof -
  let ?P = "\<lambda>x. x = hd xs \<or> ready (tcbs s) x"
  have "rr_next ?P (rotate1 xs) = rotate (Suc (length (takeWhile (\<lambda>y. \<not> ?P y) (rotate1 xs)))) xs"
    using rr_next_rotate [of ?P "rotate1 xs"] by (simp add: rotate1_rotate_swap)
  then have "\<exists>k. rr_next ?P (rotate1 xs) = rotate k xs" by blast
  with alarm_switches [OF assms] show ?thesis unfolding switched_def ready_def by blast
qed

theorem schedule_refines_round_robin_witness:
  "\<exists>s'. schedule two = Some (Switched, s') \<and> sched_ok s' [2, 1]"
  using schedule_refines_round_robin [OF two_ok] two_ready by (auto simp: rr_next_def ready_def)

text \<open>
  C23. \<open>pthread_exit\<close> unlinks the caller from the ring and runs the next ready thread; if no other
  thread is ready the process ends, blocked threads or not.
\<close>

theorem exit_leaves_ring:
  assumes "sched_ok s xs"
  shows "if \<exists>x \<in> set (tl xs). status_of (tcbs s) x = Some TS_READY
    then \<exists>s' zs. pthread_exit s = Some (Away, s') \<and> zs = rr_next (ready (tcbs s)) (tl xs) \<and>
      sched_ok s' zs \<and> hd xs \<notin> set zs
    else \<exists>s'. pthread_exit s = Some (Gone, s')"
proof (cases "\<exists>x \<in> set (tl xs). ready (tcbs s) x")
  case True
  from exit_switches [OF assms this] obtain s' where "pthread_exit s = Some (Away, s')"
    "sched_ok s' (rr_next (ready (tcbs s)) (tl xs))" by (auto simp: switched_def)
  moreover have "hd xs \<notin> set (tl xs)" using distinct_hd_notin_tl sched_okD(4,10) [OF assms] by blast
  ultimately show ?thesis using True by (auto simp: ready_def)
next
  case False
  then show ?thesis using exit_alone [OF assms] by (auto simp: ready_def)
qed

theorem exit_leaves_ring_witness:
  "\<exists>s'. pthread_exit two = Some (Away, s') \<and> sched_ok s' [2]"
  using exit_leaves_ring [OF two_ok] two_ready by (auto simp: rr_next_def ready_def)

section \<open>Mutexes and barriers\<close>

lemma unlock_hands_over:
  assumes "inv_at xs s H" and "wl s (Mx a) = w # ws"
  shows "\<exists>s'. pthread_mutex_unlock (Some a) s = Some (Ret 0, s') \<and> wl s' (Mx a) = ws \<and>
    map_option m_locked (mutexes s' a) = Some True \<and>
    (\<forall>x. status_of (tcbs s') x = (if x = w then Some TS_READY else status_of (tcbs s) x)) \<and>
    curr s' = curr s"
proof -
  note v = inv_atD [OF assms(1)]
  obtain i where i: "mutexes s a = Some i" "m_waiters i = w # ws"
    using assms(2) by (auto simp: wl_def split: option.splits)
  with mutex_okD(1,3) [OF v(3) i(1)] have "m_init i" "m_locked i" by auto
  moreover obtain t where "tcbs s w = Some t"
    using wl_blocked [OF assms(1), of w "Mx a"] assms(2) by (auto simp: blocked_def status_of_Some)
  ultimately show ?thesis
    using i by (simp add: pthread_mutex_unlock_def get_mutex_def upd_tcb_def Let_def wl_def)
qed

lemma lock_waits:
  assumes "inv_at xs s H" and "(a, t) \<in> H" and "\<exists>x \<in> set (tl xs). ready (tcbs s) x"
  shows "\<exists>s1. pthread_mutex_lock (Some a) True s = Some (Away, s1) \<and> wl s1 (Mx a) = hd xs # wl s (Mx a) \<and>
    status_of (tcbs s1) (hd xs) = Some TS_BLOCKED"
proof -
  note v = inv_atD [OF assms(1)]
  obtain i where i: "mutexes s a = Some i" using mutex_okD(4) [OF v(3) assms(2)] by blast
  from mutex_okD(1,2) [OF v(3) i] assms(2) have il: "m_init i" "m_locked i" by auto
  let ?push = "\<lambda>c s. s\<lparr>mutexes := (mutexes s)(a \<mapsto> i\<lparr>m_waiters := c # m_waiters i\<rparr>)\<rparr>"
  obtain s1 where s1: "block_on True ?push (lock s) = Some (Away, s1)"
    "mutexes s1 = mutexes (?push (hd xs) (lock s))" "status_of (tcbs s1) (hd xs) = Some TS_BLOCKED"
    using block_switches [OF v(1) assms(3), of "lock s" ?push] v(5)
    by (auto simp: same_threads_def queue_push_def switched_def sig_mask_lock blocked_def)
  then show ?thesis using i il by (auto simp: pthread_mutex_lock_def get_mutex_def Let_def wl_def)
qed

text \<open>
  C24. The waiting list of a mutex is a stack, not a queue. A call of \<open>pthread_mutex_lock\<close> on a held
  mutex, with another thread ready, blocks the caller and waits; whenever afterwards, with nobody
  else having joined or left the list, the mutex is unlocked, it stays locked, this last caller
  and only it becomes ready, and the list is again what it was before the call, so that the earlier
  waiters are served after it, the last one first.
\<close>

theorem unlock_hands_over_lifo:
  assumes "inv_at xs s H" and "(a, t) \<in> H" and "\<exists>x \<in> set (tl xs). status_of (tcbs s) x = Some TS_READY"
  shows "\<exists>s1. pthread_mutex_lock (Some a) True s = Some (Away, s1) \<and>
    status_of (tcbs s1) (hd xs) = Some TS_BLOCKED \<and>
    (\<forall>ys s2 H2. inv_at ys s2 H2 \<longrightarrow> wl s2 (Mx a) = wl s1 (Mx a) \<longrightarrow>
      (\<exists>s3. pthread_mutex_unlock (Some a) s2 = Some (Ret 0, s3) \<and> wl s3 (Mx a) = wl s (Mx a) \<and>
        map_option m_locked (mutexes s3 a) = Some True \<and> curr s3 = curr s2 \<and>
        (\<forall>x. status_of (tcbs s3) x = (if x = hd xs then Some TS_READY else status_of (tcbs s2) x))))"
proof -
  have "\<exists>x \<in> set (tl xs). ready (tcbs s) x" using assms(3) by (simp add: ready_def)
  from lock_waits [OF assms(1,2) this] obtain s1 where s1: "pthread_mutex_lock (Some a) True s = Some (Away, s1)"
    "wl s1 (Mx a) = hd xs # wl s (Mx a)" "status_of (tcbs s1) (hd xs) = Some TS_BLOCKED" by blast
  have "\<exists>s3. pthread_mutex_unlock (Some a) s2 = Some (Ret 0, s3) \<and> wl s3 (Mx a) = wl s (Mx a) \<and>
        map_option m_locked (mutexes s3 a) = Some True \<and> curr s3 = curr s2 \<and>
        (\<forall>x. status_of (tcbs s3) x = (if x = hd xs then Some TS_READY else status_of (tcbs s2) x))"
    if "inv_at ys s2 H2" "wl s2 (Mx a) = wl s1 (Mx a)" for ys s2 H2
    using unlock_hands_over [OF that(1), of a "hd xs" "wl s (Mx a)"] that(2) s1(2) by auto
  with s1(1,3) show ?thesis by blast
qed

text \<open>Thread 1 holds mutex 7, and an alarm has switched to thread 2.\<close>

lemma two_locked_inv: "inv_at [1, 2] two_locked {(7, 1)}"
  by (auto simp: inv_at_def sched_ok_def sched_core_def ring_def link_def two_locked_def two_def
      started_def boot_def blocked_def wait_ok_def wl_def mutex_ok_def barrier_ok_def MAX_THREADS_def
      split: waitobj.splits if_splits)

lemma two_turned:
  obtains s where "schedule two_locked = Some (Switched, s)" "inv_at [2, 1] s {(7, 1)}"
    "status_of (tcbs s) 1 = Some TS_READY" "wl s (Mx 7) = []"
proof -
  note v = inv_atD [OF two_locked_inv]
  have r: "ready (tcbs two_locked) 2" using two_ready by (simp add: two_locked_def)
  obtain s where e: "schedule two_locked = Some (Switched, s)"
    and sw: "switched (\<lambda>x. x = 1 \<or> ready (tcbs two_locked) x) [2, 1] two_locked s"
    and b: "blocked (tcbs s) (rr_next (\<lambda>x. x = 1 \<or> ready (tcbs two_locked) x) [2, 1]) = blocked (tcbs two_locked) [1, 2]"
    using alarm_switches [OF v(1)] by auto
  have n: "rr_next (\<lambda>x. x = 1 \<or> ready (tcbs two_locked) x) [2, 1] = [2, 1]" using r by (simp add: rr_next_def)
  have "inv_at [2, 1] s {(7, 1)}" using inv_switched [OF sw b v(2-4)] n by simp
  moreover have "status_of (tcbs s) 1 = Some TS_READY" "wl s (Mx 7) = []"
    using sw n by (auto simp: switched_def ready_def wl_def two_locked_def)
  ultimately show thesis using that e by blast
qed

theorem unlock_hands_over_lifo_witness:
  "\<exists>s s1 s3. schedule two_locked = Some (Switched, s) \<and> pthread_mutex_lock (Some 7) True s = Some (Away, s1) \<and>
    pthread_mutex_unlock (Some 7) s1 = Some (Ret 0, s3) \<and> status_of (tcbs s3) 2 = Some TS_READY \<and> wl s3 (Mx 7) = []"
proof -
  obtain s where s: "schedule two_locked = Some (Switched, s)" "inv_at [2, 1] s {(7, 1)}"
    "status_of (tcbs s) 1 = Some TS_READY" "wl s (Mx 7) = []" using two_turned by blast
  then have "\<exists>x \<in> set (tl [2, 1]). status_of (tcbs s) x = Some TS_READY" by simp
  note th = unlock_hands_over_lifo [OF s(2) _ this, of 7 1]
  obtain s1 where s1: "pthread_mutex_lock (Some 7) True s = Some (Away, s1)" using th by auto
  obtain ys where "inv_at ys s1 {(7, 1)}" using lock_wait_step [OF s(2) s1] by blast
  with th s1 have "\<exists>s3. pthread_mutex_unlock (Some 7) s1 = Some (Ret 0, s3) \<and> wl s3 (Mx 7) = wl s (Mx 7) \<and>
    status_of (tcbs s3) 2 = Some TS_READY" by fastforce
  with s(1,4) s1 show ?thesis by auto
qed

text \<open>Thread 1 holds mutex 7 and thread 2 waits for it.\<close>

definition two_waiting :: sync where
  "two_waiting = two_locked\<lparr>tcbs := (tcbs two)(2 := map_option (t_status_update (\<lambda>_. TS_BLOCKED)) (tcbs two 2)),
     mutexes := [7 \<mapsto> \<lparr>m_init = True, m_locked = True, mutex_id = 0, m_waiters = [2]\<rparr>]\<rparr>"

lemma two_waiting_inv: "inv_at [1, 2] two_waiting {(7, 1)}"
  by (auto simp: inv_at_def sched_ok_def sched_core_def ring_def link_def two_waiting_def two_locked_def two_def
      started_def boot_def blocked_def wait_ok_def wl_def mutex_ok_def barrier_ok_def MAX_THREADS_def
      split: waitobj.splits if_splits)

text \<open>
  C25. A call of \<open>pthread_mutex_lock\<close> on a mutex that is held returns 0, as if it had the mutex,
  when no other thread is ready: the scheduler gives up after its loop and the call falls
  through. The caller goes on running although it is marked blocked and stays in the waiting list.
\<close>

theorem lock_without_ready_returns_zero:
  assumes "inv_at xs s H" and "(a, t) \<in> H" and "\<forall>x \<in> set (tl xs). status_of (tcbs s) x \<noteq> Some TS_READY"
  shows "\<exists>s'. pthread_mutex_lock (Some a) True s = Some (Ret 0, s') \<and>
    status_of (tcbs s') (hd xs) = Some TS_BLOCKED \<and> wl s' (Mx a) = hd xs # wl s (Mx a) \<and>
    curr s' = Some (xs ! ((MAX_THREADS + 1) mod length xs))"
proof -
  note v = inv_atD [OF assms(1)]
  obtain i where i: "mutexes s a = Some i" using mutex_okD(4) [OF v(3) assms(2)] by blast
  from mutex_okD(1,2) [OF v(3) i] assms(2) have il: "m_init i" "m_locked i" by auto
  let ?push = "\<lambda>c s. s\<lparr>mutexes := (mutexes s)(a \<mapsto> i\<lparr>m_waiters := c # m_waiters i\<rparr>)\<rparr>"
  have "block_on True ?push (lock s) = Some (Ret 0,
      unlock ((suspend (hd xs) TS_BLOCKED (?push (hd xs) (lock s)))\<lparr>curr := Some (hd (rotate limit xs))\<rparr>))"
    using assms(3) by (intro block_alone [OF v(1)]) (simp_all add: same_threads_def queue_push_def ready_def)
  moreover have "hd (rotate limit xs) = xs ! (limit mod length xs)"
    using sched_okD(4) [OF v(1)] by (rule hd_rotate)
  moreover have "tcbs s (hd xs) \<noteq> None" using sched_okD(11) [OF v(1)] by auto
  ultimately show ?thesis
    using i il by (auto simp: pthread_mutex_lock_def get_mutex_def Let_def wl_def suspend_def)
qed

theorem lock_without_ready_returns_zero_witness:
  "\<exists>s'. pthread_mutex_lock (Some 7) True two_waiting = Some (Ret 0, s') \<and> wl s' (Mx 7) = [1, 2]"
proof -
  have "status_of (tcbs two_waiting) 2 \<noteq> Some TS_READY" "wl two_waiting (Mx 7) = [2]"
    by (simp_all add: two_waiting_def two_locked_def two_def started_def boot_def wl_def)
  with lock_without_ready_returns_zero [OF two_waiting_inv, of 7 1] show ?thesis by auto
qed

lemma barrier_wait_blocks:
  assumes "inv_at xs s H" and "barriers s a = Some i" and "b_entered i + 1 < b_count i" and "b_count i < 2 ^ 31"
  shows "\<exists>s'. pthread_barrier_wait (Some a) True s =
      Some (if \<exists>x \<in> set (tl xs). ready (tcbs s) x then Away else Ret 0, s') \<and>
    wl s' (Br a) = hd xs # wl s (Br a) \<and> status_of (tcbs s') (hd xs) = Some TS_BLOCKED"
proof -
  note v = inv_atD [OF assms(1)]
  let ?j = "i\<lparr>b_entered := b_entered i + 1\<rparr>"
  let ?s1 = "(lock s)\<lparr>barriers := (barriers s)(a \<mapsto> ?j)\<rparr>"
  let ?push = "\<lambda>c s. s\<lparr>barriers := (barriers s)(a \<mapsto> ?j\<lparr>b_waiters := c # b_waiters i\<rparr>)\<rparr>"
  have fr: "same_threads s ?s1" "sig_blocked ?s1" "sig_mask ?s1" "queue_push ?push"
    using v(5) by (simp_all add: same_threads_def queue_push_def sig_mask_lock)
  have "\<exists>s'. block_on True ?push ?s1 = Some (if \<exists>x \<in> set (tl xs). ready (tcbs s) x then Away else Ret 0, s') \<and>
      barriers s' = barriers (?push (hd xs) ?s1) \<and> status_of (tcbs s') (hd xs) = Some TS_BLOCKED"
  proof (cases "\<exists>x \<in> set (tl xs). ready (tcbs s) x")
    case True
    with block_switches [OF v(1) True fr] show ?thesis by (auto simp: switched_def blocked_def)
  next
    case False
    moreover have "tcbs s (hd xs) \<noteq> None" using sched_okD(11) [OF v(1)] by auto
    ultimately show ?thesis using block_alone [OF v(1) _ fr(1,2,4)] by (auto simp: suspend_def)
  qed
  then show ?thesis
    using assms(2-4) barrier_okD(1) [OF v(4) assms(2)]
    by (auto simp: pthread_barrier_wait_def get_barrier_def Let_def wl_def)
qed

text \<open>
  C12. A barrier of \<open>n\<close> threads. The \<open>n\<close>-th caller gets \<open>PTHREAD_BARRIER_SERIAL_THREAD\<close>, whether or not any
  thread was ready; all waiting threads, and only they, become ready and the barrier is empty again.
  A caller that is not the \<open>n\<close>-th is marked blocked and joins the waiting list: if some other thread
  is ready that one runs, and if none is the call returns 0 at once, without having waited.
\<close>

theorem barrier_releases_together:
  assumes "inv_at xs s H" and "barriers s a = Some i" and "0 < b_count i" and "b_count i < 2 ^ 31"
  shows "if int (length (wl s (Br a))) + 1 < b_count i
    then \<exists>s'. pthread_barrier_wait (Some a) True s =
        Some (if \<exists>x \<in> set (tl xs). status_of (tcbs s) x = Some TS_READY then Away else Ret 0, s') \<and>
      wl s' (Br a) = hd xs # wl s (Br a) \<and> status_of (tcbs s') (hd xs) = Some TS_BLOCKED
    else \<exists>s'. pthread_barrier_wait (Some a) True s = Some (Ret PTHREAD_BARRIER_SERIAL_THREAD, s') \<and>
      wl s' (Br a) = [] \<and> map_option b_entered (barriers s' a) = Some 0 \<and> curr s' = curr s \<and>
      (\<forall>x. status_of (tcbs s') x = (if x \<in> set (wl s (Br a)) then Some TS_READY else status_of (tcbs s) x))"
proof -
  note v = inv_atD [OF assms(1)]
  note bi = barrier_okD [OF v(4) assms(2)]
  from bi(2) assms(3) have n: "b_entered i = int (length (b_waiters i))" "b_entered i < b_count i" by auto
  have wl: "wl s (Br a) = b_waiters i" using assms(2) by (simp add: wl_at)
  let ?s1 = "(lock s)\<lparr>barriers := (barriers s)(a \<mapsto> i\<lparr>b_entered := b_entered i + 1\<rparr>)\<rparr>"
  have al: "tcbs s w \<noteq> None" if "w \<in> set (b_waiters i)" for w
    using wl_blocked [OF assms(1), of w "Br a"] that wl by (auto simp: blocked_def status_of_Some)
  then have "wake_all (b_waiters i) ?s1 = Some (?s1\<lparr>tcbs := wake (tcbs s) (b_waiters i)\<rparr>)"
    by (simp add: wake_all_wake)
  then have "\<not> b_entered i + 1 < b_count i \<Longrightarrow>
    \<exists>s'. pthread_barrier_wait (Some a) True s = Some (Ret PTHREAD_BARRIER_SERIAL_THREAD, s') \<and>
      wl s' (Br a) = [] \<and> map_option b_entered (barriers s' a) = Some 0 \<and> curr s' = curr s \<and>
      (\<forall>x. status_of (tcbs s') x = (if x \<in> set (b_waiters i) then Some TS_READY else status_of (tcbs s) x))"
    using assms(2-4) bi(1) n al
    by (auto simp: pthread_barrier_wait_def get_barrier_def Let_def wl_def status_wake)
  with barrier_wait_blocks [OF assms(1,2) _ assms(4)] n(1) wl show ?thesis by (simp add: ready_def)
qed

definition two_barrier :: sync where
  "two_barrier = two\<lparr>barriers := [9 \<mapsto> \<lparr>b_init = True, b_entered = 0, b_count = 2, barrier_id = 0, b_waiters = []\<rparr>]\<rparr>"

lemma two_barrier_inv: "inv_at [1, 2] two_barrier {}"
proof -
  have "wl two_barrier = wl two"
    by (simp add: wl_def two_barrier_def fun_eq_iff split: waitobj.splits)
  moreover have "barrier_ok (barriers two_barrier)"
    by (simp add: two_barrier_def barrier_ok_def barrier_wf_def)
  moreover have "sched_ok two_barrier [1, 2]"
    by (rule sched_ok_frame [OF _ _ two_ok]) (simp_all add: same_threads_def two_barrier_def)
  ultimately show ?thesis using two_inv by (simp add: inv_at_def) (simp add: two_barrier_def)
qed

text \<open>Thread 2 waits at barrier 9, so that no other thread is ready when thread 1 arrives.\<close>

definition two_arrived :: sync where
  "two_arrived = two\<lparr>tcbs := (tcbs two)(2 := map_option (t_status_update (\<lambda>_. TS_BLOCKED)) (tcbs two 2)),
     barriers := [9 \<mapsto> \<lparr>b_init = True, b_entered = 1, b_count = 2, barrier_id = 0, b_waiters = [2]\<rparr>]\<rparr>"

lemma two_arrived_inv: "inv_at [1, 2] two_arrived {}"
  by (auto simp: inv_at_def sched_ok_def sched_core_def ring_def link_def two_arrived_def two_def
      started_def boot_def blocked_def wait_ok_def wl_def mutex_ok_def barrier_ok_def barrier_wf_def MAX_THREADS_def
      split: waitobj.splits if_splits)

theorem barrier_releases_together_witness:
  "(\<exists>s'. pthread_barrier_wait (Some 9) True two_barrier = Some (Away, s') \<and> wl s' (Br 9) = [1]) \<and>
   (\<exists>s'. pthread_barrier_wait (Some 9) True two_arrived = Some (Ret PTHREAD_BARRIER_SERIAL_THREAD, s') \<and>
     wl s' (Br 9) = [] \<and> status_of (tcbs s') 2 = Some TS_READY)"
proof
  show "\<exists>s'. pthread_barrier_wait (Some 9) True two_barrier = Some (Away, s') \<and> wl s' (Br 9) = [1]"
    using barrier_releases_together [OF two_barrier_inv, of 9] two_ready
    by (auto simp: two_barrier_def wl_def ready_def)
  have "wl two_arrived (Br 9) = [2]" by (simp add: wl_def two_arrived_def)
  then show "\<exists>s'. pthread_barrier_wait (Some 9) True two_arrived = Some (Ret PTHREAD_BARRIER_SERIAL_THREAD, s') \<and>
     wl s' (Br 9) = [] \<and> status_of (tcbs s') 2 = Some TS_READY"
    using barrier_releases_together [OF two_arrived_inv, of 9] by (auto simp: two_arrived_def)
qed

end
