(* ===== verification/Tls.thy ===== *)
theory Tls
  imports Prelude
begin

text \<open>
  Thread local storage, \<open>thread_local_storage/src/tls.c\<close> and \<open>tls.h\<close>: one definition per function.

  \<^item> Each library call is one step of the thread \<open>self\<close> (the result of \<open>pthread_self\<close>).
  \<^item> The operating system is the parameter \<open>E\<close>: the page size, for the \<open>n\<close>-th call of the program
    whether it succeeds (\<open>call_ok E n\<close>), and the address a successful \<open>mmap\<close> gives. A pointer that
    \<open>malloc\<close> returns is the number of the call, so it is fresh.
  \<^item> An address, \<open>unsigned long\<close> in the code, is an integer: the code masks addresses and adds offsets
    below the page size to them, and an address space that never runs out is the counterpart of a
    \<open>malloc\<close> that never fails.
  \<^item> A mapped page has its bytes and whether it may be accessed; \<open>memcpy\<close> to or from a protected or
    unmapped page is undefined (\<open>None\<close>), as is a dereference of a freed block and an index outside an
    array.
  \<^item> A mutex is held or not; a call that would wait for a mutex nobody is going to release never
    returns (\<open>Stuck\<close>). Structures that a failed call leaves behind unreachable are not kept.
\<close>

type_synonym addr = int
type_synonym tid = "64 word"

definition MAX_THREAD_COUNT :: nat where [c_consts]: "MAX_THREAD_COUNT = 128"
definition MAP_FAILED :: addr where "MAP_FAILED = 2 ^ 64 - 1"

record page =
  address :: addr
  ref_count :: int

record TLS =
  tls_tid :: tid
  tls_size :: u32
  num_pages :: nat
  tls_pages :: "nat list"

record mapping =
  mp_data :: "u8 list"
  mp_open :: bool

datatype mtx = Mutex_read | Mutex_write | Mutex_copy

record tstate =
  tid_tls_arr :: "(tid \<times> nat) option list"
  tlss :: "nat \<rightharpoonup> TLS"
  pages :: "nat \<rightharpoonup> page"
  maps :: "addr \<rightharpoonup> mapping"
  page_size :: nat
  is_first_time :: bool
  held :: "mtx \<Rightarrow> bool"
  clock :: nat

record os =
  getpagesize :: nat
  call_ok :: "nat \<Rightarrow> bool"
  mmap_addr :: "nat \<Rightarrow> addr"

datatype result = Done int | Stuck

section \<open>The operating system\<close>

definition sys :: "os \<Rightarrow> tstate \<Rightarrow> bool \<times> tstate" where
  "sys E s = (call_ok E (clock s), s\<lparr>clock := clock s + 1\<rparr>)"

definition malloc :: "os \<Rightarrow> tstate \<Rightarrow> nat option \<times> tstate" where
  "malloc E s = (if call_ok E (clock s) then Some (clock s) else None, s\<lparr>clock := clock s + 1\<rparr>)"

definition mmap :: "os \<Rightarrow> tstate \<Rightarrow> addr \<times> tstate" where
  "mmap E s = (if call_ok E (clock s)
     then (mmap_addr E (clock s),
           s\<lparr>maps := (maps s)(mmap_addr E (clock s) \<mapsto> \<lparr>mp_data = replicate (page_size s) 0, mp_open = False\<rparr>),
             clock := clock s + 1\<rparr>)
     else (MAP_FAILED, s\<lparr>clock := clock s + 1\<rparr>))"

definition mprotect :: "os \<Rightarrow> addr \<Rightarrow> bool \<Rightarrow> tstate \<Rightarrow> bool \<times> tstate" where
  "mprotect E a b s = (case maps s a of
     Some m \<Rightarrow> if call_ok E (clock s)
       then (True, s\<lparr>maps := (maps s)(a \<mapsto> m\<lparr>mp_open := b\<rparr>), clock := clock s + 1\<rparr>)
       else (False, s\<lparr>clock := clock s + 1\<rparr>)
   | None \<Rightarrow> (False, s\<lparr>clock := clock s + 1\<rparr>))"

definition munmap :: "os \<Rightarrow> addr \<Rightarrow> tstate \<Rightarrow> bool \<times> tstate" where
  "munmap E a s = (if call_ok E (clock s) then (True, s\<lparr>maps := (maps s)(a := None), clock := clock s + 1\<rparr>)
     else (False, s\<lparr>clock := clock s + 1\<rparr>))"

definition load :: "addr \<Rightarrow> nat \<Rightarrow> nat \<Rightarrow> tstate \<Rightarrow> u8 list option" where
  "load a off n s = do {
     m \<leftarrow> maps s a;
     if mp_open m then mem_read (mp_data m) off n else None }"

definition store :: "addr \<Rightarrow> nat \<Rightarrow> u8 list \<Rightarrow> tstate \<Rightarrow> tstate option" where
  "store a off bs s = do {
     m \<leftarrow> maps s a;
     if mp_open m
     then do { d \<leftarrow> mem_write (mp_data m) off bs; Some (s\<lparr>maps := (maps s)(a \<mapsto> m\<lparr>mp_data := d\<rparr>)\<rparr>) }
     else None }"

definition mutex_lock :: "os \<Rightarrow> mtx \<Rightarrow> tstate \<Rightarrow> bool \<times> tstate" where
  "mutex_lock E m s = (let (b, s) = sys E s in (b, if b then s\<lparr>held := (held s)(m := True)\<rparr> else s))"

definition mutex_unlock :: "os \<Rightarrow> mtx \<Rightarrow> tstate \<Rightarrow> bool \<times> tstate" where
  "mutex_unlock E m s = (let (b, s) = sys E s in (b, if b then s\<lparr>held := (held s)(m := False)\<rparr> else s))"

section \<open>Helper functions of the library\<close>

fun fault_in_pages :: "addr \<Rightarrow> nat list \<Rightarrow> tstate \<Rightarrow> bool option" where
  "fault_in_pages page_fault [] s = Some False"
| "fault_in_pages page_fault (p # ps) s = do {
     pg \<leftarrow> pages s p;
     if address pg = page_fault then Some True else fault_in_pages page_fault ps s }"

fun fault_in_arr :: "addr \<Rightarrow> (tid \<times> nat) option list \<Rightarrow> tstate \<Rightarrow> bool option" where
  "fault_in_arr page_fault [] s = Some False"
| "fault_in_arr page_fault (None # es) s = fault_in_arr page_fault es s"
| "fault_in_arr page_fault (Some (t, q) # es) s = do {
     tl \<leftarrow> tlss s q;
     b \<leftarrow> fault_in_pages page_fault (take (num_pages tl) (tls_pages tl)) s;
     if b then Some True else fault_in_arr page_fault es s }"

definition is_fault_in_tls_space :: "addr \<Rightarrow> tstate \<Rightarrow> bool option" where
  "is_fault_in_tls_space page_fault s = fault_in_arr page_fault (tid_tls_arr s) s"

text \<open>What the signal handler does to the faulting thread.\<close>

datatype verdict = Thread_exit | Default_action

definition tls_handle_page_fault :: "addr \<Rightarrow> tstate \<Rightarrow> verdict option" where
  "tls_handle_page_fault si_addr s = do {
     b \<leftarrow> is_fault_in_tls_space (si_addr AND NOT (int (page_size s) - 1)) s;
     Some (if b then Thread_exit else Default_action) }"

definition tls_protect :: "os \<Rightarrow> nat \<Rightarrow> tstate \<Rightarrow> (bool \<times> tstate) option" where
  "tls_protect E p s = do { pg \<leftarrow> pages s p; Some (mprotect E (address pg) False s) }"

definition tls_unprotect :: "os \<Rightarrow> nat \<Rightarrow> tstate \<Rightarrow> (bool \<times> tstate) option" where
  "tls_unprotect E p s = do { pg \<leftarrow> pages s p; Some (mprotect E (address pg) True s) }"

text \<open>Six calls that may fail: three mutexes, \<open>sigemptyset\<close>, and \<open>sigaction\<close> twice.\<close>

definition init_mutex :: "os \<Rightarrow> mtx \<Rightarrow> tstate \<Rightarrow> bool \<times> tstate" where
  "init_mutex E m s = (let (b, s) = sys E s in (b, if b then s\<lparr>held := (held s)(m := False)\<rparr> else s))"

definition tls_init :: "os \<Rightarrow> tstate \<Rightarrow> int \<times> tstate" where
  "tls_init E s =
    (let s = s\<lparr>page_size := getpagesize E\<rparr>;
         (b, s) = init_mutex E Mutex_read s in if \<not> b then (- 1, s) else
     let (b, s) = init_mutex E Mutex_write s in if \<not> b then (- 1, s) else
     let (b, s) = init_mutex E Mutex_copy s in if \<not> b then (- 1, s) else
     let (b, s) = sys E s in if \<not> b then (- 1, s) else
     let (b, s) = sys E s in if \<not> b then (- 1, s) else
     let (b, s) = sys E s in if \<not> b then (- 1, s) else (0, s))"

fun first_free :: "'a option list \<Rightarrow> nat option" where
  "first_free [] = None"
| "first_free (None # es) = Some 0"
| "first_free (Some e # es) = map_option Suc (first_free es)"

definition append_to_arr :: "tid \<times> nat \<Rightarrow> tstate \<Rightarrow> int \<times> tstate" where
  "append_to_arr tt s = (case first_free (tid_tls_arr s) of
     Some i \<Rightarrow> (0, s\<lparr>tid_tls_arr := (tid_tls_arr s)[i := Some tt]\<rparr>)
   | None \<Rightarrow> (- 1, s))"

fun find_tid :: "tid \<Rightarrow> (tid \<times> nat) option list \<Rightarrow> nat option" where
  "find_tid tid [] = None"
| "find_tid tid (None # es) = find_tid tid es"
| "find_tid tid (Some (t, q) # es) = (if t = tid then Some q else find_tid tid es)"

definition get_tls :: "tid \<Rightarrow> tstate \<Rightarrow> nat option" where
  "get_tls tid s = find_tid tid (tid_tls_arr s)"

definition check_tid_has_lsa :: "tid \<Rightarrow> tstate \<Rightarrow> bool" where
  "check_tid_has_lsa tid s = (find_tid tid (tid_tls_arr s) \<noteq> None)"

definition pages_for :: "nat \<Rightarrow> nat \<Rightarrow> nat option" where
  "pages_for ps sz =
    (if ps = 0 then None
     else Some (if sz < ps then 1 else if sz mod ps = 0 then sz div ps else sz div ps + 1))"

text \<open>The loop of \<open>create_new_tls\<close>: sharing the pages of another area, or new pages.\<close>

fun share_pages :: "nat list \<Rightarrow> tstate \<Rightarrow> tstate option" where
  "share_pages [] s = Some s"
| "share_pages (p # ps) s = do {
     pg \<leftarrow> pages s p;
     share_pages ps (s\<lparr>pages := (pages s)(p \<mapsto> pg\<lparr>ref_count := ref_count pg + 1\<rparr>)\<rparr>) }"

fun new_pages :: "os \<Rightarrow> nat \<Rightarrow> tstate \<Rightarrow> nat list option \<times> tstate" where
  "new_pages E 0 s = (Some [], s)"
| "new_pages E (Suc n) s =
    (let (p, s) = malloc E s in
     case p of
       None \<Rightarrow> (None, s)
     | Some p \<Rightarrow>
        let (a, s) = mmap E s;
            s = s\<lparr>pages := (pages s)(p \<mapsto> \<lparr>address = a, ref_count = 1\<rparr>)\<rparr>;
            (ps, s) = new_pages E n s
        in (map_option (Cons p) ps, s))"

definition finish_tls :: "os \<Rightarrow> nat \<Rightarrow> TLS \<Rightarrow> tstate \<Rightarrow> int \<times> tstate" where
  "finish_tls E q t s =
    (let s = s\<lparr>tlss := (tlss s)(q \<mapsto> t)\<rparr>;
         (tt, s) = malloc E s
     in if tt = None then (- 1, s) else append_to_arr (tls_tid t, q) s)"

definition create_new_tls :: "os \<Rightarrow> u32 \<Rightarrow> bool \<Rightarrow> tid \<Rightarrow> tid \<Rightarrow> tstate \<Rightarrow> (int \<times> tstate) option" where
  "create_new_tls E sz is_clone clone_tid self s =
    (let (q, s) = malloc E s in
     case q of
       None \<Rightarrow> Some (- 1, s)
     | Some q \<Rightarrow>
        if is_clone
        then (case get_tls clone_tid s of
                None \<Rightarrow> Some (- 1, s)
              | Some c \<Rightarrow> do {
                  t \<leftarrow> tlss s c;
                  let (pp, s) = malloc E s;
                  if pp = None then Some (- 1, s)
                  else do {
                    s \<leftarrow> share_pages (take (num_pages t) (tls_pages t)) s;
                    Some (finish_tls E q \<lparr>tls_tid = self, tls_size = tls_size t, num_pages = num_pages t,
                                          tls_pages = take (num_pages t) (tls_pages t)\<rparr> s) } })
        else do {
          n \<leftarrow> pages_for (page_size s) (unat sz);
          let (pp, s) = malloc E s;
          if pp = None then Some (- 1, s)
          else
            let (ps, s) = new_pages E n s in
            (case ps of
               None \<Rightarrow> Some (- 1, s)
             | Some ps \<Rightarrow> Some (finish_tls E q \<lparr>tls_tid = self, tls_size = sz, num_pages = n, tls_pages = ps\<rparr> s)) })"

text \<open>
  \<open>copy_page\<close> for the page in slot \<open>idx\<close> of the area \<open>q\<close>. The result of \<open>malloc\<close> is not checked; a
  null pointer would be dereferenced. Every early return leaves \<open>mutex_copy\<close> held.
\<close>

definition copy_page :: "os \<Rightarrow> nat \<Rightarrow> nat \<Rightarrow> nat \<Rightarrow> tstate \<Rightarrow> (result \<times> tstate) option" where
  "copy_page E q p idx s =
    (if held s Mutex_copy then Some (Stuck, s) else
     let (b, s) = mutex_lock E Mutex_copy s in
     if \<not> b then Some (Done (- 1), s) else
     let (c, s) = malloc E s in
     case c of
       None \<Rightarrow> None
     | Some c \<Rightarrow>
        let (a, s) = mmap E s;
            s = s\<lparr>pages := (pages s)(c \<mapsto> \<lparr>address = a, ref_count = 1\<rparr>)\<rparr>
        in do {
          (b, s) \<leftarrow> tls_unprotect E p s;
          if \<not> b then Some (Done (- 1), s) else do {
          (b, s) \<leftarrow> tls_unprotect E c s;
          if \<not> b then Some (Done (- 1), s) else do {
          pg \<leftarrow> pages s p;
          bs \<leftarrow> load (address pg) 0 (page_size s) s;
          s \<leftarrow> store a 0 bs s;
          (b, s) \<leftarrow> tls_protect E p s;
          if \<not> b then Some (Done (- 1), s) else do {
          (b, s) \<leftarrow> tls_protect E c s;
          if \<not> b then Some (Done (- 1), s) else do {
          pg \<leftarrow> pages s p;
          let s = s\<lparr>pages := (pages s)(p \<mapsto> pg\<lparr>ref_count := ref_count pg - 1\<rparr>)\<rparr>;
          t \<leftarrow> tlss s q;
          ps \<leftarrow> upd_opt (tls_pages t) idx c;
          let s = s\<lparr>tlss := (tlss s)(q \<mapsto> t\<lparr>tls_pages := ps\<rparr>)\<rparr>;
          let (b, s) = mutex_unlock E Mutex_copy s;
          Some (if b then Done 0 else Done (- 1), s) } } } } })"

section \<open>The interface\<close>

definition tls_create :: "os \<Rightarrow> u32 \<Rightarrow> tid \<Rightarrow> tstate \<Rightarrow> (int \<times> tstate) option" where
  "tls_create E sz self s =
    (if sz = 0 then Some (- 1, s)
     else if check_tid_has_lsa self s then Some (- 1, s)
     else if is_first_time s
     then let (rc, s) = tls_init E (s\<lparr>is_first_time := False\<rparr>) in
          if rc = - 1 then Some (- 1, s) else create_new_tls E sz False 0 self s
     else create_new_tls E sz False 0 self s)"

definition tls_clone :: "os \<Rightarrow> tid \<Rightarrow> tid \<Rightarrow> tstate \<Rightarrow> (int \<times> tstate) option" where
  "tls_clone E tid self s =
    (if check_tid_has_lsa self s then Some (- 1, s)
     else if \<not> check_tid_has_lsa tid s then Some (- 1, s)
     else create_new_tls E 0 True tid self s)"

text \<open>
  \<open>tls_destroy\<close>: the loop over the array has no \<open>break\<close>, so it keeps the last entry of the thread and
  ends with \<open>i = MAX_THREAD_COUNT\<close>, the index that is cleared at the end.
\<close>

fun last_tid :: "tid \<Rightarrow> (tid \<times> nat) option list \<Rightarrow> nat option \<Rightarrow> nat option" where
  "last_tid tid [] tt = tt"
| "last_tid tid (None # es) tt = last_tid tid es tt"
| "last_tid tid (Some (t, q) # es) tt = last_tid tid es (if t = tid then Some q else tt)"

fun release_pages :: "os \<Rightarrow> nat list \<Rightarrow> tstate \<Rightarrow> (bool \<times> tstate) option" where
  "release_pages E [] s = Some (True, s)"
| "release_pages E (p # ps) s = do {
     pg \<leftarrow> pages s p;
     if ref_count pg < 2
     then let (b, s) = munmap E (address pg) s in
          if \<not> b then Some (False, s)
          else release_pages E ps (s\<lparr>pages := (pages s)(p := None)\<rparr>)
     else release_pages E ps (s\<lparr>pages := (pages s)(p \<mapsto> pg\<lparr>ref_count := ref_count pg - 1\<rparr>)\<rparr>) }"

definition tls_destroy :: "os \<Rightarrow> tid \<Rightarrow> tstate \<Rightarrow> (int \<times> tstate) option" where
  "tls_destroy E self s =
    (case last_tid self (tid_tls_arr s) None of
       None \<Rightarrow> Some (- 1, s)
     | Some q \<Rightarrow> do {
         t \<leftarrow> tlss s q;
         (b, s) \<leftarrow> release_pages E (take (num_pages t) (tls_pages t)) s;
         if \<not> b then Some (- 1, s)
         else do {
           let s = s\<lparr>tlss := (tlss s)(q := None)\<rparr>;
           arr \<leftarrow> upd_opt (tid_tls_arr s) MAX_THREAD_COUNT None;
           Some (0, s\<lparr>tid_tls_arr := arr\<rparr>) } })"

text \<open>
  The three places of \<open>tls_read\<close> that unprotect a page, copy \<open>n\<close> bytes from offset \<open>off\<close> of it to
  position \<open>rd\<close> of the buffer, and protect it again.
\<close>

definition read_page ::
  "os \<Rightarrow> nat \<Rightarrow> nat \<Rightarrow> nat \<Rightarrow> nat \<Rightarrow> u8 list \<Rightarrow> tstate \<Rightarrow> (bool \<times> u8 list \<times> tstate) option" where
  "read_page E p off n rd buf s = do {
     (b, s) \<leftarrow> tls_unprotect E p s;
     if \<not> b then Some (False, buf, s) else do {
     pg \<leftarrow> pages s p;
     bs \<leftarrow> load (address pg) off n s;
     buf \<leftarrow> mem_write buf rd bs;
     (b, s) \<leftarrow> tls_protect E p s;
     Some (b, buf, s) } }"

definition read_end :: "os \<Rightarrow> u8 list \<Rightarrow> tstate \<Rightarrow> (result \<times> u8 list \<times> tstate) option" where
  "read_end E buf s = (let (b, s) = mutex_unlock E Mutex_read s in Some (if b then Done 0 else Done (- 1), buf, s))"

function read_loop ::
  "os \<Rightarrow> nat \<Rightarrow> nat list \<Rightarrow> nat \<Rightarrow> nat \<Rightarrow> nat \<Rightarrow> u8 list \<Rightarrow> tstate \<Rightarrow> (result \<times> u8 list \<times> tstate) option" where
  "read_loop E ps pgs i len rd buf s =
    (if rd < len \<and> 0 < ps then do {
       p \<leftarrow> nth_opt pgs i;
       if len - rd > ps then do {
         (b, buf, s) \<leftarrow> read_page E p 0 ps rd buf s;
         if \<not> b then Some (Done (- 1), buf, s) else read_loop E ps pgs (i + 1) len (rd + ps) buf s }
       else do {
         (b, buf, s) \<leftarrow> read_page E p 0 (len - rd) rd buf s;
         if \<not> b then Some (Done (- 1), buf, s) else read_end E buf s } }
     else read_end E buf s)"
  by pat_completeness auto
termination by (relation "measure (\<lambda>(E, ps, pgs, i, len, rd, buf, s). len - rd)") auto

definition tls_read :: "os \<Rightarrow> u32 \<Rightarrow> u32 \<Rightarrow> u8 list \<Rightarrow> tid \<Rightarrow> tstate \<Rightarrow> (result \<times> u8 list \<times> tstate) option" where
  "tls_read E offset len buffer self s =
    (let s = s\<lparr>page_size := getpagesize E\<rparr>; ps = page_size s in
     case get_tls self s of
       None \<Rightarrow> Some (Done (- 1), buffer, s)
     | Some q \<Rightarrow> do {
         t \<leftarrow> tlss s q;
         if offset + len > tls_size t then Some (Done (- 1), buffer, s)
         else if ps = 0 then None
         else do {
           let start_page = unat offset div ps;
           let start_page_offset = unat offset mod ps;
           p \<leftarrow> nth_opt (tls_pages t) start_page;
           if held s Mutex_read then Some (Stuck, buffer, s) else
           let (b, s) = mutex_lock E Mutex_read s in
           if \<not> b then Some (Done (- 1), buffer, s) else
           if unat len > ps - start_page_offset then do {
             (b, buffer, s) \<leftarrow> read_page E p start_page_offset (ps - start_page_offset) 0 buffer s;
             if \<not> b then Some (Done (- 1), buffer, s)
             else read_loop E ps (tls_pages t) (start_page + 1) (unat len) (ps - start_page_offset) buffer s }
           else do {
             (b, buffer, s) \<leftarrow> read_page E p start_page_offset (unat len) 0 buffer s;
             if \<not> b then Some (Done (- 1), buffer, s) else read_end E buffer s } } })"

text \<open>The same for \<open>tls_write\<close>; a page that is shared is copied first and looked up again.\<close>

definition write_mapped ::
  "os \<Rightarrow> nat \<Rightarrow> nat \<Rightarrow> nat \<Rightarrow> u8 list \<Rightarrow> tstate \<Rightarrow> (result \<times> tstate) option" where
  "write_mapped E q i off bs s = do {
     t \<leftarrow> tlss s q;
     p \<leftarrow> nth_opt (tls_pages t) i;
     (b, s) \<leftarrow> tls_unprotect E p s;
     if \<not> b then Some (Done (- 1), s) else do {
     pg \<leftarrow> pages s p;
     s \<leftarrow> store (address pg) off bs s;
     (b, s) \<leftarrow> tls_protect E p s;
     Some (if b then Done 0 else Done (- 1), s) } }"

definition write_page ::
  "os \<Rightarrow> nat \<Rightarrow> nat \<Rightarrow> nat \<Rightarrow> u8 list \<Rightarrow> tstate \<Rightarrow> (result \<times> tstate) option" where
  "write_page E q i off bs s = do {
     t \<leftarrow> tlss s q;
     p \<leftarrow> nth_opt (tls_pages t) i;
     pg \<leftarrow> pages s p;
     if ref_count pg > 1
     then do {
       (r, s) \<leftarrow> copy_page E q p i s;
       if r = Stuck then Some (Stuck, s)
       else if r = Done (- 1) then Some (Done (- 1), s)
       else write_mapped E q i off bs s }
     else write_mapped E q i off bs s }"

definition write_end :: "os \<Rightarrow> tstate \<Rightarrow> (result \<times> tstate) option" where
  "write_end E s = (let (b, s) = mutex_unlock E Mutex_write s in Some (if b then Done 0 else Done (- 1), s))"

function write_loop ::
  "os \<Rightarrow> nat \<Rightarrow> nat \<Rightarrow> nat \<Rightarrow> nat \<Rightarrow> nat \<Rightarrow> u8 list \<Rightarrow> tstate \<Rightarrow> (result \<times> tstate) option" where
  "write_loop E ps q i len written buf s =
    (if written < len \<and> 0 < ps then
       if len - written > ps then do {
         bs \<leftarrow> mem_read buf written ps;
         (r, s) \<leftarrow> write_page E q i 0 bs s;
         if r \<noteq> Done 0 then Some (r, s) else write_loop E ps q (i + 1) len (written + ps) buf s }
       else do {
         bs \<leftarrow> mem_read buf written (len - written);
         (r, s) \<leftarrow> write_page E q i 0 bs s;
         if r \<noteq> Done 0 then Some (r, s) else write_end E s }
     else write_end E s)"
  by pat_completeness auto
termination by (relation "measure (\<lambda>(E, ps, q, i, len, written, buf, s). len - written)") auto

definition tls_write :: "os \<Rightarrow> u32 \<Rightarrow> u32 \<Rightarrow> u8 list \<Rightarrow> tid \<Rightarrow> tstate \<Rightarrow> (result \<times> tstate) option" where
  "tls_write E offset len buffer self s =
    (let ps = page_size s in
     case get_tls self s of
       None \<Rightarrow> Some (Done (- 1), s)
     | Some q \<Rightarrow> do {
         t \<leftarrow> tlss s q;
         if offset + len > tls_size t then Some (Done (- 1), s)
         else if ps = 0 then None
         else do {
           let start_page = unat offset div ps;
           let start_page_offset = unat offset mod ps;
           p \<leftarrow> nth_opt (tls_pages t) start_page;
           if held s Mutex_write then Some (Stuck, s) else
           let (b, s) = mutex_lock E Mutex_write s in
           if \<not> b then Some (Done (- 1), s) else
           if unat len > ps - start_page_offset then do {
             bs \<leftarrow> mem_read buffer 0 (ps - start_page_offset);
             (r, s) \<leftarrow> write_page E q start_page start_page_offset bs s;
             if r \<noteq> Done 0 then Some (r, s)
             else write_loop E ps q (start_page + 1) (unat len) (ps - start_page_offset) buffer s }
           else do {
             bs \<leftarrow> mem_read buffer 0 (unat len);
             (r, s) \<leftarrow> write_page E q start_page start_page_offset bs s;
             if r \<noteq> Done 0 then Some (r, s) else write_end E s } } })"

end
