(* ===== verification/Tls_Spec.thy ===== *)
theory Tls_Spec
  imports Tls
begin

text \<open>
  The abstraction of thread local storage: \<open>lsa s tid\<close> is the byte string thread \<open>tid\<close> sees as its
  area, if it has one. The invariant \<open>tls_inv\<close> says that the array, the areas, the pages and the
  mappings fit together, that every page at rest is protected, that the reference count of a page is
  at least the number of areas that use it, and that no mutex is held between calls.
\<close>

definition entries :: "tstate \<Rightarrow> (tid \<times> nat) list" where
  "entries s = map the (filter (\<lambda>e. e \<noteq> None) (tid_tls_arr s))"

definition pages_of :: "tstate \<Rightarrow> nat \<Rightarrow> nat list" where
  "pages_of s q = (case tlss s q of None \<Rightarrow> [] | Some t \<Rightarrow> tls_pages t)"

definition page_data :: "tstate \<Rightarrow> nat \<Rightarrow> u8 list" where
  "page_data s p = (case pages s p of None \<Rightarrow> [] | Some pg \<Rightarrow>
     (case maps s (address pg) of None \<Rightarrow> [] | Some m \<Rightarrow> mp_data m))"

definition datas :: "tstate \<Rightarrow> nat \<Rightarrow> u8 list list" where
  "datas s q = map (page_data s) (pages_of s q)"

definition area :: "tstate \<Rightarrow> nat \<Rightarrow> u8 list" where
  "area s q = (case tlss s q of None \<Rightarrow> [] | Some t \<Rightarrow> take (unat (tls_size t)) (concat (datas s q)))"

definition lsa :: "tstate \<Rightarrow> tid \<rightharpoonup> u8 list" where
  "lsa s tid = map_option (area s) (get_tls tid s)"

definition live :: "tstate \<Rightarrow> nat set" where
  "live s = snd ` set (entries s)"

definition users :: "tstate \<Rightarrow> nat \<Rightarrow> nat set" where
  "users s p = {q \<in> live s. p \<in> set (pages_of s q)}"

section \<open>The invariant\<close>

text \<open>An operating system in which every call succeeds and \<open>mmap\<close> never gives an address twice.\<close>

definition good_os :: "os \<Rightarrow> bool" where
  "good_os E \<longleftrightarrow> 0 < getpagesize E \<and> (\<forall>n. call_ok E n) \<and> inj (mmap_addr E)"

definition page_ok :: "tstate \<Rightarrow> nat \<Rightarrow> bool" where
  "page_ok s p \<longleftrightarrow> (\<exists>pg m. pages s p = Some pg \<and> maps s (address pg) = Some m \<and>
     length (mp_data m) = page_size s \<and> \<not> mp_open m)"

definition tls_wf :: "tstate \<Rightarrow> TLS \<Rightarrow> bool" where
  "tls_wf s t \<longleftrightarrow> num_pages t = length (tls_pages t) \<and> distinct (tls_pages t) \<and>
     unat (tls_size t) \<le> length (tls_pages t) * page_size s \<and> (\<forall>p \<in> set (tls_pages t). page_ok s p)"

definition arr_ok :: "tstate \<Rightarrow> bool" where
  "arr_ok s \<longleftrightarrow> length (tid_tls_arr s) = MAX_THREAD_COUNT \<and>
     distinct (map fst (entries s)) \<and> distinct (map snd (entries s)) \<and>
     (\<forall>(tid, q) \<in> set (entries s). \<exists>t. tlss s q = Some t \<and> tls_wf s t)"

definition heap_ok :: "os \<Rightarrow> tstate \<Rightarrow> bool" where
  "heap_ok E s \<longleftrightarrow>
     (\<forall>p p' pg pg'. pages s p = Some pg \<longrightarrow> pages s p' = Some pg' \<longrightarrow> address pg = address pg' \<longrightarrow> p = p') \<and>
     (\<forall>p pg. pages s p = Some pg \<longrightarrow> p < clock s \<and> (\<exists>n < clock s. address pg = mmap_addr E n)) \<and>
     (\<forall>q t. tlss s q = Some t \<longrightarrow> q < clock s \<and> (\<forall>p \<in> set (tls_pages t). p < clock s)) \<and>
     (\<forall>p pg. pages s p = Some pg \<longrightarrow> int (card (users s p)) \<le> ref_count pg)"

definition tls_inv :: "os \<Rightarrow> tstate \<Rightarrow> bool" where
  "tls_inv E s \<longleftrightarrow> arr_ok s \<and> heap_ok E s \<and> (\<forall>m. \<not> held s m) \<and>
     (if is_first_time s then entries s = [] else page_size s = getpagesize E)"

section \<open>The array\<close>

lemma find_tid_map_of: "find_tid tid es = map_of (map the (filter (\<lambda>e. e \<noteq> None) es)) tid"
  by (induction tid es rule: find_tid.induct) auto

lemma get_tls_entries: "get_tls tid s = map_of (entries s) tid"
  by (simp add: get_tls_def find_tid_map_of entries_def)

lemma get_tls_in: "get_tls tid s = Some q \<Longrightarrow> (tid, q) \<in> set (entries s)"
  by (simp add: get_tls_entries map_of_SomeD)

lemma first_free_None: "first_free es = None \<longleftrightarrow> None \<notin> set es"
  by (induction es rule: first_free.induct) auto

lemma first_free_Some:
  "first_free es = Some i \<Longrightarrow>
    \<exists>us vs. map the (filter (\<lambda>e. e \<noteq> None) es) = us @ vs \<and>
       map the (filter (\<lambda>e. e \<noteq> None) (es[i := Some x])) = us @ x # vs"
proof (induction es arbitrary: i rule: first_free.induct)
  case (3 e es)
  then obtain j where j: "first_free es = Some j" "i = Suc j" by auto
  from 3(1) [OF j(1)] obtain us vs where "map the (filter (\<lambda>e. e \<noteq> None) es) = us @ vs"
    "map the (filter (\<lambda>e. e \<noteq> None) (es[j := Some x])) = us @ x # vs" by blast
  then show ?case using j(2) by (intro exI [of _ "e # us"] exI [of _ vs]) simp
next
  case (2 es)
  then show ?case by (intro exI [of _ "[]"] exI [of _ "map the (filter (\<lambda>e. e \<noteq> None) es)"]) simp
qed simp

lemma arr_okD:
  assumes "arr_ok s" and "get_tls tid s = Some q"
  shows "\<exists>t. tlss s q = Some t \<and> tls_wf s t"
  using assms get_tls_in by (fastforce simp: arr_ok_def)

lemma get_tls_live: "get_tls tid s = Some q \<Longrightarrow> q \<in> live s"
  using get_tls_in [of tid s q] by (force simp: live_def)

lemma live_unique:
  assumes "arr_ok s" and "get_tls t s = Some q" and "get_tls t' s = Some q"
  shows "t = t'"
proof -
  have "inj_on snd (set (entries s))" using assms(1) by (simp add: arr_ok_def distinct_map)
  from inj_onD [OF this _ get_tls_in [OF assms(2)] get_tls_in [OF assms(3)]] show ?thesis by simp
qed

lemma liveD: "arr_ok s \<Longrightarrow> q \<in> live s \<Longrightarrow> \<exists>t. tlss s q = Some t \<and> tls_wf s t"
  by (auto simp: arr_ok_def live_def)

lemma finite_users [simp]: "finite (users s p)"
  by (simp add: users_def live_def)

text \<open>A page whose count is at most one belongs to at most one area.\<close>

lemma unshared:
  assumes "heap_ok E s" and "pages s p = Some pg" and "ref_count pg \<le> 1"
    and "q \<in> live s" "p \<in> set (pages_of s q)" and "q' \<in> live s" "p \<in> set (pages_of s q')"
  shows "q = q'"
proof -
  have "card (users s p) \<le> 1" using assms(1-3) by (fastforce simp: heap_ok_def)
  moreover have "q \<in> users s p" "q' \<in> users s p" using assms(4-7) by (auto simp: users_def)
  ultimately show ?thesis using card_le_Suc0_iff_eq [of "users s p"] by simp
qed

end
