(* ===== verification/Tls_Cow.thy ===== *)
theory Tls_Cow
  imports Tls_Spec
begin

text \<open>
  Copy on write: what one page write does. A page of one area is written in place; a page shared by
  several areas is first replaced, in the writing area only, by a private copy. Either way the page
  strings of every other area stay as they are.
\<close>

definition core :: "os \<Rightarrow> tstate \<Rightarrow> bool" where
  "core E s \<longleftrightarrow> arr_ok s \<and> heap_ok E s"

lemma coreD: "core E s \<Longrightarrow> arr_ok s" "core E s \<Longrightarrow> heap_ok E s"
  by (simp_all add: core_def)

lemma entries_cong: "tid_tls_arr s' = tid_tls_arr s \<Longrightarrow> entries s' = entries s"
  by (simp add: entries_def)

lemma live_cong: "tid_tls_arr s' = tid_tls_arr s \<Longrightarrow> live s' = live s"
  by (simp add: live_def entries_def)

lemma get_tls_cong: "tid_tls_arr s' = tid_tls_arr s \<Longrightarrow> get_tls tid s' = get_tls tid s"
  by (simp add: get_tls_def)

lemma heap_okD:
  assumes "heap_ok E s"
  shows "pages s p = Some pg \<Longrightarrow> pages s p' = Some pg' \<Longrightarrow> address pg = address pg' \<Longrightarrow> p = p'"
    and "pages s p = Some pg \<Longrightarrow> p < clock s"
    and "pages s p = Some pg \<Longrightarrow> \<exists>n < clock s. address pg = mmap_addr E n"
    and "tlss s q = Some t \<Longrightarrow> q < clock s"
    and "tlss s q = Some t \<Longrightarrow> p \<in> set (tls_pages t) \<Longrightarrow> p < clock s"
    and "pages s p = Some pg \<Longrightarrow> int (card (users s p)) \<le> ref_count pg"
  using assms unfolding heap_ok_def by blast+

lemma heap_okI:
  assumes "\<And>p p' pg pg'. pages s p = Some pg \<Longrightarrow> pages s p' = Some pg' \<Longrightarrow> address pg = address pg' \<Longrightarrow> p = p'"
    and "\<And>p pg. pages s p = Some pg \<Longrightarrow> p < clock s"
    and "\<And>p pg. pages s p = Some pg \<Longrightarrow> \<exists>n < clock s. address pg = mmap_addr E n"
    and "\<And>q t. tlss s q = Some t \<Longrightarrow> q < clock s"
    and "\<And>q t p. tlss s q = Some t \<Longrightarrow> p \<in> set (tls_pages t) \<Longrightarrow> p < clock s"
    and "\<And>p pg. pages s p = Some pg \<Longrightarrow> int (card (users s p)) \<le> ref_count pg"
  shows "heap_ok E s"
  using assms unfolding heap_ok_def by blast

lemma arr_okI:
  assumes "arr_ok s" "tid_tls_arr s' = tid_tls_arr s"
    and "\<And>q t. q \<in> live s \<Longrightarrow> tlss s q = Some t \<Longrightarrow> tls_wf s t \<Longrightarrow> \<exists>t'. tlss s' q = Some t' \<and> tls_wf s' t'"
  shows "arr_ok s'"
proof -
  have "\<exists>t. tlss s' q = Some t \<and> tls_wf s' t" if "(tid, q) \<in> set (entries s)" for tid q
  proof -
    have "q \<in> live s" using that by (force simp: live_def)
    then show ?thesis using liveD [OF assms(1)] assms(3) by blast
  qed
  then show ?thesis using assms(1) unfolding arr_ok_def entries_cong [OF assms(2)] assms(2) by blast
qed

lemma fresh_addr:
  assumes "good_os E" "heap_ok E s" "pages s p = Some pg" "clock s \<le> n"
  shows "address pg \<noteq> mmap_addr E n"
proof -
  from heap_okD(3) [OF assms(2,3)] obtain k where k: "k < clock s" "address pg = mmap_addr E k" by blast
  then show ?thesis using assms(1,4) injD [of "mmap_addr E" k n] by (auto simp: good_os_def)
qed

text \<open>The pages of a live area.\<close>

lemma live_page:
  assumes "core E s" "q \<in> live s" "tlss s q = Some t" "i < length (tls_pages t)"
  obtains pg m where "pages s (tls_pages t ! i) = Some pg" "maps s (address pg) = Some m"
    "length (mp_data m) = page_size s" "\<not> mp_open m"
proof -
  from liveD [OF coreD(1) [OF assms(1)] assms(2)] assms(3) have "tls_wf s t" by simp
  then have "page_ok s (tls_pages t ! i)" using assms(4) by (simp add: tls_wf_def)
  then show thesis using that by (auto simp: page_ok_def)
qed

text \<open>Two states with the same bookkeeping, in which every page is still well formed.\<close>

lemma core_frame:
  assumes "core E s" and eq: "tid_tls_arr s' = tid_tls_arr s" "tlss s' = tlss s" "pages s' = pages s"
    "page_size s' = page_size s" and "clock s \<le> clock s'"
    and pg: "\<And>p. page_ok s p \<Longrightarrow> page_ok s' p"
  shows "core E s'"
proof -
  have wf: "tls_wf s t \<Longrightarrow> tls_wf s' t" for t using pg eq(4) by (simp add: tls_wf_def)
  have "users s' = users s"
    by (rule ext) (simp add: users_def pages_of_def live_cong [OF eq(1)] eq(2))
  note u = this and h = heap_okD [OF coreD(2) [OF assms(1)]]
  have "heap_ok E s'"
  proof (rule heap_okI; unfold eq(2,3) u)
    show "\<exists>n < clock s'. address pg = mmap_addr E n" if "pages s p = Some pg" for p pg
      using h(3) [OF that] assms(6) order.strict_trans2 by blast
  qed (use h assms(6) in \<open>blast intro: order.strict_trans2\<close>)+
  moreover have "arr_ok s'"
    by (rule arr_okI [OF coreD(1) [OF assms(1)] eq(1)]) (use wf eq(2) in simp)
  ultimately show ?thesis by (simp add: core_def)
qed

lemma live_page_at:
  assumes "core E s" "q \<in> live s" "tlss s q = Some t" "i < length (tls_pages t)"
    and "pages s (tls_pages t ! i) = Some pg" "maps s (address pg) = Some m"
  shows "length (mp_data m) = page_size s" "\<not> mp_open m"
  by (rule live_page [OF assms(1-4)]; use assms(5,6) in simp)+

section \<open>Writing a page in place\<close>

lemma page_data_upd:
  assumes "heap_ok E s" "pages s p = Some pg" "pages s' = pages s"
    and "maps s' = (maps s)(address pg \<mapsto> m)"
  shows "page_data s' p' = (if p' = p then mp_data m else page_data s p')"
proof (cases "pages s p'")
  case (Some pg')
  then show ?thesis using heap_okD(1) [OF assms(1,2), of p' pg'] assms by (auto simp: page_data_def)
qed (use assms in \<open>auto simp: page_data_def\<close>)

lemma write_in_place:
  assumes c: "core E s" and q: "q \<in> live s" "tlss s q = Some t" "i < length (tls_pages t)"
    and p: "p = tls_pages t ! i" "pages s p = Some pg" "ref_count pg \<le> 1" "maps s (address pg) = Some m"
    and bs: "off + length bs \<le> page_size s"
    and eq: "tid_tls_arr s' = tid_tls_arr s" "tlss s' = tlss s" "pages s' = pages s"
      "page_size s' = page_size s" "clock s \<le> clock s'"
    and mp: "maps s' = (maps s)(address pg \<mapsto> m\<lparr>mp_data := overlay off bs (mp_data m)\<rparr>)"
  shows "core E s'" and "datas s' q = (datas s q)[i := overlay off bs (datas s q ! i)]"
    and "q' \<in> live s \<Longrightarrow> q' \<noteq> q \<Longrightarrow> datas s' q' = datas s q'"
proof -
  have m: "length (mp_data m) = page_size s" "\<not> mp_open m"
    using live_page_at [OF c q] p(1,2,4) by simp_all
  note pd = page_data_upd [OF coreD(2) [OF c] p(2) eq(3) mp]
  show "core E s'"
    by (rule core_frame [OF c eq]) (use m bs p(4) in \<open>auto simp: page_ok_def mp eq\<close>)
  have t: "distinct (tls_pages t)" using liveD [OF coreD(1) [OF c] q(1)] q(2) by (simp add: tls_wf_def)
  have po: "pages_of s' = pages_of s" by (rule ext) (simp add: pages_of_def eq(2))
  have "page_data s p = mp_data m" using p by (simp add: page_data_def)
  moreover have "j < length (tls_pages t) \<Longrightarrow> tls_pages t ! j = p \<longleftrightarrow> j = i" for j
    using t q(3) p(1) by (simp add: nth_eq_iff_index_eq)
  ultimately show "datas s' q = (datas s q)[i := overlay off bs (datas s q ! i)]"
    using q p(1) by (intro nth_equalityI) (auto simp: datas_def po pages_of_def pd nth_list_update)
  show "datas s' q' = datas s q'" if q': "q' \<in> live s" "q' \<noteq> q"
  proof -
    have "p \<notin> set (pages_of s q')"
      using unshared [OF coreD(2) [OF c] p(2,3) q(1) _ q'(1)] q q'(2) p(1) by (auto simp: pages_of_def)
    then show ?thesis by (auto simp: datas_def po pd)
  qed
qed

section \<open>Copying a page\<close>

text \<open>
  The state \<open>s'\<close> after slot \<open>i\<close> of area \<open>q\<close>, which held page \<open>p\<close>, has got the new page \<open>n\<close> whose mapping,
  at the address of call \<open>a\<close>, equals that of \<open>p\<close>.
\<close>

definition page_copied ::
  "os \<Rightarrow> tstate \<Rightarrow> nat \<Rightarrow> TLS \<Rightarrow> nat \<Rightarrow> nat \<Rightarrow> nat \<Rightarrow> nat \<Rightarrow> page \<Rightarrow> mapping \<Rightarrow> tstate \<Rightarrow> bool" where
  "page_copied E s q t i n a p pg m s' \<longleftrightarrow>
     q \<in> live s \<and> tlss s q = Some t \<and> i < length (tls_pages t) \<and> p = tls_pages t ! i \<and>
     pages s p = Some pg \<and> maps s (address pg) = Some m \<and>
     clock s \<le> n \<and> n < clock s' \<and> clock s \<le> a \<and> a < clock s' \<and>
     tid_tls_arr s' = tid_tls_arr s \<and> page_size s' = page_size s \<and>
     tlss s' = (tlss s)(q \<mapsto> t\<lparr>tls_pages := (tls_pages t)[i := n]\<rparr>) \<and>
     pages s' = (pages s)(n \<mapsto> \<lparr>address = mmap_addr E a, ref_count = 1\<rparr>,
                          p \<mapsto> pg\<lparr>ref_count := ref_count pg - 1\<rparr>) \<and>
     maps s' = (maps s)(mmap_addr E a \<mapsto> m)"

lemma page_copiedD:
  assumes "page_copied E s q t i n a p pg m s'"
  shows "q \<in> live s" "tlss s q = Some t" "i < length (tls_pages t)" "p = tls_pages t ! i"
    "pages s p = Some pg" "maps s (address pg) = Some m"
    "clock s \<le> n" "n < clock s'" "clock s \<le> a" "a < clock s'"
    "tid_tls_arr s' = tid_tls_arr s" "page_size s' = page_size s"
    "tlss s' = (tlss s)(q \<mapsto> t\<lparr>tls_pages := (tls_pages t)[i := n]\<rparr>)"
    "pages s' = (pages s)(n \<mapsto> \<lparr>address = mmap_addr E a, ref_count = 1\<rparr>, p \<mapsto> pg\<lparr>ref_count := ref_count pg - 1\<rparr>)"
    "maps s' = (maps s)(mmap_addr E a \<mapsto> m)"
  using assms unfolding page_copied_def by blast+

lemma copy_new:
  assumes "core E s" "page_copied E s q t i n a p pg m s'"
  shows "n \<noteq> p" and "q' \<in> live s \<Longrightarrow> r \<in> set (pages_of s q') \<Longrightarrow> r \<noteq> n"
proof -
  note h = heap_okD [OF coreD(2) [OF assms(1)]]
  show "n \<noteq> p" using h(2) page_copiedD(5,7) [OF assms(2)] by fastforce
  show "r \<noteq> n" if "r \<in> set (pages_of s q')"
    using that h(5) [of q' _ r] page_copiedD(7) [OF assms(2)] by (cases "tlss s q'") (auto simp: pages_of_def)
qed

lemma copy_pages_of:
  assumes "page_copied E s q t i n a p pg m s'"
  shows "pages_of s' q' = (if q' = q then (tls_pages t)[i := n] else pages_of s q')"
  by (simp add: pages_of_def page_copiedD [OF assms])

lemma copy_address:
  assumes "core E s" "page_copied E s q t i n a p pg m s'" "pages s' r = Some rg"
  shows "r = n \<and> address rg = mmap_addr E a \<or> r \<noteq> n \<and> (\<exists>rg'. pages s r = Some rg' \<and> address rg = address rg')"
  using assms(3) page_copiedD(5) [OF assms(2)] copy_new(1) [OF assms(1,2)]
  by (auto simp: page_copiedD(14) [OF assms(2)] split: if_splits)

lemma copy_datas:
  assumes E: "good_os E" and c: "core E s" and cp: "page_copied E s q t i n a p pg m s'"
    and q': "q' \<in> live s"
  shows "datas s' q' = datas s q'"
proof -
  note f = page_copiedD [OF cp] and new = copy_new [OF c cp]
  have pd: "page_data s' r = page_data s r" if "r \<noteq> n" for r
    using that fresh_addr [OF E coreD(2) [OF c] _ f(9), of r] f(5)
    by (auto simp: page_data_def f(14,15) split: option.splits)
  have pdn: "page_data s' n = page_data s p" using new(1) f(5,6) by (simp add: page_data_def f(14,15))
  have pi: "pages_of s q = tls_pages t" by (simp add: pages_of_def f(2))
  show ?thesis
  proof (cases "q' = q")
    case True
    then show ?thesis using f(3,4) pi new(2) [OF f(1)] pd pdn
      by (intro nth_equalityI) (auto simp: datas_def copy_pages_of [OF cp] nth_list_update)
  next
    case False
    then show ?thesis using new(2) [OF q'] pd by (auto simp: datas_def copy_pages_of [OF cp])
  qed
qed

lemma copy_users:
  assumes c: "core E s" and cp: "page_copied E s q t i n a p pg m s'"
  shows "users s' r = (if r = n then {q} else if r = p then users s p - {q} else users s r)"
proof -
  note f = page_copiedD [OF cp] and new = copy_new [OF c cp]
  have "distinct (tls_pages t)" using liveD [OF coreD(1) [OF c] f(1)] f(2) by (simp add: tls_wf_def)
  then have "set ((tls_pages t)[i := n]) = insert n (set (tls_pages t) - {p})"
    using f(3,4) by (simp add: set_update_distinct)
  moreover have "pages_of s q = tls_pages t" by (simp add: pages_of_def f(2))
  ultimately show ?thesis using new f(1) live_cong [OF f(11)]
    by (auto simp: users_def copy_pages_of [OF cp])
qed

lemma copy_heap:
  assumes E: "good_os E" and c: "core E s" and cp: "page_copied E s q t i n a p pg m s'"
  shows "heap_ok E s'"
proof (rule heap_okI)
  note f = page_copiedD [OF cp] and h = heap_okD [OF coreD(2) [OF c]] and ad = copy_address [OF c cp]
  show "r = r'" if "pages s' r = Some rg" "pages s' r' = Some rg'" "address rg = address rg'" for r r' rg rg'
    using ad [OF that(1)] ad [OF that(2)] that(3) fresh_addr [OF E coreD(2) [OF c] _ f(9)] h(1) by metis
  show "r < clock s'" if "pages s' r = Some rg" for r rg
    using ad [OF that] h(2) [of r] f(7,8) by auto
  show "\<exists>n < clock s'. address rg = mmap_addr E n" if "pages s' r = Some rg" for r rg
    using ad [OF that] h(3) [of r] f(9,10) by (metis order.strict_trans order.strict_trans2)
  show "q' < clock s'" if "tlss s' q' = Some t'" for q' t'
    using that h(4) [of q'] f(2,7,8) by (auto simp: f(13) split: if_splits)
  show "r < clock s'" if r: "tlss s' q' = Some t'" "r \<in> set (tls_pages t')" for q' t' r
  proof (cases "r = n")
    case False
    then obtain q'' t'' where "tlss s q'' = Some t''" "r \<in> set (tls_pages t'')"
      using r f(2) set_update_subset_insert [of "tls_pages t" i n] by (auto simp: f(13) split: if_splits)
    from h(5) [OF this] show ?thesis using f(7,8) by simp
  qed (use f(8) in simp)
  show "int (card (users s' r)) \<le> ref_count rg" if "pages s' r = Some rg" for r rg
  proof -
    have "q \<in> users s p" using f(1-4) by (auto simp: users_def pages_of_def)
    then have "int (card (users s p - {q})) = int (card (users s p)) - 1"
      using card_Suc_Diff1 [of "users s p" q] by simp
    then show ?thesis using that h(6) [of r] h(6) [OF f(5)] copy_new(1) [OF c cp]
      by (auto simp: copy_users [OF c cp] f(14) split: if_splits)
  qed
qed

lemma copy_arr:
  assumes E: "good_os E" and c: "core E s" and cp: "page_copied E s q t i n a p pg m s'"
  shows "arr_ok s'"
proof -
  note f = page_copiedD [OF cp] and new = copy_new [OF c cp]
  have m: "length (mp_data m) = page_size s" "\<not> mp_open m"
    using live_page_at [OF c f(1-3)] f(4-6) by simp_all
  have ok: "page_ok s' r" if "page_ok s r" "r \<noteq> n" for r
    using that fresh_addr [OF E coreD(2) [OF c] _ f(9), of r] f(5,6) m
    by (auto simp: page_ok_def f(12,14,15))
  have okn: "page_ok s' n" using m new(1) by (simp add: page_ok_def f(12,14,15))
  have wf: "tls_wf s' t'" if "q' \<in> live s" "tlss s q' = Some t'" "tls_wf s t'" for q' t'
    using that new(2) [OF that(1)] ok by (simp add: tls_wf_def pages_of_def f(12))
  have n: "n \<notin> set (tls_pages t)" using new(2) [OF f(1), of n] f(2) by (auto simp: pages_of_def)
  have "tls_wf s' (t\<lparr>tls_pages := (tls_pages t)[i := n]\<rparr>)"
    using wf [OF f(1,2)] liveD [OF coreD(1) [OF c] f(1)] f(2) n okn
      set_update_subset_insert [of "tls_pages t" i n]
    by (auto simp: tls_wf_def distinct_list_update)
  then show ?thesis using wf
    by (intro arr_okI [OF coreD(1) [OF c] f(11)]) (auto simp: f(13))
qed

lemma copy_core:
  assumes "good_os E" "core E s" "page_copied E s q t i n a p pg m s'"
  shows "core E s'"
  using copy_heap [OF assms] copy_arr [OF assms] by (simp add: core_def)

end
