(* ===== verification/Tls_Write.thy ===== *)
theory Tls_Write
  imports Tls_Cow
begin

text \<open>\<open>tls_write\<close> and \<open>tls_read\<close> on the level of pages and of areas, with an operating system that never fails.\<close>

section \<open>Calls that succeed\<close>

lemma sys_ok: "good_os E \<Longrightarrow> sys E s = (True, s\<lparr>clock := clock s + 1\<rparr>)"
  by (simp add: sys_def good_os_def)

lemma malloc_ok: "good_os E \<Longrightarrow> malloc E s = (Some (clock s), s\<lparr>clock := clock s + 1\<rparr>)"
  by (simp add: malloc_def good_os_def)

lemma mmap_ok: "good_os E \<Longrightarrow> mmap E s = (mmap_addr E (clock s),
    s\<lparr>maps := (maps s)(mmap_addr E (clock s) \<mapsto> \<lparr>mp_data = replicate (page_size s) 0, mp_open = False\<rparr>),
      clock := clock s + 1\<rparr>)"
  by (simp add: mmap_def good_os_def)

lemma mprotect_ok: "good_os E \<Longrightarrow> maps s a = Some m \<Longrightarrow>
    mprotect E a b s = (True, s\<lparr>maps := (maps s)(a \<mapsto> m\<lparr>mp_open := b\<rparr>), clock := clock s + 1\<rparr>)"
  by (simp add: mprotect_def good_os_def)

lemmas calls_ok = sys_ok malloc_ok mmap_ok mprotect_ok

lemma copy_page_ok:
  assumes E: "good_os E" and c: "core E s" and q: "q \<in> live s" "tlss s q = Some t" "i < length (tls_pages t)"
    and p: "p = tls_pages t ! i" "pages s p = Some pg" "maps s (address pg) = Some m"
    and h: "\<not> held s Mutex_copy"
  obtains s' where "copy_page E q p i s = Some (Done 0, s')"
    "page_copied E s q t i (clock s + 1) (clock s + 2) p pg m s'"
    "held s' = held s" "is_first_time s' = is_first_time s"
proof -
  have m: "length (mp_data m) = page_size s" "\<not> mp_open m" using live_page_at [OF c q] p by simp_all
  have a: "address pg \<noteq> mmap_addr E (clock s + 2)" by (rule fresh_addr [OF E coreD(2) [OF c] p(2)]) simp
  have np: "p \<noteq> clock s + 1" using heap_okD(2) [OF coreD(2) [OF c] p(2)] by simp
  have mm: "m\<lparr>mp_open := False\<rparr> = m"
    "\<lparr>mp_data = overlay 0 (mp_data m) (replicate (page_size s) 0), mp_open = False\<rparr> = m"
    using m by (cases m; simp add: overlay_def)+
  have upd: "(maps s)(address pg \<mapsto> m) = maps s" "(held s)(Mutex_copy := False) = held s"
    using p(3) h by (auto simp: fun_upd_idem_iff)
  have "\<exists>s'. copy_page E q p i s = Some (Done 0, s') \<and>
      page_copied E s q t i (clock s + 1) (clock s + 2) p pg m s' \<and>
      held s' = held s \<and> is_first_time s' = is_first_time s"
    using h np p q m a E
    by (simp add: copy_page_def mutex_lock_def mutex_unlock_def calls_ok tls_unprotect_def tls_protect_def
        load_def store_def mem_read_def mem_write_def upd_opt_def Let_def page_copied_def mm upd)
  then show thesis using that by blast
qed

section \<open>Writing one page\<close>

text \<open>
  One page of an area is written: the page string in slot \<open>i\<close> of the area changes, those of all other
  areas, and the sizes, stay.
\<close>

definition sizes :: "tstate \<Rightarrow> nat \<Rightarrow> (u32 \<times> nat) option" where
  "sizes s q = map_option (\<lambda>t. (tls_size t, length (tls_pages t))) (tlss s q)"

definition same_frame :: "tstate \<Rightarrow> tstate \<Rightarrow> nat \<Rightarrow> bool" where
  "same_frame s s' q \<longleftrightarrow> tid_tls_arr s' = tid_tls_arr s \<and> page_size s' = page_size s \<and>
     is_first_time s' = is_first_time s \<and> sizes s' = sizes s \<and>
     (\<forall>q' \<in> live s. q' \<noteq> q \<longrightarrow> datas s' q' = datas s q')"

lemma same_frame_trans: "same_frame s s' q \<Longrightarrow> same_frame s' s'' q \<Longrightarrow> same_frame s s'' q"
  by (auto simp: same_frame_def live_def entries_def)

lemma write_mapped_ok:
  assumes E: "good_os E" and c: "core E s" and q: "q \<in> live s" "tlss s q = Some t" "i < length (tls_pages t)"
    and p: "p = tls_pages t ! i" "pages s p = Some pg" "ref_count pg \<le> 1"
    and bs: "off + length bs \<le> page_size s"
  obtains s' where "write_mapped E q i off bs s = Some (Done 0, s')" "core E s'" "same_frame s s' q" "held s' = held s"
    "datas s' q = (datas s q)[i := overlay off bs (datas s q ! i)]"
proof -
  from live_page [OF c q] p obtain m where mp: "maps s (address pg) = Some m"
    and m: "length (mp_data m) = page_size s" "\<not> mp_open m" by auto
  have mm: "m\<lparr>mp_data := d, mp_open := False\<rparr> = m\<lparr>mp_data := d\<rparr>" for d using m(2) by (cases m) simp
  have "\<exists>s'. write_mapped E q i off bs s = Some (Done 0, s') \<and>
     tid_tls_arr s' = tid_tls_arr s \<and> tlss s' = tlss s \<and> pages s' = pages s \<and> page_size s' = page_size s \<and>
     clock s \<le> clock s' \<and> maps s' = (maps s)(address pg \<mapsto> m\<lparr>mp_data := overlay off bs (mp_data m)\<rparr>) \<and>
     held s' = held s \<and> is_first_time s' = is_first_time s"
    using E q p mp m bs
    by (simp add: write_mapped_def tls_unprotect_def tls_protect_def calls_ok store_def mem_write_def nth_opt_def mm)
  then obtain s' where w: "write_mapped E q i off bs s = Some (Done 0, s')"
    and f: "tid_tls_arr s' = tid_tls_arr s" "tlss s' = tlss s" "pages s' = pages s" "page_size s' = page_size s"
      "clock s \<le> clock s'" "maps s' = (maps s)(address pg \<mapsto> m\<lparr>mp_data := overlay off bs (mp_data m)\<rparr>)"
      "held s' = held s" "is_first_time s' = is_first_time s" by blast
  note wp = write_in_place [OF c q p mp bs f(1-6)]
  have "same_frame s s' q" using wp(3) f by (simp add: same_frame_def sizes_def fun_eq_iff)
  then show thesis by (rule that [OF w wp(1) _ f(7) wp(2)])
qed

lemma write_page_ok:
  assumes E: "good_os E" and c: "core E s" and q: "q \<in> live s" "i < length (datas s q)"
    and bs: "off + length bs \<le> page_size s" and h: "\<not> held s Mutex_copy"
  obtains s' where "write_page E q i off bs s = Some (Done 0, s')" "core E s'" "same_frame s s' q" "held s' = held s"
    "datas s' q = (datas s q)[i := overlay off bs (datas s q ! i)]"
proof -
  from liveD [OF coreD(1) [OF c] q(1)] obtain t where t: "tlss s q = Some t" by blast
  with q(2) have i: "i < length (tls_pages t)" by (simp add: datas_def pages_of_def)
  from live_page [OF c q(1) t i] obtain pg m where pg: "pages s (tls_pages t ! i) = Some pg"
    and m: "maps s (address pg) = Some m" by blast
  show thesis
  proof (cases "ref_count pg > 1")
    case False
    then have "ref_count pg \<le> 1" by simp
    from write_mapped_ok [OF E c q(1) t i refl pg this bs] obtain s'
      where "write_mapped E q i off bs s = Some (Done 0, s')" "core E s'" "same_frame s s' q" "held s' = held s"
      "datas s' q = (datas s q)[i := overlay off bs (datas s q ! i)]" .
    with False t i pg show thesis by (intro that) (simp_all add: write_page_def nth_opt_def)
  next
    case True
    obtain s1 where s1: "copy_page E q (tls_pages t ! i) i s = Some (Done 0, s1)"
      and cp: "page_copied E s q t i (clock s + 1) (clock s + 2) (tls_pages t ! i) pg m s1"
      and fr: "held s1 = held s" "is_first_time s1 = is_first_time s"
      by (rule copy_page_ok [OF E c q(1) t i refl pg m h])
    note f = page_copiedD [OF cp] and c1 = copy_core [OF E c cp] and d1 = copy_datas [OF E c cp]
    have sf: "same_frame s s1 q" using f(2,11-13) fr d1 by (auto simp: same_frame_def sizes_def)
    have pg1: "pages s1 (clock s + 1) = Some \<lparr>address = mmap_addr E (clock s + 2), ref_count = 1\<rparr>"
      using copy_new(1) [OF c cp] by (simp add: f(14))
    have t1: "tlss s1 q = Some (t\<lparr>tls_pages := (tls_pages t)[i := clock s + 1]\<rparr>)" by (simp add: f(13))
    have q1: "q \<in> live s1" and bs1: "off + length bs \<le> page_size s1"
      using q(1) bs live_cong [OF f(11)] f(12) by simp_all
    obtain s' where "write_mapped E q i off bs s1 = Some (Done 0, s')" "core E s'" "same_frame s1 s' q"
      "held s' = held s1" "datas s' q = (datas s1 q)[i := overlay off bs (datas s1 q ! i)]"
      by (rule write_mapped_ok [OF E c1 q1 t1 _ _ pg1 _ bs1, of i]) (use i in simp_all)
    with True t i pg s1 fr(1) d1 [OF q(1)] same_frame_trans [OF sf] show thesis
      by (intro that) (simp_all add: write_page_def nth_opt_def)
  qed
qed

section \<open>Writing a run of pages\<close>

lemma overlay_append1:
  "off + length bs \<le> length xs \<Longrightarrow> overlay off bs (xs @ ys) = overlay off bs xs @ ys"
  by (simp add: overlay_def)

lemma overlay_append2: "overlay (length xs + off) bs (xs @ ys) = xs @ overlay off bs ys"
  by (simp add: overlay_def)

lemma concat_update_overlay:
  "\<forall>d \<in> set ds. length d = n \<Longrightarrow> i < length ds \<Longrightarrow> off + length bs \<le> n \<Longrightarrow>
    concat (ds[i := overlay off bs (ds ! i)]) = overlay (i * n + off) bs (concat ds)"
proof (induction ds arbitrary: i)
  case (Cons d ds)
  show ?case
  proof (cases i)
    case (Suc j)
    then have "overlay (i * n + off) bs (d @ concat ds) = d @ overlay (j * n + off) bs (concat ds)"
      using Cons.prems(1) overlay_append2 [of d "j * n + off" bs "concat ds"] by (simp add: add.assoc)
    then show ?thesis using Cons Suc by simp
  qed (use Cons.prems overlay_append1 [of off bs d "concat ds"] in simp)
qed simp

lemma length_concat_same: "\<forall>d \<in> set ds. length d = n \<Longrightarrow> length (concat ds) = length ds * n"
  by (induction ds) auto

lemma datas_length:
  assumes "core E s" "q \<in> live s"
  shows "\<forall>d \<in> set (datas s q). length d = page_size s" "length (concat (datas s q)) = length (datas s q) * page_size s"
proof -
  from liveD [OF coreD(1) [OF assms(1)] assms(2)] obtain t where "tlss s q = Some t" "tls_wf s t" by blast
  then show d: "\<forall>d \<in> set (datas s q). length d = page_size s"
    by (fastforce simp: datas_def pages_of_def tls_wf_def page_ok_def page_data_def)
  show "length (concat (datas s q)) = length (datas s q) * page_size s" by (rule length_concat_same [OF d])
qed

lemma write_page_concat:
  assumes E: "good_os E" and c: "core E s" and q: "q \<in> live s" "i * page_size s + off + length bs \<le> length (concat (datas s q))"
    and bs: "off + length bs \<le> page_size s" "0 < length bs" and h: "\<not> held s Mutex_copy"
  obtains s' where "write_page E q i off bs s = Some (Done 0, s')" "core E s'" "same_frame s s' q" "held s' = held s"
    "concat (datas s' q) = overlay (i * page_size s + off) bs (concat (datas s q))"
proof -
  note d = datas_length [OF c q(1)]
  have "i * page_size s < length (datas s q) * page_size s" using q(2) bs(2) unfolding d(2) by linarith
  then have i: "i < length (datas s q)" by simp
  obtain s' where s': "write_page E q i off bs s = Some (Done 0, s')" "core E s'" "same_frame s s' q" "held s' = held s"
    "datas s' q = (datas s q)[i := overlay off bs (datas s q ! i)]"
    by (rule write_page_ok [OF E c q(1) i bs(1) h])
  then show thesis using concat_update_overlay [OF d(1) i bs(1)] that by simp
qed

lemma same_frame_live: "same_frame s s' q \<Longrightarrow> live s' = live s" "same_frame s s' q \<Longrightarrow> page_size s' = page_size s"
  by (simp_all add: same_frame_def live_def entries_def)

lemma datas_cong:
  assumes "tlss s' = tlss s" "pages s' = pages s" "maps s' = maps s"
  shows "datas s' q = datas s q"
proof -
  have "page_data s' = page_data s" by (rule ext) (unfold page_data_def assms, rule refl)
  then show ?thesis by (simp add: datas_def pages_of_def assms(1))
qed

lemma same_frameI:
  assumes "tid_tls_arr s' = tid_tls_arr s" "page_size s' = page_size s" "is_first_time s' = is_first_time s"
    and "tlss s' = tlss s" "pages s' = pages s" "maps s' = maps s"
  shows "same_frame s s' q"
  using assms datas_cong [OF assms(4-6)] by (simp add: same_frame_def sizes_def fun_eq_iff)

lemma core_held: "core E s \<Longrightarrow> core E (s\<lparr>held := h, clock := clock s + k\<rparr>)"
  by (rule core_frame) (auto simp: page_ok_def)

lemma write_end_ok:
  assumes "good_os E" "core E s"
  obtains s' where "write_end E s = Some (Done 0, s')" "core E s'" "same_frame s s' q"
    "held s' = (held s)(Mutex_write := False)" "datas s' q = datas s q"
proof -
  have "write_end E s = Some (Done 0, s\<lparr>held := (held s)(Mutex_write := False), clock := clock s + 1\<rparr>)"
    using assms(1) by (simp add: write_end_def mutex_unlock_def sys_ok)
  moreover have "same_frame s (s\<lparr>held := h, clock := k\<rparr>) q" "datas (s\<lparr>held := h, clock := k\<rparr>) q = datas s q" for h k
    by (auto intro: same_frameI datas_cong)
  ultimately show thesis using core_held [OF assms(2), of 1] that by simp
qed


lemma take_take_drop: "n \<le> m \<Longrightarrow> take n xs @ take (m - n) (drop n xs) = take m xs"
  using take_add [of n "m - n" xs] by simp

lemma write_loop_ok:
  assumes "good_os E" and "core E s" and "q \<in> live s" and "ps = page_size s" "0 < ps" and "\<not> held s Mutex_copy"
    and "i * ps + (len - w) \<le> length (concat (datas s q))" and "len \<le> length buf" and "w \<le> len"
  shows "\<exists>s'. write_loop E ps q i len w buf s = Some (Done 0, s') \<and> core E s' \<and> same_frame s s' q \<and>
    held s' = (held s)(Mutex_write := False) \<and>
    concat (datas s' q) = overlay (i * ps) (take (len - w) (drop w buf)) (concat (datas s q))"
  using assms(2-9)
proof (induction "len - w" arbitrary: i w s rule: less_induct)
  case less
  note E = assms(1) and c = less(2) and q = less(3) and ps = less(4,5) and h = less(6) and ln = less(7)
    and buf = less(8) and w = less(9)
  show ?case
  proof (cases "w < len")
    case False
    then have "write_loop E ps q i len w buf s = write_end E s" "take (len - w) (drop w buf) = []" by simp_all
    then show ?thesis using write_end_ok [OF E c, of q] by (metis overlay_Nil)
  next
    case True
    define n where "n = (if len - w > ps then ps else len - w)"
    define bs where "bs = take n (drop w buf)"
    have n: "0 < n" "n \<le> ps" "w + n \<le> len" using True ps by (auto simp: n_def)
    have rd: "mem_read buf w n = Some bs" and l: "length bs = n" using n buf by (simp_all add: mem_read_def bs_def)
    have "i * page_size s + 0 + length bs \<le> length (concat (datas s q))" "0 + length bs \<le> page_size s" "0 < length bs"
      using ln n l ps by simp_all
    from write_page_concat [OF E c q this h] ps(1) obtain s1 where w1: "write_page E q i 0 bs s = Some (Done 0, s1)"
      and s1: "core E s1" "same_frame s s1 q" "held s1 = held s"
      "concat (datas s1 q) = overlay (i * ps) bs (concat (datas s q))" by auto
    show ?thesis
    proof (cases "len - w > ps")
      case False
      then have "write_loop E ps q i len w buf s = write_end E s1" using True ps rd w1 by (simp add: n_def)
      moreover have "take (len - w) (drop w buf) = bs" using False by (simp add: bs_def n_def)
      ultimately show ?thesis using write_end_ok [OF E s1(1), of q] same_frame_trans [OF s1(2)] s1(3,4) by metis
    next
      case lt: True
      then have n: "n = ps" by (simp add: n_def)
      then have "write_loop E ps q i len w buf s = write_loop E ps q (i + 1) len (w + ps) buf s1"
        using True ps rd w1 lt by simp
      moreover have "length (concat (datas s1 q)) = length (concat (datas s q))"
        using ln lt l n by (simp add: s1(4))
      moreover have buf': "bs @ take (len - (w + ps)) (drop (w + ps) buf) = take (len - w) (drop w buf)"
        using lt n take_take_drop [of ps "len - w" "drop w buf"] by (simp add: bs_def add.commute)
      moreover have "\<exists>s'. write_loop E ps q (i + 1) len (w + ps) buf s1 = Some (Done 0, s') \<and> core E s' \<and>
          same_frame s1 s' q \<and> held s' = (held s1)(Mutex_write := False) \<and> concat (datas s' q) =
          overlay ((i + 1) * ps) (take (len - (w + ps)) (drop (w + ps) buf)) (concat (datas s1 q))"
        using lt ps buf q h s1(1,3) same_frame_live [OF s1(2)] ln calculation(2)
        by (intro less(1)) auto
      moreover have "overlay ((i + 1) * ps) cs (concat (datas s1 q)) = overlay (i * ps) (bs @ cs) (concat (datas s q))" for cs
        using overlay_overlay [of "i * ps" bs "concat (datas s q)" cs] ln lt l n by (simp add: s1(4) add.commute)
      ultimately show ?thesis using same_frame_trans [OF s1(2)] s1(3) by metis
    qed
  qed
qed

end
