(* ===== verification/Tls_Area.thy ===== *)
theory Tls_Area
  imports Tls_Write
begin

text \<open>\<open>tls_write\<close> and \<open>tls_read\<close> on the areas of the threads.\<close>

lemma area_sizes: "area s q = (case sizes s q of None \<Rightarrow> [] | Some (z, n) \<Rightarrow> take (unat z) (concat (datas s q)))"
  by (simp add: area_def sizes_def split: option.split)

lemma same_frame_area:
  assumes "same_frame s s' q" "q' \<in> live s" "q' \<noteq> q"
  shows "area s' q' = area s q'"
proof -
  have "datas s' q' = datas s q'" "sizes s' = sizes s" using assms by (auto simp: same_frame_def)
  then show ?thesis by (simp add: area_sizes split: option.split)
qed

lemma tls_invD:
  assumes "tls_inv E s"
  shows "core E s" "\<not> held s m" "get_tls tid s = Some q \<Longrightarrow> \<not> is_first_time s \<and> page_size s = getpagesize E"
  using assms by (auto simp: tls_inv_def core_def get_tls_entries split: if_splits)

lemma area_live:
  assumes "core E s" "q \<in> live s" "tlss s q = Some t"
  shows "area s q = take (unat (tls_size t)) (concat (datas s q))"
    and "length (area s q) = unat (tls_size t)"
    and "unat (tls_size t) \<le> length (concat (datas s q))" "length (datas s q) = length (tls_pages t)"
proof -
  from liveD [OF coreD(1) [OF assms(1)] assms(2)] assms(3) have "tls_wf s t" by simp
  moreover show l: "length (datas s q) = length (tls_pages t)" by (simp add: datas_def pages_of_def assms(3))
  ultimately show "unat (tls_size t) \<le> length (concat (datas s q))"
    using datas_length(2) [OF assms(1,2)] by (simp add: tls_wf_def)
  then show "area s q = take (unat (tls_size t)) (concat (datas s q))" "length (area s q) = unat (tls_size t)"
    using assms(3) by (simp_all add: area_def)
qed

lemma take_overlay_in:
  "off + length bs \<le> n \<Longrightarrow> n \<le> length xs \<Longrightarrow> take n (overlay off bs xs) = overlay off bs (take n xs)"
  by (cases "off = n") (auto simp: overlay_def take_drop min_def)

lemma unat_add_u32: "unat a + unat b < 2 ^ 32 \<Longrightarrow> unat (a + b :: u32) = unat a + unat b"
  by (simp add: unat_word_ariths)

text \<open>
  An access that stays inside its area: the page and offset it starts at, and the \<open>n\<close> bytes of its
  first segment.
\<close>

definition seg :: "nat \<Rightarrow> u32 \<Rightarrow> u32 \<Rightarrow> nat" where
  "seg ps offset len = (if unat len > ps - unat offset mod ps then ps - unat offset mod ps else unat len)"

lemma access_split:
  assumes "good_os E" and i: "tls_inv E s" and q: "get_tls self s = Some q" "tlss s q = Some t"
    and len: "unat offset + unat len \<le> unat (tls_size t)" "0 < len"
    and n: "n = seg (page_size s) offset len"
  shows "0 < page_size s" "\<not> offset + len > tls_size t" "unat offset div page_size s < length (tls_pages t)"
    "0 < n" "n \<le> unat len" "unat offset mod page_size s + n \<le> page_size s"
    "unat offset div page_size s * page_size s + unat offset mod page_size s + n \<le> length (concat (datas s q))"
    "unat offset + unat len \<le> length (concat (datas s q))"
proof -
  note c = tls_invD(1) [OF i] and live = get_tls_live [OF q(1)]
  note al = area_live [OF c live q(2)]
  show ps: "0 < page_size s" using tls_invD(3) [OF i q(1)] assms(1) by (simp add: good_os_def)
  have "unat offset + unat len < 2 ^ 32" using len(1) unsigned_less [of "tls_size t", where 'a = nat] by simp
  then show "\<not> offset + len > tls_size t" using len(1) by (simp add: word_less_nat_alt unat_add_u32)
  have "0 < unat len" using len(2) by (simp add: word_less_nat_alt)
  then show n0: "0 < n" using ps by (auto simp: n seg_def)
  show n1: "n \<le> unat len" by (simp add: n seg_def)
  show "unat offset mod page_size s + n \<le> page_size s"
    using mod_less_divisor [OF ps, of "unat offset"] by (auto simp: n seg_def)
  show le: "unat offset + unat len \<le> length (concat (datas s q))" using len(1) al(3) by simp
  then show "unat offset div page_size s * page_size s + unat offset mod page_size s + n \<le> length (concat (datas s q))"
    using n1 by simp
  have "unat offset < length (tls_pages t) * page_size s"
    using le n0 n1 datas_length(2) [OF c live] al(4) by simp
  then show "unat offset div page_size s < length (tls_pages t)" by (simp add: less_mult_imp_div_less)
qed

lemma next_page: "0 < ps \<Longrightarrow> (k div ps + 1) * ps = k + (ps - k mod ps)" for ps k :: nat
  using div_mult_mod_eq [of k ps] mod_less_divisor [of ps k] unfolding add_mult_distrib by linarith

text \<open>The lock is taken and the first segment written.\<close>

lemma tls_write_start:
  assumes E: "good_os E" and i: "tls_inv E s" and q: "get_tls self s = Some q" "tlss s q = Some t"
    and len: "unat offset + unat len \<le> unat (tls_size t)" "0 < len" "unat len \<le> length buf"
    and n: "n = seg (page_size s) offset len"
  obtains s1 where "core E s1" "same_frame s s1 q" "(held s1)(Mutex_write := False) = held s" "\<not> held s1 Mutex_copy"
    "concat (datas s1 q) = overlay (unat offset) (take n buf) (concat (datas s q))"
    "n = unat len \<Longrightarrow> tls_write E offset len buf self s = write_end E s1"
    "n < unat len \<Longrightarrow> n = page_size s - unat offset mod page_size s \<and> tls_write E offset len buf self s =
        write_loop E (page_size s) q (unat offset div page_size s + 1) (unat len) n buf s1"
proof -
  note a = access_split [OF E i q len(1,2) n]
  have bl: "length (take n buf) = n" "mem_read buf 0 n = Some (take n buf)" using a(5) len(3) by (simp_all add: mem_read_def)
  define s0 where "s0 = s\<lparr>held := (held s)(Mutex_write := True), clock := clock s + 1\<rparr>"
  have s0: "mutex_lock E Mutex_write s = (True, s0)" using E by (simp add: mutex_lock_def sys_ok s0_def)
  have d0: "datas s0 q = datas s q" "same_frame s s0 q" "core E s0" "live s0 = live s" "page_size s0 = page_size s"
    "\<not> held s0 Mutex_copy" "(held s0)(Mutex_write := False) = held s"
    using core_held [OF tls_invD(1) [OF i], of 1] tls_invD(2) [OF i]
    by (auto simp: s0_def live_def entries_def fun_upd_idem intro: datas_cong same_frameI)
  have qs: "q \<in> live s0" using get_tls_live [OF q(1)] d0(4) by simp
  have "take n buf \<noteq> []" using a(4) bl(1) by (metis length_0_conv less_irrefl)
  with write_page_concat [OF E d0(3) qs _ _ _ d0(6), unfolded d0(1,5), of "unat offset div page_size s" "unat offset mod page_size s" "take n buf"]
    a(4,6,7) bl(1)
  obtain s1 where w1: "write_page E q (unat offset div page_size s) (unat offset mod page_size s) (take n buf) s0 = Some (Done 0, s1)"
    and s1: "core E s1" "same_frame s0 s1 q" "held s1 = held s0"
      "concat (datas s1 q) = overlay (unat offset) (take n buf) (concat (datas s q))" by auto
  show thesis
  proof (rule that [OF s1(1) same_frame_trans [OF d0(2) s1(2)] _ _ s1(4)])
    show "tls_write E offset len buf self s = write_end E s1" if "n = unat len"
      using that n a(1-3) q bl(2) w1 tls_invD(2) [OF i] s0 by (auto simp: tls_write_def nth_opt_def seg_def Let_def split: if_splits)
    show "n = page_size s - unat offset mod page_size s \<and> tls_write E offset len buf self s =
        write_loop E (page_size s) q (unat offset div page_size s + 1) (unat len) n buf s1" if "n < unat len"
      using that n a(1-3) q bl(2) w1 tls_invD(2) [OF i] s0
      by (simp add: tls_write_def nth_opt_def seg_def Let_def del: write_loop.simps split: if_splits)
  qed (use d0(6,7) s1(3) in simp_all)
qed

text \<open>What a call of \<open>tls_write\<close> that passes its check does to the pages of the area.\<close>

lemma tls_write_pages:
  assumes E: "good_os E" and i: "tls_inv E s" and q: "get_tls self s = Some q" "tlss s q = Some t"
    and len: "unat offset + unat len \<le> unat (tls_size t)" "0 < len" "unat len \<le> length buf"
  obtains s' where "tls_write E offset len buf self s = Some (Done 0, s')" "core E s'" "same_frame s s' q" "held s' = held s"
    "concat (datas s' q) = overlay (unat offset) (take (unat len) buf) (concat (datas s q))"
proof -
  define n where "n = seg (page_size s) offset len"
  note a = access_split [OF E i q len(1,2) n_def]
  obtain s1 where s1: "core E s1" "same_frame s s1 q" "(held s1)(Mutex_write := False) = held s" "\<not> held s1 Mutex_copy"
    and d1: "concat (datas s1 q) = overlay (unat offset) (take n buf) (concat (datas s q))"
    and fin: "n = unat len \<Longrightarrow> tls_write E offset len buf self s = write_end E s1"
    and more: "n < unat len \<Longrightarrow> n = page_size s - unat offset mod page_size s \<and> tls_write E offset len buf self s =
        write_loop E (page_size s) q (unat offset div page_size s + 1) (unat len) n buf s1"
    by (rule tls_write_start [OF E i q len n_def]) blast
  have nl: "length (take n buf) = n" using a(5) len(3) by simp
  show thesis
  proof (cases "n = unat len")
    case True
    obtain s' where "write_end E s1 = Some (Done 0, s')" "core E s'" "same_frame s1 s' q"
      "held s' = (held s1)(Mutex_write := False)" "datas s' q = datas s1 q" by (rule write_end_ok [OF E s1(1)])
    with True fin s1(3) d1 same_frame_trans [OF s1(2)] show thesis by (intro that [of s']) simp_all
  next
    case False
    with a(5) more have n: "n = page_size s - unat offset mod page_size s" and w: "tls_write E offset len buf self s =
        write_loop E (page_size s) q (unat offset div page_size s + 1) (unat len) n buf s1" by auto
    have np: "(unat offset div page_size s + 1) * page_size s = unat offset + n"
      using next_page [OF a(1), of "unat offset"] n by simp
    have "length (concat (datas s1 q)) = length (concat (datas s q))" using a(5,8) nl by (simp add: d1)
    then obtain s' where s': "write_loop E (page_size s) q (unat offset div page_size s + 1) (unat len) n buf s1 = Some (Done 0, s')"
      "core E s'" "same_frame s1 s' q" "held s' = (held s1)(Mutex_write := False)"
      "concat (datas s' q) = overlay (unat offset + n) (take (unat len - n) (drop n buf)) (concat (datas s1 q))"
      using write_loop_ok [OF E s1(1), of q "page_size s" "unat offset div page_size s + 1" "unat len" n buf, unfolded np]
        s1(4) a(1,5,8) len(3) same_frame_live [OF s1(2)] get_tls_live [OF q(1)] by auto
    moreover have "concat (datas s' q) = overlay (unat offset) (take (unat len) buf) (concat (datas s q))"
      using overlay_overlay [of "unat offset" "take n buf" "concat (datas s q)" "take (unat len - n) (drop n buf)"]
        take_take_drop [of n "unat len" buf] a(5,8) nl s'(5) d1 by simp
    ultimately show thesis using w s1(3) same_frame_trans [OF s1(2)] by (intro that [of s']) simp_all
  qed
qed

section \<open>Reading\<close>

text \<open>Two states that differ in the number of calls made and in the mutexes held only.\<close>

definition quiet :: "tstate \<Rightarrow> tstate \<Rightarrow> bool" where
  "quiet s s' \<longleftrightarrow> tid_tls_arr s' = tid_tls_arr s \<and> tlss s' = tlss s \<and> pages s' = pages s \<and> maps s' = maps s \<and>
     page_size s' = page_size s \<and> is_first_time s' = is_first_time s \<and> clock s \<le> clock s'"

lemma quiet_trans: "quiet s s' \<Longrightarrow> quiet s' s'' \<Longrightarrow> quiet s s''"
  by (simp add: quiet_def)

lemma quietD:
  assumes "quiet s s'"
  shows "core E s \<Longrightarrow> core E s'" "datas s' q = datas s q" "live s' = live s" "tlss s' = tlss s" "page_size s' = page_size s"
  using assms by (auto simp: quiet_def live_def entries_def page_ok_def intro: core_frame datas_cong)

lemma drop_concat:
  "\<forall>d \<in> set ds. length d = n \<Longrightarrow> i < length ds \<Longrightarrow> drop (i * n + off) (concat ds) = drop off (ds ! i) @ concat (drop (Suc i) ds)
    \<or> n < off"
proof (induction ds arbitrary: i)
  case (Cons d ds)
  show ?case
  proof (cases i)
    case (Suc j)
    then have "drop (i * n + off) (concat (d # ds)) = drop (j * n + off) (concat ds)"
      using Cons.prems(1) by (simp add: add.assoc)
    then show ?thesis using Cons Suc by auto
  qed (use Cons.prems in auto)
qed simp

lemma take_drop_concat:
  "\<forall>d \<in> set ds. length d = n \<Longrightarrow> i < length ds \<Longrightarrow> off + k \<le> n \<Longrightarrow>
    take k (drop (i * n + off) (concat ds)) = take k (drop off (ds ! i))"
  using drop_concat [of ds n i off] by auto

lemma read_page_ok:
  assumes E: "good_os E" and c: "core E s" and q: "q \<in> live s" "tlss s q = Some t" "i < length (tls_pages t)"
    and n: "off + n \<le> page_size s" "rd + n \<le> length buf"
  obtains s' where "read_page E (tls_pages t ! i) off n rd buf s =
      Some (True, overlay rd (take n (drop (i * page_size s + off) (concat (datas s q)))) buf, s')"
    "quiet s s'" "held s' = held s"
proof -
  from live_page [OF c q] obtain pg m where pg: "pages s (tls_pages t ! i) = Some pg" "maps s (address pg) = Some m"
    and m: "length (mp_data m) = page_size s" "\<not> mp_open m" by blast
  have mm: "m\<lparr>mp_open := False\<rparr> = m" using m(2) by (cases m) simp
  have "datas s q ! i = mp_data m" using q(2,3) pg by (simp add: datas_def pages_of_def page_data_def)
  then have "take n (drop (i * page_size s + off) (concat (datas s q))) = take n (drop off (mp_data m))"
    using take_drop_concat [OF datas_length(1) [OF c q(1)], of i off n] n(1) q by (simp add: datas_def pages_of_def)
  moreover have "(maps s)(address pg \<mapsto> m) = maps s" using pg(2) by (rule fun_upd_idem)
  ultimately have "\<exists>s'. read_page E (tls_pages t ! i) off n rd buf s =
      Some (True, overlay rd (take n (drop (i * page_size s + off) (concat (datas s q)))) buf, s') \<and> quiet s s' \<and> held s' = held s"
    using E pg m n by (simp add: read_page_def tls_unprotect_def tls_protect_def calls_ok load_def mem_read_def mem_write_def mm quiet_def)
  then show thesis using that by blast
qed

lemma read_end_ok:
  assumes "good_os E"
  obtains s' where "read_end E buf s = Some (Done 0, buf, s')" "quiet s s'" "held s' = (held s)(Mutex_read := False)"
  using that [of "s\<lparr>held := (held s)(Mutex_read := False), clock := clock s + 1\<rparr>"] assms
  by (simp add: read_end_def mutex_unlock_def sys_ok quiet_def)

lemma read_loop_ok:
  assumes "good_os E" and "core E s" and "q \<in> live s" "tlss s q = Some t" and "ps = page_size s" "0 < ps"
    and "i * ps + (len - rd) \<le> length (concat (datas s q))" and "len \<le> length buf" and "rd \<le> len"
  shows "\<exists>s'. read_loop E ps (tls_pages t) i len rd buf s =
      Some (Done 0, overlay rd (take (len - rd) (drop (i * ps) (concat (datas s q)))) buf, s') \<and>
    quiet s s' \<and> held s' = (held s)(Mutex_read := False)"
  using assms(2-9)
proof (induction "len - rd" arbitrary: i rd buf s rule: less_induct)
  case less
  note E = assms(1) and c = less(2) and q = less(3,4) and ps = less(5,6) and ln = less(7)
    and buf = less(8) and rd = less(9)
  show ?case
  proof (cases "rd < len")
    case False
    then have "read_loop E ps (tls_pages t) i len rd buf s = read_end E buf s" by simp
    then show ?thesis using read_end_ok [OF E, of buf s] False by (metis overlay_Nil diff_is_0_eq' not_less take0)
  next
    case True
    define n where "n = (if len - rd > ps then ps else len - rd)"
    define bs where "bs = take n (drop (i * ps) (concat (datas s q)))"
    have n: "0 < n" "n \<le> ps" "rd + n \<le> len" using True ps by (auto simp: n_def)
    have "length (concat (datas s q)) = length (tls_pages t) * ps"
      using area_live(4) [OF c q] datas_length(2) [OF c q(1)] ps(1) by simp
    then have "i * ps < length (tls_pages t) * ps" using ln True by linarith
    then have i: "i < length (tls_pages t)" by simp
    from read_page_ok [OF E c q i, of 0 n rd buf] n buf ps(1) obtain s1 where
      r1: "read_page E (tls_pages t ! i) 0 n rd buf s = Some (True, overlay rd bs buf, s1)"
      and s1: "quiet s s1" "held s1 = held s" by (auto simp: bs_def)
    have bl: "length bs = n" using ln n by (simp add: bs_def)
    show ?thesis
    proof (cases "len - rd > ps")
      case False
      then have "read_loop E ps (tls_pages t) i len rd buf s = read_end E (overlay rd bs buf) s1"
        using True ps r1 i by (simp add: n_def nth_opt_def)
      moreover have "bs = take (len - rd) (drop (i * ps) (concat (datas s q)))" using False by (simp add: bs_def n_def)
      ultimately show ?thesis using read_end_ok [OF E, of "overlay rd bs buf" s1] quiet_trans [OF s1(1)] s1(2) by metis
    next
      case lt: True
      then have n: "n = ps" by (simp add: n_def)
      then have "read_loop E ps (tls_pages t) i len rd buf s = read_loop E ps (tls_pages t) (i + 1) len (rd + ps) (overlay rd bs buf) s1"
        using True ps r1 i lt by (simp add: nth_opt_def)
      moreover have "\<exists>s'. read_loop E ps (tls_pages t) (i + 1) len (rd + ps) (overlay rd bs buf) s1 =
          Some (Done 0, overlay (rd + ps) (take (len - (rd + ps)) (drop ((i + 1) * ps) (concat (datas s1 q)))) (overlay rd bs buf), s') \<and>
          quiet s1 s' \<and> held s' = (held s1)(Mutex_read := False)"
        using lt ps buf q ln bl n c quietD [OF s1(1)] by (intro less(1)) auto
      moreover have "bs @ take (len - (rd + ps)) (drop ((i + 1) * ps) (concat (datas s1 q))) = take (len - rd) (drop (i * ps) (concat (datas s q)))"
        using lt n take_take_drop [of ps "len - rd" "drop (i * ps) (concat (datas s q))"] quietD(2) [OF s1(1)]
        by (simp add: bs_def add.commute)
      moreover have "overlay (rd + ps) cs (overlay rd bs buf) = overlay rd (bs @ cs) buf" for cs
        using overlay_overlay [of rd bs buf cs] bl n buf lt by simp
      ultimately show ?thesis using quiet_trans [OF s1(1)] s1(2) by metis
    qed
  qed
qed


lemma tls_read_pages:
  assumes E: "good_os E" and i: "tls_inv E s" and q: "get_tls self s = Some q" "tlss s q = Some t"
    and len: "unat offset + unat len \<le> unat (tls_size t)" "0 < len" "unat len \<le> length buf"
  obtains s' where "tls_read E offset len buf self s =
      Some (Done 0, overlay 0 (take (unat len) (drop (unat offset) (concat (datas s q)))) buf, s')"
    "quiet s s'" "held s' = held s"
proof -
  define n where "n = seg (page_size s) offset len"
  define bs where "bs = take n (drop (unat offset) (concat (datas s q)))"
  note a = access_split [OF E i q len(1,2) n_def] and live = get_tls_live [OF q(1)] and c = tls_invD(1) [OF i]
  have bl: "length bs = n" using a(5,8) by (simp add: bs_def)
  have ps: "s\<lparr>page_size := getpagesize E\<rparr> = s" using tls_invD(3) [OF i q(1)] by simp
  define s0 where "s0 = s\<lparr>held := (held s)(Mutex_read := True), clock := clock s + 1\<rparr>"
  have s0: "mutex_lock E Mutex_read s = (True, s0)" "quiet s s0" "(held s0)(Mutex_read := False) = held s"
    using E tls_invD(2) [OF i] by (auto simp: mutex_lock_def sys_ok s0_def quiet_def fun_upd_idem)
  have q0: "q \<in> live s0" "tlss s0 q = Some t" using live q(2) quietD [OF s0(2)] by simp_all
  have r: "page_size s0 = page_size s" "datas s0 q = datas s q" using quietD [OF s0(2)] by simp_all
  obtain s1 where r1: "read_page E (tls_pages t ! (unat offset div page_size s)) (unat offset mod page_size s) n 0 buf s0 =
      Some (True, overlay 0 bs buf, s1)" and s1: "quiet s0 s1" "held s1 = held s0"
    using read_page_ok [OF E quietD(1) [OF s0(2) c] q0 a(3), unfolded r, of "unat offset mod page_size s" n 0 buf] a(5,6) len(3)
    by (auto simp: bs_def)
  have q1: "quiet s s1" by (rule quiet_trans [OF s0(2) s1(1)])
  show thesis
  proof (cases "unat len > page_size s - unat offset mod page_size s")
    case False
    then have n: "n = unat len" by (simp add: n_def seg_def)
    obtain s' where s': "read_end E (overlay 0 bs buf) s1 = Some (Done 0, overlay 0 bs buf, s')" "quiet s1 s'"
      "held s' = (held s1)(Mutex_read := False)" by (rule read_end_ok [OF E])
    have "tls_read E offset len buf self s = read_end E (overlay 0 bs buf) s1"
      using False a(1-3) q r1 n tls_invD(2) [OF i] s0(1) by (simp add: tls_read_def ps nth_opt_def Let_def)
    then show thesis using that [of s'] s' n s1(2) s0(3) quiet_trans [OF q1] by (simp add: bs_def)
  next
    case True
    then have n: "n = page_size s - unat offset mod page_size s" by (simp add: n_def seg_def)
    have np: "(unat offset div page_size s + 1) * page_size s = unat offset + n"
      using next_page [OF a(1), of "unat offset"] n by simp
    have q': "q \<in> live s1" "tlss s1 q = Some t" "page_size s = page_size s1" "datas s1 q = datas s q"
      using live q(2) quietD [OF q1] by simp_all
    obtain s' where s': "read_loop E (page_size s) (tls_pages t) (unat offset div page_size s + 1) (unat len) n (overlay 0 bs buf) s1 =
        Some (Done 0, overlay n (take (unat len - n) (drop (unat offset + n) (concat (datas s q)))) (overlay 0 bs buf), s')"
      "quiet s1 s'" "held s' = (held s1)(Mutex_read := False)"
      using read_loop_ok [OF E quietD(1) [OF q1 c] q'(1,2,3) a(1), of "unat offset div page_size s + 1" "unat len" n "overlay 0 bs buf",
          unfolded np q'(4)] a(5,8) len(3) bl by auto
    have "tls_read E offset len buf self s =
        read_loop E (page_size s) (tls_pages t) (unat offset div page_size s + 1) (unat len) n (overlay 0 bs buf) s1"
      using True a(1-3) q r1 n tls_invD(2) [OF i] s0(1)
      by (simp add: tls_read_def ps nth_opt_def Let_def del: read_loop.simps)
    moreover have "bs @ take (unat len - n) (drop (unat offset + n) (concat (datas s q))) = take (unat len) (drop (unat offset) (concat (datas s q)))"
      using take_take_drop [OF a(5), of "drop (unat offset) (concat (datas s q))"] by (simp add: bs_def add.commute)
    ultimately show thesis
      using that [of s'] s' overlay_overlay [of 0 bs buf] bl a(5) len(3) s1(2) s0(3) quiet_trans [OF q1] by simp
  qed
qed

end
