(* ===== verification/Tls_New.thy ===== *)
theory Tls_New
  imports Tls_Area
begin

text \<open>\<open>create_new_tls\<close>: new pages, shared pages, and the new entry of the array.\<close>

section \<open>New pages\<close>

text \<open>A page allocated by one \<open>malloc\<close> and one \<open>mmap\<close>.\<close>

definition with_page :: "os \<Rightarrow> tstate \<Rightarrow> tstate" where
  "with_page E s = s\<lparr>
     maps := (maps s)(mmap_addr E (clock s + 1) \<mapsto> \<lparr>mp_data = replicate (page_size s) 0, mp_open = False\<rparr>),
     clock := clock s + 2,
     pages := (pages s)(clock s \<mapsto> \<lparr>address = mmap_addr E (clock s + 1), ref_count = 1\<rparr>)\<rparr>"

lemma new_pages_Suc:
  "good_os E \<Longrightarrow> new_pages E (Suc n) s =
    (case new_pages E n (with_page E s) of (ps, s') \<Rightarrow> (map_option (Cons (clock s)) ps, s'))"
  by (simp add: calls_ok with_page_def Let_def split: prod.split)

lemma with_page_data:
  assumes "good_os E" "core E s" "r \<noteq> clock s"
  shows "page_data (with_page E s) r = page_data s r" and "page_ok s r \<Longrightarrow> page_ok (with_page E s) r"
  using assms(3) fresh_addr [OF assms(1) coreD(2) [OF assms(2)], of r _ "clock s + 1"]
  by (auto simp: page_data_def page_ok_def with_page_def split: option.splits)

lemma with_page_core:
  assumes E: "good_os E" and c: "core E s"
  shows "core E (with_page E s)"
proof -
  note h = heap_okD [OF coreD(2) [OF c]] and fr = fresh_addr [OF E coreD(2) [OF c], where n = "clock s + 1"]
  have live: "live (with_page E s) = live s" by (simp add: live_def entries_def with_page_def)
  have u: "users (with_page E s) = users s"
    by (rule ext) (unfold users_def live, simp add: pages_of_def with_page_def)
  have old: "r \<noteq> clock s" if "q \<in> live s" "r \<in> set (pages_of s q)" for q r
    using that h(5) [of q _ r] by (cases "tlss s q") (auto simp: pages_of_def)
  then have u0: "users s (clock s) = {}" by (auto simp: users_def)
  have ad: "r = clock s \<and> rg = \<lparr>address = mmap_addr E (clock s + 1), ref_count = 1\<rparr> \<or> r \<noteq> clock s \<and> pages s r = Some rg"
    if "pages (with_page E s) r = Some rg" for r rg
    using that by (auto simp: with_page_def split: if_splits)
  have "heap_ok E (with_page E s)"
  proof (rule heap_okI)
    show "r = r'" if "pages (with_page E s) r = Some rg" "pages (with_page E s) r' = Some rg'" "address rg = address rg'" for r r' rg rg'
      using ad [OF that(1)] ad [OF that(2)] that(3) fr [of r rg] fr [of r' rg'] h(1) [of r rg r' rg'] by auto
    show "\<exists>n < clock (with_page E s). address rg = mmap_addr E n" if "pages (with_page E s) r = Some rg" for r rg
    proof -
      from ad [OF that] h(3) [of r rg] obtain n where "n < clock s + 2" "address rg = mmap_addr E n"
        by (metis add_2_eq_Suc' lessI less_SucI page.select_convs(1) Suc_eq_plus1)
      then show ?thesis by (auto simp: with_page_def)
    qed
    show "int (card (users (with_page E s) r)) \<le> ref_count rg" if "pages (with_page E s) r = Some rg" for r rg
      using ad [OF that] h(6) [of r rg] u0 by (auto simp: u)
    show "r < clock (with_page E s)" if "pages (with_page E s) r = Some rg" for r rg
      using ad [OF that] h(2) [of r rg] by (auto simp: with_page_def)
    show "q < clock (with_page E s)" if "tlss (with_page E s) q = Some t" for q t
      using that h(4) [of q t] by (simp add: with_page_def)
    show "r < clock (with_page E s)" if "tlss (with_page E s) q = Some t" "r \<in> set (tls_pages t)" for q t r
      using that h(5) [of q t r] by (simp add: with_page_def)
  qed
  moreover have "arr_ok (with_page E s)"
  proof (rule arr_okI [OF coreD(1) [OF c]])
    show "\<exists>t'. tlss (with_page E s) q = Some t' \<and> tls_wf (with_page E s) t'" if q: "q \<in> live s" "tlss s q = Some t" "tls_wf s t" for q t
      using q with_page_data(2) [OF E c] old [OF q(1)] by (simp add: tls_wf_def pages_of_def with_page_def)
  qed (simp add: with_page_def)
  ultimately show ?thesis by (simp add: core_def)
qed

text \<open>
  The pages of a new area: well formed, full of zeros, used by no area yet; the old pages keep their
  contents.
\<close>

definition fresh_pages :: "tstate \<Rightarrow> nat list \<Rightarrow> tstate \<Rightarrow> bool" where
  "fresh_pages s ps s' \<longleftrightarrow> distinct ps \<and> clock s \<le> clock s' \<and>
     (\<forall>p \<in> set ps. clock s \<le> p \<and> p < clock s' \<and> page_ok s' p \<and> page_data s' p = replicate (page_size s) 0 \<and>
        (\<exists>pg. pages s' p = Some pg \<and> ref_count pg = 1)) \<and>
     (\<forall>p < clock s. page_data s' p = page_data s p) \<and>
     tid_tls_arr s' = tid_tls_arr s \<and> tlss s' = tlss s \<and> page_size s' = page_size s \<and> held s' = held s \<and>
     is_first_time s' = is_first_time s"

lemma new_pages_ok:
  assumes "good_os E" "core E s"
  shows "\<exists>ps s'. new_pages E n s = (Some ps, s') \<and> length ps = n \<and> core E s' \<and> fresh_pages s ps s' \<and>
    (\<forall>r < clock s. pages s' r = pages s r \<and> (page_ok s r \<longrightarrow> page_ok s' r))"
  using assms(2)
proof (induction n arbitrary: s)
  case 0
  then show ?case by (simp add: fresh_pages_def)
next
  case (Suc n)
  define s1 where "s1 = with_page E s"
  have c1: "core E s1" unfolding s1_def by (rule with_page_core [OF assms(1) Suc(2)])
  from Suc(1) [OF c1] obtain ps s' where IH: "new_pages E n s1 = (Some ps, s')" "length ps = n" "core E s'" "fresh_pages s1 ps s'"
    "\<forall>r < clock s1. pages s' r = pages s1 r \<and> (page_ok s1 r \<longrightarrow> page_ok s' r)" by blast
  have f: "clock s1 = clock s + 2" "pages s1 (clock s) = Some \<lparr>address = mmap_addr E (clock s + 1), ref_count = 1\<rparr>"
    "page_ok s1 (clock s)" "page_data s1 (clock s) = replicate (page_size s) 0"
    "tid_tls_arr s1 = tid_tls_arr s" "tlss s1 = tlss s" "page_size s1 = page_size s" "held s1 = held s"
    "is_first_time s1 = is_first_time s" "\<And>r. r < clock s \<Longrightarrow> pages s1 r = pages s r"
    by (auto simp: s1_def with_page_def page_ok_def page_data_def)
  have old: "page_data s1 r = page_data s r" "page_ok s r \<longrightarrow> page_ok s1 r" if "r < clock s" for r
    using that with_page_data [OF assms(1) Suc(2), of r] by (auto simp: s1_def)
  have "new_pages E (Suc n) s = (Some (clock s # ps), s')"
    using IH(1) by (simp add: new_pages_Suc [OF assms(1)] s1_def [symmetric] del: new_pages.simps)
  moreover have "fresh_pages s (clock s # ps) s'"
    using IH(4,5) f old unfolding fresh_pages_def by fastforce
  ultimately show ?case using IH(2,3,5) f(1,10) old(2) by fastforce
qed

section \<open>Shared pages\<close>

text \<open>After sharing, the counts of the pages are one higher and nothing else has changed.\<close>

lemma share_pages_ok:
  assumes "distinct ps" "\<forall>p \<in> set ps. pages s p \<noteq> None"
  shows "share_pages ps s = Some (s\<lparr>pages := (\<lambda>p. if p \<in> set ps
      then map_option (\<lambda>pg. pg\<lparr>ref_count := ref_count pg + 1\<rparr>) (pages s p) else pages s p)\<rparr>)"
  using assms
proof (induction ps arbitrary: s)
  case (Cons p ps)
  then obtain pg where pg: "pages s p = Some pg" by auto
  have "share_pages (p # ps) s = share_pages ps (s\<lparr>pages := (pages s)(p \<mapsto> pg\<lparr>ref_count := ref_count pg + 1\<rparr>)\<rparr>)"
    by (simp add: pg)
  also have "\<dots> = Some (s\<lparr>pages := (\<lambda>r. if r \<in> set (p # ps)
      then map_option (\<lambda>pg. pg\<lparr>ref_count := ref_count pg + 1\<rparr>) (pages s r) else pages s r)\<rparr>)"
    using Cons.prems pg by (subst Cons.IH) (auto intro!: arg_cong [where f = "\<lambda>f. s\<lparr>pages := f\<rparr>"])
  finally show ?case .
qed simp

lemma shared_core:
  assumes c: "core E s" and eq: "tid_tls_arr s' = tid_tls_arr s" "tlss s' = tlss s" "maps s' = maps s"
      "page_size s' = page_size s" "clock s \<le> clock s'"
    and pg: "\<And>p. map_option address (pages s' p) = map_option address (pages s p)"
      "\<And>p pg pg'. pages s p = Some pg \<Longrightarrow> pages s' p = Some pg' \<Longrightarrow> ref_count pg \<le> ref_count pg'"
  shows "core E s'" and "page_data s' = page_data s" and "page_ok s' = page_ok s"
proof -
  note h = heap_okD [OF coreD(2) [OF c]]
  have ad: "\<exists>pg. pages s p = Some pg \<and> address pg = address pg'" if "pages s' p = Some pg'" for p pg'
    using that pg(1) [of p] by (cases "pages s p") auto
  have da: "page_data s' p = page_data s p \<and> page_ok s' p = page_ok s p" for p
    using pg(1) [of p] by (cases "pages s p"; cases "pages s' p") (auto simp: page_data_def page_ok_def eq)
  then show "page_data s' = page_data s" "page_ok s' = page_ok s" by auto
  have u: "users s' = users s"
    by (rule ext) (simp add: users_def pages_of_def live_cong [OF eq(1)] eq(2))
  have "heap_ok E s'"
  proof (rule heap_okI; (unfold eq(2) u)?)
    show "p = p'" if "pages s' p = Some pg" "pages s' p' = Some pg'" "address pg = address pg'" for p p' pg pg'
      using ad [OF that(1)] ad [OF that(2)] that(3) h(1) by metis
    show "p < clock s'" if "pages s' p = Some pg" for p pg
      using ad [OF that] h(2) eq(5) by (auto dest: order.strict_trans2)
    show "\<exists>n < clock s'. address pg = mmap_addr E n" if "pages s' p = Some pg" for p pg
      using ad [OF that] h(3) eq(5) by (metis order.strict_trans2)
    show "int (card (users s p)) \<le> ref_count pg'" if "pages s' p = Some pg'" for p pg'
      using ad [OF that] h(6) pg(2) that by (metis order.trans)
  qed (use h eq(5) in \<open>blast intro: order.strict_trans2\<close>)+
  moreover have "arr_ok s'"
    by (rule arr_okI [OF coreD(1) [OF c] eq(1)]) (simp add: tls_wf_def da eq)
  ultimately show "core E s'" by (simp add: core_def)
qed

section \<open>The new entry\<close>

lemma entries_append:
  assumes "first_free (tid_tls_arr s) = Some i" "tid_tls_arr s' = (tid_tls_arr s)[i := Some x]"
  obtains us vs where "entries s = us @ vs" "entries s' = us @ x # vs"
  using first_free_Some [OF assms(1), of x] assms(2) by (auto simp: entries_def)

text \<open>The area \<open>t\<close> at \<open>q\<close> of thread \<open>self\<close> is ready to be entered in the array.\<close>

definition tls_ready :: "tstate \<Rightarrow> tid \<Rightarrow> nat \<Rightarrow> TLS \<Rightarrow> bool" where
  "tls_ready s self q t \<longleftrightarrow> get_tls self s = None \<and> tlss s q = None \<and> q < clock s \<and> tls_wf s t \<and> tls_tid t = self \<and>
     (\<forall>p \<in> set (tls_pages t). \<exists>pg. pages s p = Some pg \<and> int (card (users s p)) + 1 \<le> ref_count pg)"

lemma tls_ready_not_live: "core E s \<Longrightarrow> tls_ready s self q t \<Longrightarrow> q \<notin> live s"
  using liveD [OF coreD(1), of E s q] by (auto simp: tls_ready_def)

lemma set_area_core:
  assumes c: "core E s" and r: "tls_ready s self q t"
    and eq: "tlss s' = (tlss s)(q \<mapsto> t)" "pages s' = pages s" "maps s' = maps s" "page_size s' = page_size s" "clock s \<le> clock s'"
    and arr: "length (tid_tls_arr s') = MAX_THREAD_COUNT" "distinct (map fst (entries s'))" "distinct (map snd (entries s'))"
    and live: "live s' = live s \<or> live s' = insert q (live s)"
  shows "core E s'"
proof -
  note h = heap_okD [OF coreD(2) [OF c]] and nl = tls_ready_not_live [OF c r]
  have po: "pages_of s' q' = (if q' = q then tls_pages t else pages_of s q')" for q' by (simp add: pages_of_def eq(1))
  have u: "users s' p \<subseteq> insert q (users s p)" "p \<notin> set (tls_pages t) \<Longrightarrow> users s' p \<subseteq> users s p" for p
    using live nl by (auto simp: users_def po split: if_splits)
  have wf: "tls_wf s' t' = tls_wf s t'" for t' by (simp add: tls_wf_def page_ok_def eq)
  have "heap_ok E s'"
  proof (rule heap_okI; (unfold eq(2))?)
    show "\<exists>n < clock s'. address pg = mmap_addr E n" if "pages s p = Some pg" for p pg
      using h(3) [OF that] eq(5) by (auto intro: order.strict_trans2)
    show "q' < clock s'" if "tlss s' q' = Some t'" for q' t'
      using that h(4) [of q' t'] r eq(5) by (auto simp: eq(1) tls_ready_def split: if_splits)
    show "p < clock s'" if "tlss s' q' = Some t'" "p \<in> set (tls_pages t')" for q' t' p
      using that h(5) [of q' t' p] h(2) [of p] r eq(5) by (fastforce simp: eq(1) tls_ready_def split: if_splits)
    show "int (card (users s' p)) \<le> ref_count pg" if "pages s p = Some pg" for p pg
    proof (cases "p \<in> set (tls_pages t)")
      case True
      then have "int (card (users s p)) + 1 \<le> ref_count pg" using r that by (auto simp: tls_ready_def)
      moreover have "card (users s' p) \<le> card (users s p) + 1"
        using card_mono [OF _ u(1) [of p]] card_insert_le_m1 [of "card (users s p) + 1" "users s p" q] by simp
      ultimately show ?thesis by linarith
    qed (use card_mono [OF _ u(2) [of p]] h(6) [OF that] in simp)
  qed (use h eq(5) in \<open>blast intro: order.strict_trans2\<close>)+
  moreover have "\<exists>t'. tlss s' q' = Some t' \<and> tls_wf s' t'" if "(tid, q') \<in> set (entries s')" for tid q'
  proof -
    have "q' \<in> live s'" using that by (force simp: live_def)
    then show ?thesis using live liveD [OF coreD(1) [OF c], of q'] r by (auto simp: eq(1) wf tls_ready_def)
  qed
  ultimately show ?thesis using arr by (auto simp: core_def arr_ok_def)
qed

lemma set_area_lsa:
  assumes c: "core E s" and r: "tls_ready s self q t"
    and eq: "tlss s' = (tlss s)(q \<mapsto> t)" "pages s' = pages s" "maps s' = maps s"
  shows "q' \<in> live s \<Longrightarrow> area s' q' = area s q'"
    and "area s' q = take (unat (tls_size t)) (concat (map (page_data s) (tls_pages t)))"
proof -
  have pd: "page_data s' = page_data s" by (rule ext) (unfold page_data_def eq(2,3), rule refl)
  show "area s' q = take (unat (tls_size t)) (concat (map (page_data s) (tls_pages t)))"
    by (simp add: area_def datas_def pages_of_def pd eq(1))
  show "area s' q' = area s q'" if "q' \<in> live s"
  proof -
    have "q' \<noteq> q" using that tls_ready_not_live [OF c r] by blast
    then show ?thesis by (simp add: area_def datas_def pages_of_def pd eq(1) split: option.split)
  qed
qed

definition limit_ok :: "tstate \<Rightarrow> bool" where
  "limit_ok s \<longleftrightarrow> first_free (tid_tls_arr s) \<noteq> None"

lemma finish_tls_ok:
  assumes E: "good_os E" and c: "core E s" and r: "tls_ready s self q t"
  obtains s' where "finish_tls E q t s = (if limit_ok s then 0 else - 1, s')" "core E s'"
    "lsa s' = (if limit_ok s then (lsa s)(self \<mapsto> take (unat (tls_size t)) (concat (map (page_data s) (tls_pages t)))) else lsa s)"
    "page_size s' = page_size s" "held s' = held s" "is_first_time s' = is_first_time s"
proof (cases "first_free (tid_tls_arr s)")
  case None
  define s' where "s' = s\<lparr>tlss := (tlss s)(q \<mapsto> t), clock := clock s + 1\<rparr>"
  have f: "finish_tls E q t s = (- 1, s')" using E None by (simp add: finish_tls_def malloc_ok append_to_arr_def s'_def)
  have eq: "tlss s' = (tlss s)(q \<mapsto> t)" "pages s' = pages s" "maps s' = maps s" "page_size s' = page_size s" "clock s \<le> clock s'"
    "entries s' = entries s" "live s' = live s" "tid_tls_arr s' = tid_tls_arr s" by (simp_all add: s'_def entries_def live_def)
  have "core E s'" using coreD(1) [OF c] by (intro set_area_core [OF c r eq(1-5)]) (simp_all add: eq arr_ok_def)
  moreover have "lsa s' = lsa s"
    using set_area_lsa(1) [OF c r eq(1-3)] get_tls_cong [OF eq(8)]
    by (auto simp: lsa_def fun_eq_iff intro!: option.map_cong dest: get_tls_live)
  ultimately show thesis using that [of s'] f None by (auto simp: limit_ok_def s'_def)
next
  case (Some i)
  define s' where "s' = s\<lparr>tlss := (tlss s)(q \<mapsto> t), clock := clock s + 1, tid_tls_arr := (tid_tls_arr s)[i := Some (self, q)]\<rparr>"
  have f: "finish_tls E q t s = (0, s')" using E Some r by (simp add: finish_tls_def malloc_ok append_to_arr_def s'_def tls_ready_def)
  have eq: "tlss s' = (tlss s)(q \<mapsto> t)" "pages s' = pages s" "maps s' = maps s" "page_size s' = page_size s" "clock s \<le> clock s'"
    "tid_tls_arr s' = (tid_tls_arr s)[i := Some (self, q)]" by (simp_all add: s'_def)
  obtain us vs where es: "entries s = us @ vs" "entries s' = us @ (self, q) # vs" by (rule entries_append [OF Some eq(6)])
  have nq: "q \<notin> snd ` set (us @ vs)" using tls_ready_not_live [OF c r] es(1) by (simp add: live_def)
  have nf: "self \<notin> fst ` set (us @ vs)" using r es(1) by (simp add: tls_ready_def get_tls_entries map_of_eq_None_iff image_Un)
  have lv: "live s' = insert q (live s)" by (auto simp: live_def es)
  have "core E s'" using coreD(1) [OF c] nq nf lv
    by (intro set_area_core [OF c r eq(1-5)]) (auto simp: eq arr_ok_def es)
  moreover have "get_tls tid s' = (if tid = self then Some q else get_tls tid s)" for tid
  proof -
    have "map_of us self = None" "map_of vs self = None" using nf by (simp_all add: map_of_eq_None_iff image_Un)
    then show ?thesis by (auto simp: get_tls_entries es map_add_def split: option.split)
  qed
  then have "lsa s' = (lsa s)(self \<mapsto> take (unat (tls_size t)) (concat (map (page_data s) (tls_pages t))))"
    using set_area_lsa [OF c r eq(1-3)] by (auto simp: lsa_def fun_eq_iff intro!: option.map_cong dest: get_tls_live)
  ultimately show thesis using that [of s'] f Some by (auto simp: limit_ok_def s'_def)
qed

end
