(* ===== verification/Call_Refinement.thy ===== *)
theory Call_Refinement
  imports Prelude
begin

text \<open>
  Libraries that are called again and again: a call of client \<open>i\<close> takes the state to a new one and
  gives an outcome, or is undefined. The locale \<open>call_refinement\<close> states that every call that meets
  its precondition is defined, keeps the invariant and does on the abstract state what the
  specification says; it follows for sequences of calls of any clients.
\<close>

fun run_all :: "('i \<Rightarrow> 'c \<Rightarrow> 's \<Rightarrow> ('o \<times> 's) option) \<Rightarrow> ('i \<times> 'c) list \<Rightarrow> 's \<Rightarrow> ('o list \<times> 's) option" where
  "run_all run [] s = Some ([], s)"
| "run_all run ((i, c) # cs) s = do {
     (out, s) \<leftarrow> run i c s;
     (outs, s) \<leftarrow> run_all run cs s;
     Some (out # outs, s) }"

fun spec_all :: "('i \<Rightarrow> 'c \<Rightarrow> 'a \<Rightarrow> 'o \<times> 'a) \<Rightarrow> ('i \<times> 'c) list \<Rightarrow> 'a \<Rightarrow> 'o list \<times> 'a" where
  "spec_all spec [] a = ([], a)"
| "spec_all spec ((i, c) # cs) a =
    (let (out, a) = spec i c a; (outs, a) = spec_all spec cs a in (out # outs, a))"

locale call_refinement =
  fixes run :: "'i \<Rightarrow> 'c \<Rightarrow> 's \<Rightarrow> ('o \<times> 's) option"
    and spec :: "'i \<Rightarrow> 'c \<Rightarrow> 'a \<Rightarrow> 'o \<times> 'a"
    and abs :: "'s \<Rightarrow> 'a"
    and inv :: "'s \<Rightarrow> bool"
    and pre :: "'c \<Rightarrow> bool"
  assumes step: "inv s \<Longrightarrow> pre c \<Longrightarrow> \<exists>out s'. run i c s = Some (out, s') \<and> inv s' \<and> spec i c (abs s) = (out, abs s')"
begin

lemma run_all_refines:
  "inv s \<Longrightarrow> \<forall>(i, c) \<in> set cs. pre c \<Longrightarrow>
    \<exists>outs s'. run_all run cs s = Some (outs, s') \<and> inv s' \<and> spec_all spec cs (abs s) = (outs, abs s')"
proof (induction cs arbitrary: s)
  case (Cons x cs)
  obtain i c where x: "x = (i, c)" by (cases x)
  from step [OF Cons.prems(1), of c i] Cons.prems(2) x obtain out s1
    where 1: "run i c s = Some (out, s1)" "inv s1" "spec i c (abs s) = (out, abs s1)" by auto
  from Cons.IH [OF 1(2)] Cons.prems(2) obtain outs s'
    where "run_all run cs s1 = Some (outs, s')" "inv s'" "spec_all spec cs (abs s1) = (outs, abs s')" by auto
  with 1 show ?case by (simp add: x)
qed simp

end

end
