(* ===== verification/Tls_Refine.thy ===== *)
theory Tls_Refine
  imports Tls_New Call_Refinement
begin

text \<open>
  The calls of the library on the abstract state: a map from threads to byte strings.
\<close>

section \<open>The number of areas\<close>

lemma length_filter_not_None: "length (filter (\<lambda>e. e \<noteq> None) es) < length es \<longleftrightarrow> None \<in> set es"
proof
  assume "length (filter (\<lambda>e. e \<noteq> None) es) < length es"
  then show "None \<in> set es" using filter_True [of es "\<lambda>e. e \<noteq> None"] by (metis less_irrefl)
qed (rule length_filter_less, simp_all)

lemma limit_ok_card:
  assumes "arr_ok s"
  shows "limit_ok s \<longleftrightarrow> card (dom (lsa s)) < MAX_THREAD_COUNT"
proof -
  have "dom (lsa s) = fst ` set (entries s)"
    by (auto simp: lsa_def get_tls_entries dom_map_of_conv_image_fst [symmetric] dom_def)
  then have "card (dom (lsa s)) = length (entries s)"
    using assms distinct_card [of "map fst (entries s)"] by (simp add: arr_ok_def)
  then show ?thesis using assms length_filter_not_None [of "tid_tls_arr s"] first_free_None [of "tid_tls_arr s"]
    by (simp add: limit_ok_def arr_ok_def entries_def)
qed

lemma lsa_None: "lsa s tid = None \<longleftrightarrow> get_tls tid s = None"
  by (simp add: lsa_def)

lemma check_tid_lsa: "check_tid_has_lsa tid s \<longleftrightarrow> lsa s tid \<noteq> None"
  by (simp add: check_tid_has_lsa_def lsa_def get_tls_def)

lemma lsa_eqI:
  assumes "tid_tls_arr s' = tid_tls_arr s" "tlss s' = tlss s"
    and "\<And>q p. q \<in> live s \<Longrightarrow> p \<in> set (pages_of s q) \<Longrightarrow> page_data s' p = page_data s p"
  shows "lsa s' = lsa s"
proof
  fix tid
  have "area s' q = area s q" if "get_tls tid s = Some q" for q
  proof -
    have "datas s' q = datas s q" using assms(2,3) get_tls_live [OF that] by (simp add: datas_def pages_of_def)
    then show ?thesis using assms(2) by (simp add: area_def split: option.split)
  qed
  then show "lsa s' tid = lsa s tid" using assms(1) by (cases "get_tls tid s") (simp_all add: lsa_def get_tls_def)
qed

lemma lsa_quiet: "quiet s s' \<Longrightarrow> lsa s' = lsa s"
  by (rule lsa_eqI) (auto simp: quiet_def page_data_def split: option.split)

section \<open>Creating an area\<close>

lemma pages_for_ok: "0 < ps \<Longrightarrow> \<exists>n. pages_for ps z = Some n \<and> z \<le> n * ps"
proof -
  assume "0 < ps"
  then have "z \<le> (z div ps + 1) * ps"
    using div_mult_mod_eq [of z ps] mod_less_divisor [of ps z] unfolding add_mult_distrib by linarith
  then show ?thesis using \<open>0 < ps\<close> by (auto simp: pages_for_def)
qed

lemma concat_replicate_replicate: "concat (replicate n (replicate m x)) = replicate (n * m) x"
  by (induction n) (simp_all add: replicate_add)

lemma init_ok:
  assumes E: "good_os E" and i: "tls_inv E s" and f: "is_first_time s"
  obtains s' where "tls_init E (s\<lparr>is_first_time := False\<rparr>) = (0, s')" "tls_inv E s'" "lsa s' = lsa s" "\<not> is_first_time s'"
    "limit_ok s' = limit_ok s"
proof -
  have e: "entries s = []" using i f by (simp add: tls_inv_def)
  have h: "(held s)(m := False, m' := False, m'' := False) = held s" for m m' m''
    using tls_invD(2) [OF i] by (simp add: fun_upd_idem)
  define s' where "s' = snd (tls_init E (s\<lparr>is_first_time := False\<rparr>))"
  have s': "tls_init E (s\<lparr>is_first_time := False\<rparr>) = (0, s')" "tid_tls_arr s' = tid_tls_arr s" "tlss s' = tlss s" "pages s' = pages s"
    "maps s' = maps s" "page_size s' = getpagesize E" "clock s \<le> clock s'" "held s' = held s" "\<not> is_first_time s'"
    using E h by (simp_all add: s'_def tls_init_def init_mutex_def sys_ok Let_def)
  have e': "entries s' = []" using e s'(2) by (simp add: entries_def)
  have u: "users s' = users s" "users s p = {}" for p using e e' by (simp_all add: users_def live_def fun_eq_iff)
  note hp = heap_okD [OF coreD(2) [OF tls_invD(1) [OF i]]]
  have "heap_ok E s'"
  proof (rule heap_okI; unfold s'(3,4) u(1))
    show "\<exists>n < clock s'. address pg = mmap_addr E n" if "pages s p = Some pg" for p pg
      using hp(3) [OF that] s'(7) by (auto intro: order.strict_trans2)
  qed (use hp s'(7) in \<open>blast intro: order.strict_trans2\<close>)+
  moreover have "arr_ok s'" using i s'(2) e' by (simp add: tls_inv_def arr_ok_def)
  ultimately have "tls_inv E s'" using tls_invD(2) [OF i] s'(6,8,9) by (simp add: tls_inv_def)
  moreover have "lsa s' = lsa s" using e e' by (simp add: lsa_def get_tls_entries fun_eq_iff)
  ultimately show thesis using that [of s'] s' by (simp add: limit_ok_def)
qed

lemma new_pages_ready:
  assumes E: "good_os E" and c: "core E s" and self: "lsa s self = None" and n: "unat sz \<le> n * page_size s"
  obtains pl s1 where "new_pages E n (s\<lparr>clock := clock s + 2\<rparr>) = (Some pl, s1)" "core E s1"
    "tls_ready s1 self (clock s) \<lparr>tls_tid = self, tls_size = sz, num_pages = n, tls_pages = pl\<rparr>"
    "map (page_data s1) pl = replicate n (replicate (page_size s) 0)" "lsa s1 = lsa s" "tid_tls_arr s1 = tid_tls_arr s"
    "page_size s1 = page_size s" "held s1 = held s" "is_first_time s1 = is_first_time s"
proof -
  define s0 where "s0 = s\<lparr>clock := clock s + 2\<rparr>"
  have q0: "quiet s s0" by (simp add: quiet_def s0_def)
  have s0: "page_data s0 = page_data s" "clock s0 = clock s + 2" "page_size s0 = page_size s" "tid_tls_arr s0 = tid_tls_arr s"
    "tlss s0 = tlss s" "held s0 = held s" "is_first_time s0 = is_first_time s"
    by (auto simp: s0_def page_data_def fun_eq_iff split: option.split)
  obtain pl s1 where s1: "new_pages E n s0 = (Some pl, s1)" "length pl = n" "core E s1" and fp: "fresh_pages s0 pl s1"
    using new_pages_ok [OF E quietD(1) [OF q0 c]] by blast
  have eq: "tid_tls_arr s1 = tid_tls_arr s" "tlss s1 = tlss s" "page_size s1 = page_size s" "held s1 = held s"
    "is_first_time s1 = is_first_time s" "clock s < clock s1"
    using fp s0 by (auto simp: fresh_pages_def)
  have pl: "distinct pl" "\<forall>p \<in> set pl. clock s \<le> p \<and> page_ok s1 p \<and> page_data s1 p = replicate (page_size s) 0 \<and>
      (\<exists>pg. pages s1 p = Some pg \<and> ref_count pg = 1)" and od: "\<forall>p < clock s. page_data s1 p = page_data s p"
    using fp s0 by (auto simp: fresh_pages_def)
  note h = heap_okD [OF coreD(2) [OF c]]
  have lt: "p < clock s" if "p \<in> set (pages_of s q)" for p q
    using that h(5) [of q _ p] by (cases "tlss s q") (auto simp: pages_of_def)
  have "users s1 p = {}" if "p \<in> set pl" for p
    using that pl(2) lt by (fastforce simp: users_def pages_of_def eq(2))
  moreover have "get_tls self s1 = None" using self by (simp add: lsa_None get_tls_def eq(1))
  moreover have "tlss s1 (clock s) = None" using h(4) [of "clock s"] by (cases "tlss s (clock s)") (auto simp: eq(2))
  ultimately have "tls_ready s1 self (clock s) \<lparr>tls_tid = self, tls_size = sz, num_pages = n, tls_pages = pl\<rparr>"
    using eq(3,6) pl n s1(2) by (fastforce simp: tls_ready_def tls_wf_def)
  moreover have "map (page_data s1) pl = replicate n (replicate (page_size s) 0)"
    using pl(2) s1(2) by (intro nth_equalityI) auto
  moreover have "lsa s1 = lsa s" by (rule lsa_eqI [OF eq(1,2)]) (use lt od in auto)
  ultimately show thesis using that s1(1,3) eq by (simp add: s0_def)
qed

lemma create_new_ok:
  assumes E: "good_os E" and i: "tls_inv E s" and f: "\<not> is_first_time s" and self: "lsa s self = None"
  obtains s' where "create_new_tls E sz False 0 self s = Some (if limit_ok s then 0 else - 1, s')" "tls_inv E s'"
    "lsa s' = (if limit_ok s then (lsa s)(self \<mapsto> replicate (unat sz) 0) else lsa s)"
proof -
  have ps: "page_size s = getpagesize E" "0 < page_size s" using i f E by (auto simp: tls_inv_def good_os_def)
  obtain n where n: "pages_for (page_size s) (unat sz) = Some n" "unat sz \<le> n * page_size s"
    using pages_for_ok [OF ps(2)] by blast
  obtain pl s1 where s1: "new_pages E n (s\<lparr>clock := clock s + 2\<rparr>) = (Some pl, s1)" "core E s1"
    and r: "tls_ready s1 self (clock s) \<lparr>tls_tid = self, tls_size = sz, num_pages = n, tls_pages = pl\<rparr>"
    and d: "map (page_data s1) pl = replicate n (replicate (page_size s) 0)" and l: "lsa s1 = lsa s"
    and eq: "tid_tls_arr s1 = tid_tls_arr s" "page_size s1 = page_size s" "held s1 = held s" "is_first_time s1 = is_first_time s"
    by (rule new_pages_ready [OF E tls_invD(1) [OF i] self n(2)])
  have z: "take (unat sz) (concat (map (page_data s1) pl)) = replicate (unat sz) 0"
    using n(2) by (simp add: d concat_replicate_replicate min_absorb1)
  obtain s' where s': "finish_tls E (clock s) \<lparr>tls_tid = self, tls_size = sz, num_pages = n, tls_pages = pl\<rparr> s1 = (if limit_ok s1 then 0 else - 1, s')"
    "core E s'" "lsa s' = (if limit_ok s1 then (lsa s1)(self \<mapsto> replicate (unat sz) 0) else lsa s1)"
    "page_size s' = page_size s1" "held s' = held s1" "is_first_time s' = is_first_time s1"
    by (rule finish_tls_ok [OF E s1(2) r]) (simp add: z)
  have lo: "limit_ok s1 = limit_ok s" by (simp add: limit_ok_def eq(1))
  have "tls_inv E s'" using s' f eq ps(1) tls_invD(2) [OF i] by (simp add: tls_inv_def core_def)
  moreover have "create_new_tls E sz False 0 self s = Some (if limit_ok s then 0 else - 1, s')"
    using E n(1) s1(1) s'(1) lo by (simp add: create_new_tls_def malloc_ok)
  ultimately show thesis using that s'(3) lo l by simp
qed

lemma tls_create_ok:
  assumes E: "good_os E" and i: "tls_inv E s" and z: "sz \<noteq> 0" and self: "lsa s self = None"
  obtains s' where "tls_create E sz self s = Some (if limit_ok s then 0 else - 1, s')" "tls_inv E s'"
    "lsa s' = (if limit_ok s then (lsa s)(self \<mapsto> replicate (unat sz) 0) else lsa s)"
proof (cases "is_first_time s")
  case True
  obtain s0 where s0: "tls_init E (s\<lparr>is_first_time := False\<rparr>) = (0, s0)" "tls_inv E s0" "lsa s0 = lsa s" "\<not> is_first_time s0"
    "limit_ok s0 = limit_ok s" by (rule init_ok [OF E i True])
  from create_new_ok [OF E s0(2,4), of self sz] self s0(3) obtain s' where
    "create_new_tls E sz False 0 self s0 = Some (if limit_ok s0 then 0 else - 1, s')" "tls_inv E s'"
    "lsa s' = (if limit_ok s0 then (lsa s0)(self \<mapsto> replicate (unat sz) 0) else lsa s0)" by auto
  with that [of s'] z self True s0 show thesis by (simp add: tls_create_def check_tid_lsa)
next
  case False
  from create_new_ok [OF E i False self, of sz] that z self False show thesis
    by (simp add: tls_create_def check_tid_lsa) blast
qed

section \<open>Cloning an area\<close>

lemma share_ready:
  assumes c: "core E s" and self: "lsa s self = None" and q: "get_tls tid s = Some q" "tlss s q = Some t"
    and n: "n = clock s"
  obtains s1 where "share_pages (tls_pages t) (s\<lparr>clock := clock s + 2\<rparr>) = Some s1" "core E s1"
    "tls_ready s1 self n \<lparr>tls_tid = self, tls_size = tls_size t, num_pages = num_pages t, tls_pages = tls_pages t\<rparr>"
    "page_data s1 = page_data s" "lsa s1 = lsa s" "tid_tls_arr s1 = tid_tls_arr s"
    "page_size s1 = page_size s" "held s1 = held s" "is_first_time s1 = is_first_time s"
proof -
  have wf: "tls_wf s t" using liveD [OF coreD(1) [OF c] get_tls_live [OF q(1)]] q(2) by simp
  define s1 where "s1 = s\<lparr>clock := clock s + 2, pages := (\<lambda>p. if p \<in> set (tls_pages t)
      then map_option (\<lambda>pg. pg\<lparr>ref_count := ref_count pg + 1\<rparr>) (pages s p) else pages s p)\<rparr>"
  have sh: "share_pages (tls_pages t) (s\<lparr>clock := clock s + 2\<rparr>) = Some s1"
    using wf by (subst share_pages_ok) (auto simp: tls_wf_def page_ok_def s1_def cong: if_cong)
  have eq: "tid_tls_arr s1 = tid_tls_arr s" "tlss s1 = tlss s" "maps s1 = maps s" "page_size s1 = page_size s" "clock s \<le> clock s1"
    "clock s < clock s1" "held s1 = held s" "is_first_time s1 = is_first_time s" by (simp_all add: s1_def)
  have "core E s1" "page_data s1 = page_data s" "page_ok s1 = page_ok s"
    by (rule shared_core [OF c eq(1-5)]; auto simp: s1_def option.map_comp comp_def split: if_splits)+
  note c1 = this
  note h = heap_okD [OF coreD(2) [OF c]]
  have u: "users s1 = users s" by (rule ext) (simp add: users_def live_cong [OF eq(1)] pages_of_def eq(2))
  have "\<exists>pg. pages s1 p = Some pg \<and> int (card (users s1 p)) + 1 \<le> ref_count pg" if p: "p \<in> set (tls_pages t)" for p
  proof -
    obtain pg where pg: "pages s p = Some pg" using p wf by (auto simp: tls_wf_def page_ok_def)
    have "pages s1 p = Some (pg\<lparr>ref_count := ref_count pg + 1\<rparr>)" using p by (simp add: s1_def pg)
    then show ?thesis using h(6) [OF pg] by (simp add: u)
  qed
  moreover have "tlss s1 (clock s) = None" using h(4) [of "clock s"] by (cases "tlss s (clock s)") (auto simp: eq(2))
  moreover have "get_tls self s1 = None" using self by (simp add: lsa_None get_tls_def eq(1))
  ultimately have "tls_ready s1 self n \<lparr>tls_tid = self, tls_size = tls_size t, num_pages = num_pages t, tls_pages = tls_pages t\<rparr>"
    using eq(4,6) wf n c1(3) by (simp add: tls_ready_def tls_wf_def)
  moreover have "lsa s1 = lsa s" by (rule lsa_eqI [OF eq(1,2)]) (simp add: c1(2))
  ultimately show thesis using that [OF sh c1(1)] c1(2) eq by blast
qed

lemma tls_clone_ok:
  assumes E: "good_os E" and i: "tls_inv E s" and self: "lsa s self = None" and bs: "lsa s tid = Some bs"
  obtains s' where "tls_clone E tid self s = Some (if limit_ok s then 0 else - 1, s')" "tls_inv E s'"
    "lsa s' = (if limit_ok s then (lsa s)(self \<mapsto> bs) else lsa s)"
proof -
  note c = tls_invD(1) [OF i]
  obtain q where q: "get_tls tid s = Some q" and a: "area s q = bs" using bs by (auto simp: lsa_def)
  obtain t where t: "tlss s q = Some t" "tls_wf s t" using arr_okD [OF coreD(1) [OF c] q] by blast
  note ft = tls_invD(3) [OF i q]
  define t' where "t' = \<lparr>tls_tid = self, tls_size = tls_size t, num_pages = num_pages t, tls_pages = tls_pages t\<rparr>"
  obtain s1 where s1: "share_pages (tls_pages t) (s\<lparr>clock := clock s + 2\<rparr>) = Some s1" "core E s1"
    and r: "tls_ready s1 self (clock s) t'" and l: "page_data s1 = page_data s" "lsa s1 = lsa s"
    and eq: "tid_tls_arr s1 = tid_tls_arr s" "page_size s1 = page_size s" "held s1 = held s" "is_first_time s1 = is_first_time s"
    by (rule share_ready [OF c self q t(1) refl]) (simp add: t'_def)
  have z: "take (unat (tls_size t')) (concat (map (page_data s1) (tls_pages t'))) = bs"
    using a t(1) by (simp add: t'_def l area_def datas_def pages_of_def)
  obtain s' where s': "finish_tls E (clock s) t' s1 = (if limit_ok s1 then 0 else - 1, s')"
    "core E s'" "lsa s' = (if limit_ok s1 then (lsa s1)(self \<mapsto> bs) else lsa s1)"
    "page_size s' = page_size s1" "held s' = held s1" "is_first_time s' = is_first_time s1"
    by (rule finish_tls_ok [OF E s1(2) r, unfolded z])
  have lo: "limit_ok s1 = limit_ok s" by (simp add: limit_ok_def eq(1))
  have "tls_inv E s'" using s' ft eq tls_invD(2) [OF i] by (simp add: tls_inv_def core_def)
  moreover have "get_tls tid (s\<lparr>clock := Suc (clock s)\<rparr>) = Some q" using q by (simp add: get_tls_def)
  then have "tls_clone E tid self s = Some (if limit_ok s then 0 else - 1, s')"
    using E s1(1) s'(1) lo self bs t by (simp add: tls_clone_def check_tid_lsa create_new_tls_def malloc_ok tls_wf_def t'_def)
  ultimately show thesis using that s'(3) lo l(2) by simp
qed

section \<open>Writing and reading an area\<close>

lemma tls_write_ok:
  assumes E: "good_os E" and i: "tls_inv E s" and bs: "lsa s self = Some bs"
    and len: "unat offset + unat len \<le> length bs" "0 < len" "unat len \<le> length buf"
  obtains s' where "tls_write E offset len buf self s = Some (Done 0, s')" "tls_inv E s'"
    "lsa s' = (lsa s)(self \<mapsto> overlay (unat offset) (take (unat len) buf) bs)"
proof -
  note c = tls_invD(1) [OF i]
  obtain q where q: "get_tls self s = Some q" and a: "area s q = bs" using bs by (auto simp: lsa_def)
  obtain t where t: "tlss s q = Some t" using arr_okD [OF coreD(1) [OF c] q] by blast
  note al = area_live [OF c get_tls_live [OF q] t, unfolded a]
  obtain s' where s': "tls_write E offset len buf self s = Some (Done 0, s')" "core E s'" "same_frame s s' q" "held s' = held s"
    "concat (datas s' q) = overlay (unat offset) (take (unat len) buf) (concat (datas s q))"
    by (rule tls_write_pages [OF E i q t _ len(2,3)]) (use len(1) al(2) in simp)
  have f: "tid_tls_arr s' = tid_tls_arr s" "sizes s' = sizes s" "page_size s' = page_size s" "is_first_time s' = is_first_time s"
    using s'(3) by (simp_all add: same_frame_def)
  have "area s' q = overlay (unat offset) (take (unat len) buf) bs"
    using t al(1-3) len(1,3) take_overlay_in [of "unat offset" "take (unat len) buf" "unat (tls_size t)" "concat (datas s q)"]
    by (simp add: area_sizes f(2)) (simp add: sizes_def s'(5))
  moreover have "area s' q' = area s q'" if "get_tls tid s = Some q'" "tid \<noteq> self" for tid q'
    using same_frame_area [OF s'(3) get_tls_live [OF that(1)]] live_unique [OF coreD(1) [OF c] that(1), of self] q that by auto
  ultimately have "lsa s' = (lsa s)(self \<mapsto> overlay (unat offset) (take (unat len) buf) bs)"
    using q by (auto simp: lsa_def get_tls_cong [OF f(1)] fun_eq_iff intro!: option.map_cong)
  moreover have "tls_inv E s'" using s'(2,4) f(3,4) tls_invD(2,3) [OF i] q by (simp add: tls_inv_def core_def)
  ultimately show thesis using that s'(1) by blast
qed

lemma tls_read_ok:
  assumes E: "good_os E" and i: "tls_inv E s" and bs: "lsa s self = Some bs"
    and len: "unat offset + unat len \<le> length bs" "0 < len" "unat len \<le> length buf"
  obtains s' where "tls_read E offset len buf self s = Some (Done 0, overlay 0 (take (unat len) (drop (unat offset) bs)) buf, s')"
    "tls_inv E s'" "lsa s' = lsa s"
proof -
  note c = tls_invD(1) [OF i]
  obtain q where q: "get_tls self s = Some q" and a: "area s q = bs" using bs by (auto simp: lsa_def)
  obtain t where t: "tlss s q = Some t" using arr_okD [OF coreD(1) [OF c] q] by blast
  note al = area_live [OF c get_tls_live [OF q] t, unfolded a]
  obtain s' where s': "tls_read E offset len buf self s =
      Some (Done 0, overlay 0 (take (unat len) (drop (unat offset) (concat (datas s q)))) buf, s')" "quiet s s'" "held s' = held s"
    by (rule tls_read_pages [OF E i q t _ len(2,3)]) (use len(1) al(2) in simp)
  have "take (unat len) (drop (unat offset) (concat (datas s q))) = take (unat len) (drop (unat offset) bs)"
    using al(1,2) len(1) by (simp add: drop_take min_absorb1)
  moreover have "tls_inv E s'" using quietD(1) [OF s'(2) c] s'(2,3) tls_invD(2,3) [OF i] q
    by (simp add: tls_inv_def core_def quiet_def)
  ultimately show thesis using that s'(1) lsa_quiet [OF s'(2)] by simp
qed

section \<open>The library as a whole\<close>

text \<open>A call of the interface, by a thread; \<open>run_call\<close> gives its result, its buffer and the new state.\<close>

datatype tls_call = TCreate u32 | TClone tid | TWrite u32 u32 "u8 list" | TRead u32 u32 "u8 list"

definition run_call :: "os \<Rightarrow> tid \<Rightarrow> tls_call \<Rightarrow> tstate \<Rightarrow> ((result \<times> u8 list) \<times> tstate) option" where
  "run_call E self c s = (case c of
     TCreate sz \<Rightarrow> map_option (\<lambda>(r, s). ((Done r, []), s)) (tls_create E sz self s)
   | TClone tid \<Rightarrow> map_option (\<lambda>(r, s). ((Done r, []), s)) (tls_clone E tid self s)
   | TWrite offset len buf \<Rightarrow> map_option (\<lambda>(r, s). ((r, buf), s)) (tls_write E offset len buf self s)
   | TRead offset len buf \<Rightarrow> map_option (\<lambda>(r, buf, s). ((r, buf), s)) (tls_read E offset len buf self s))"

text \<open>What the library promises: every thread has at most one private string of bytes.\<close>

definition spec_call :: "tid \<Rightarrow> tls_call \<Rightarrow> (tid \<rightharpoonup> u8 list) \<Rightarrow> (result \<times> u8 list) \<times> (tid \<rightharpoonup> u8 list)" where
  "spec_call self c m = (case c of
     TCreate sz \<Rightarrow>
       if sz = 0 \<or> m self \<noteq> None \<or> card (dom m) \<ge> MAX_THREAD_COUNT then ((Done (- 1), []), m)
       else ((Done 0, []), m(self \<mapsto> replicate (unat sz) 0))
   | TClone tid \<Rightarrow>
       if m self \<noteq> None \<or> m tid = None \<or> card (dom m) \<ge> MAX_THREAD_COUNT then ((Done (- 1), []), m)
       else ((Done 0, []), m(self := m tid))
   | TWrite offset len buf \<Rightarrow> (case m self of
       None \<Rightarrow> ((Done (- 1), buf), m)
     | Some bs \<Rightarrow> if unat offset + unat len > length bs then ((Done (- 1), buf), m)
         else ((Done 0, buf), m(self \<mapsto> overlay (unat offset) (take (unat len) buf) bs)))
   | TRead offset len buf \<Rightarrow> (case m self of
       None \<Rightarrow> ((Done (- 1), buf), m)
     | Some bs \<Rightarrow> if unat offset + unat len > length bs then ((Done (- 1), buf), m)
         else ((Done 0, overlay 0 (take (unat len) (drop (unat offset) bs)) buf), m)))"

text \<open>The calls the promise is about: the bytes lie in the caller's buffer, there is at least one, and their range does not wrap.\<close>

fun call_pre :: "tls_call \<Rightarrow> bool" where
  "call_pre (TWrite offset len buf) = (0 < len \<and> unat len \<le> length buf \<and> unat offset + unat len < 2 ^ 32)"
| "call_pre (TRead offset len buf) = (0 < len \<and> unat len \<le> length buf \<and> unat offset + unat len < 2 ^ 32)"
| "call_pre c = True"

lemma limit_ok_spec: "tls_inv E s \<Longrightarrow> limit_ok s \<longleftrightarrow> \<not> card (dom (lsa s)) \<ge> MAX_THREAD_COUNT"
  using limit_ok_card [of s] by (simp add: tls_inv_def not_le)

lemma run_create:
  assumes "good_os E" "tls_inv E s"
  shows "\<exists>o' s'. run_call E self (TCreate sz) s = Some (o', s') \<and> tls_inv E s' \<and> spec_call self (TCreate sz) (lsa s) = (o', lsa s')"
proof (cases "sz = 0 \<or> lsa s self \<noteq> None")
  case True
  then show ?thesis using assms(2) by (auto simp: run_call_def spec_call_def tls_create_def check_tid_lsa)
next
  case False
  then obtain s' where "tls_create E sz self s = Some (if limit_ok s then 0 else - 1, s')" "tls_inv E s'"
    "lsa s' = (if limit_ok s then (lsa s)(self \<mapsto> replicate (unat sz) 0) else lsa s)"
    using tls_create_ok [OF assms, of sz self] by auto
  with False show ?thesis by (auto simp: run_call_def spec_call_def limit_ok_spec [OF assms(2)])
qed

lemma run_clone:
  assumes "good_os E" "tls_inv E s"
  shows "\<exists>o' s'. run_call E self (TClone tid) s = Some (o', s') \<and> tls_inv E s' \<and> spec_call self (TClone tid) (lsa s) = (o', lsa s')"
proof (cases "lsa s self \<noteq> None \<or> lsa s tid = None")
  case True
  then show ?thesis using assms(2) by (auto simp: run_call_def spec_call_def tls_clone_def check_tid_lsa)
next
  case False
  then obtain bs where bs: "lsa s tid = Some bs" "lsa s self = None" by auto
  obtain s' where "tls_clone E tid self s = Some (if limit_ok s then 0 else - 1, s')" "tls_inv E s'"
    "lsa s' = (if limit_ok s then (lsa s)(self \<mapsto> bs) else lsa s)" by (rule tls_clone_ok [OF assms bs(2,1)])
  with bs show ?thesis by (auto simp: run_call_def spec_call_def limit_ok_spec [OF assms(2)])
qed

text \<open>The check of \<open>tls_write\<close> and \<open>tls_read\<close> on an area whose size is a 32-bit number.\<close>

lemma area_size:
  assumes "tls_inv E s" "get_tls self s = Some q"
  obtains t where "tlss s q = Some t" "length (area s q) = unat (tls_size t)"
  using arr_okD [OF coreD(1) [OF tls_invD(1) [OF assms(1)]] assms(2)]
    area_live(2) [OF tls_invD(1) [OF assms(1)] get_tls_live [OF assms(2)]] by blast

lemma tls_inv_page_size:
  assumes "tls_inv E s"
  shows "tls_inv E (s\<lparr>page_size := getpagesize E\<rparr>)" "lsa (s\<lparr>page_size := getpagesize E\<rparr>) = lsa s"
proof -
  define s' where "s' = s\<lparr>page_size := getpagesize E\<rparr>"
  have eq: "tid_tls_arr s' = tid_tls_arr s" "tlss s' = tlss s" "pages s' = pages s" "clock s' = clock s" "held s' = held s"
    "is_first_time s' = is_first_time s" "page_size s' = getpagesize E" by (simp_all add: s'_def)
  have "tls_inv E s' \<and> lsa s' = lsa s"
  proof (cases "is_first_time s")
    case True
    then have e: "entries s = []" using assms by (simp add: tls_inv_def)
    then have e': "entries s' = []" by (simp add: entries_def eq)
    have "users s' = users s" using e e' by (simp add: users_def live_def fun_eq_iff)
    then have "heap_ok E s'" using coreD(2) [OF tls_invD(1) [OF assms]] by (simp add: heap_ok_def eq)
    moreover have "lsa s' = lsa s" using e e' by (simp add: lsa_def get_tls_entries fun_eq_iff)
    ultimately show ?thesis using assms e e' True by (simp add: tls_inv_def arr_ok_def eq)
  next
    case False
    then have "s' = s" using assms by (simp add: tls_inv_def s'_def)
    then show ?thesis using assms by simp
  qed
  then show "tls_inv E (s\<lparr>page_size := getpagesize E\<rparr>)" "lsa (s\<lparr>page_size := getpagesize E\<rparr>) = lsa s"
    by (simp_all add: s'_def)
qed

lemma run_write:
  assumes "good_os E" "tls_inv E s" and pre: "call_pre (TWrite offset len buf)"
  shows "\<exists>o' s'. run_call E self (TWrite offset len buf) s = Some (o', s') \<and> tls_inv E s' \<and>
    spec_call self (TWrite offset len buf) (lsa s) = (o', lsa s')"
proof (cases "get_tls self s")
  case None
  then show ?thesis using assms(2) by (simp add: run_call_def spec_call_def tls_write_def lsa_def)
next
  case (Some q)
  obtain t where t: "tlss s q = Some t" "length (area s q) = unat (tls_size t)" by (rule area_size [OF assms(2) Some])
  have chk: "offset + len > tls_size t \<longleftrightarrow> unat offset + unat len > length (area s q)"
    using pre t(2) by (simp add: word_less_nat_alt unat_add_u32)
  have l: "lsa s self = Some (area s q)" using Some by (simp add: lsa_def)
  show ?thesis
  proof (cases "unat offset + unat len > length (area s q)")
    case True
    then show ?thesis using Some t l chk assms(2) by (simp add: run_call_def spec_call_def tls_write_def)
  next
    case False
    obtain s' where "tls_write E offset len buf self s = Some (Done 0, s')" "tls_inv E s'"
      "lsa s' = (lsa s)(self \<mapsto> overlay (unat offset) (take (unat len) buf) (area s q))"
      by (rule tls_write_ok [OF assms(1,2) l, of offset len buf]) (use False pre in auto)
    then show ?thesis using False l by (simp add: run_call_def spec_call_def)
  qed
qed

lemma run_read:
  assumes "good_os E" "tls_inv E s" and pre: "call_pre (TRead offset len buf)"
  shows "\<exists>o' s'. run_call E self (TRead offset len buf) s = Some (o', s') \<and> tls_inv E s' \<and>
    spec_call self (TRead offset len buf) (lsa s) = (o', lsa s')"
proof (cases "get_tls self s")
  case None
  then have "get_tls self (s\<lparr>page_size := getpagesize E\<rparr>) = None" by (simp add: get_tls_def)
  moreover have "lsa s self = None" using None by (simp add: lsa_def)
  ultimately show ?thesis using tls_inv_page_size [OF assms(2)] by (simp add: run_call_def spec_call_def tls_read_def)
next
  case (Some q)
  obtain t where t: "tlss s q = Some t" "length (area s q) = unat (tls_size t)" by (rule area_size [OF assms(2) Some])
  have chk: "offset + len > tls_size t \<longleftrightarrow> unat offset + unat len > length (area s q)"
    using pre t(2) by (simp add: word_less_nat_alt unat_add_u32)
  have l: "lsa s self = Some (area s q)" using Some by (simp add: lsa_def)
  show ?thesis
  proof (cases "unat offset + unat len > length (area s q)")
    case True
    moreover have "s\<lparr>page_size := getpagesize E\<rparr> = s" using tls_invD(3) [OF assms(2) Some] by simp
    ultimately show ?thesis using Some t l chk assms(2) by (simp add: run_call_def spec_call_def tls_read_def)
  next
    case False
    obtain s' where "tls_read E offset len buf self s =
        Some (Done 0, overlay 0 (take (unat len) (drop (unat offset) (area s q))) buf, s')" "tls_inv E s'" "lsa s' = lsa s"
      by (rule tls_read_ok [OF assms(1,2) l, of offset len buf]) (use False pre in auto)
    then show ?thesis using False l by (simp add: run_call_def spec_call_def)
  qed
qed

lemma run_call_refines:
  assumes "good_os E" "tls_inv E s" "call_pre c"
  shows "\<exists>o' s'. run_call E self c s = Some (o', s') \<and> tls_inv E s' \<and> spec_call self c (lsa s) = (o', lsa s')"
  by (cases c) (use run_create [OF assms(1,2)] run_clone [OF assms(1,2)] run_write [OF assms(1,2)]
      run_read [OF assms(1,2)] assms(3) in blast)+

section \<open>Starting\<close>

definition tls_start :: tstate where
  "tls_start = \<lparr>tid_tls_arr = replicate MAX_THREAD_COUNT None, tlss = Map.empty, pages = Map.empty, maps = Map.empty,
     page_size = 0, is_first_time = True, held = (\<lambda>m. False), clock = 0\<rparr>"

lemma tls_start_inv: "tls_inv E tls_start" "lsa tls_start = Map.empty"
  by (auto simp: tls_inv_def arr_ok_def heap_ok_def tls_start_def entries_def lsa_def get_tls_entries)

interpretation tls: call_refinement "run_call E" spec_call lsa "\<lambda>s. good_os E \<and> tls_inv E s" call_pre for E
  by unfold_locales (use run_call_refines in blast)

end
