(* ===== verification/Tls_Props.thy ===== *)
theory Tls_Props
  imports Tls_Refine
begin

text \<open>
  The properties of thread local storage: refinement of one private byte string per thread, what the
  error paths do, and which faults end a thread.
\<close>

section \<open>Releasing pages\<close>

lemma release_pages_arr:
  "release_pages E ps s = Some (b, s') \<Longrightarrow> tid_tls_arr s' = tid_tls_arr s"
proof (induction ps arbitrary: s)
  case (Cons p ps)
  then obtain pg where pg: "pages s p = Some pg" by (cases "pages s p") auto
  show ?case
  proof (cases "ref_count pg < 2")
    case True
    obtain d s1 where m: "munmap E (address pg) s = (d, s1)" by fastforce
    then have "tid_tls_arr s1 = tid_tls_arr s" by (auto simp: munmap_def split: if_splits)
    then show ?thesis using Cons.prems Cons.IH [of "s1\<lparr>pages := (pages s1)(p := None)\<rparr>"] pg True m by (auto split: if_splits)
  next
    case False
    then show ?thesis using Cons.prems Cons.IH [of "s\<lparr>pages := (pages s)(p \<mapsto> pg\<lparr>ref_count := ref_count pg - 1\<rparr>)\<rparr>"] pg by simp
  qed
qed simp

lemma release_pages_ok:
  assumes "good_os E"
  shows "distinct ps \<Longrightarrow> \<forall>p \<in> set ps. pages s p \<noteq> None \<Longrightarrow> \<exists>s'. release_pages E ps s = Some (True, s')"
proof (induction ps arbitrary: s)
  case (Cons p ps)
  then obtain pg where pg: "pages s p = Some pg" by auto
  have m: "munmap E (address pg) s = (True, s\<lparr>maps := (maps s)(address pg := None), clock := clock s + 1\<rparr>)"
    using assms by (simp add: munmap_def good_os_def)
  show ?case using Cons.prems pg m by (auto intro!: Cons.IH)
qed simp

lemma last_tid_in:
  "last_tid tid es tt = Some q \<Longrightarrow> tt \<noteq> Some q \<Longrightarrow> Some (tid, q) \<in> set es"
  by (induction tid es tt rule: last_tid.induct) (auto split: if_splits)

lemma last_tid_None: "last_tid tid es tt = None \<longleftrightarrow> tt = None \<and> find_tid tid es = None"
  by (induction tid es tt rule: last_tid.induct) auto

lemma last_tid_entry: "last_tid tid (tid_tls_arr s) None = Some q \<Longrightarrow> (tid, q) \<in> set (entries s)"
  using last_tid_in [of tid "tid_tls_arr s" None q] by (force simp: entries_def)

section \<open>Examples\<close>

definition os4 :: os where
  "os4 = \<lparr>getpagesize = 4, call_ok = (\<lambda>n. True), mmap_addr = (\<lambda>n. 4 * int n)\<rparr>"

definition os4_fails :: "nat \<Rightarrow> os" where
  "os4_fails k = os4\<lparr>call_ok := (\<lambda>n. n \<noteq> k)\<rparr>"

definition area4 :: tstate where
  "area4 = \<lparr>tid_tls_arr = Some (1, 0) # replicate 127 None, tlss = [0 \<mapsto> \<lparr>tls_tid = 1, tls_size = 4, num_pages = 1, tls_pages = [2]\<rparr>],
     pages = [2 \<mapsto> \<lparr>address = 12, ref_count = 1\<rparr>], maps = [12 \<mapsto> \<lparr>mp_data = [1, 2, 3, 4], mp_open = False\<rparr>],
     page_size = 4, is_first_time = False, held = (\<lambda>m. False), clock = 20\<rparr>"

definition demo_calls :: "(tid \<times> tls_call) list" where
  "demo_calls = [(1, TCreate 6), (1, TWrite 2 3 [7, 8, 9]), (2, TClone 1), (2, TWrite 3 1 [5]), (1, TRead 1 5 [0, 0, 0, 0, 0]),
     (2, TRead 2 3 [0, 0, 0]), (2, TRead 5 2 [0, 0])]"

lemma limit_ok_start: "limit_ok tls_start"
  by (simp add: limit_ok_def tls_start_def first_free_None [symmetric] MAX_THREAD_COUNT_def numeral_eq_Suc)

lemma os4_good: "good_os os4"
  by (simp add: good_os_def os4_def inj_def)

section \<open>Properties\<close>

text \<open>
  C3. With an operating system that never fails, every sequence of calls of \<open>tls_create\<close>,
  \<open>tls_clone\<close>, \<open>tls_write\<close> and \<open>tls_read\<close> by any threads, from the start of the program, is defined
  and gives the results and buffers of the specification, in which every thread has at most one
  private string of bytes: a new area is full of zeros, a clone starts with the bytes of its original,
  a write changes the area of its own thread only, although pages are shared until they are written,
  and a read returns the bytes of its own area. All error returns are those of the specification.
  The ranges given to \<open>tls_write\<close> and \<open>tls_read\<close> are not empty, lie within the buffer passed and do not
  wrap around in 32 bits.
\<close>

theorem tls_refines:
  assumes "good_os E" and "\<forall>(self, c) \<in> set cs. call_pre c"
  shows "\<exists>outs s'. run_all (run_call E) cs tls_start = Some (outs, s') \<and> tls_inv E s' \<and>
    spec_all spec_call cs Map.empty = (outs, lsa s')"
  using tls.run_all_refines [where E = E and s = tls_start and cs = cs] assms tls_start_inv by simp

theorem tls_refines_witness:
  "\<exists>s'. run_all (run_call os4) demo_calls tls_start = Some ([(Done 0, []), (Done 0, [7, 8, 9]), (Done 0, []), (Done 0, [5]),
     (Done 0, [0, 7, 8, 9, 0]), (Done 0, [7, 5, 9]), (Done (- 1), [0, 0])], s')"
proof -
  have "fst (spec_all spec_call demo_calls Map.empty) = [(Done 0, []), (Done 0, [7, 8, 9]), (Done 0, []), (Done 0, [5]),
     (Done 0, [0, 7, 8, 9, 0]), (Done 0, [7, 5, 9]), (Done (- 1), [0, 0])]"
    by (simp add: demo_calls_def spec_call_def MAX_THREAD_COUNT_def overlay_def Let_def)
  moreover have "\<forall>(self, c) \<in> set demo_calls. call_pre c" by (simp add: demo_calls_def)
  ultimately show ?thesis using tls_refines [OF os4_good, of demo_calls] by auto
qed

text \<open>
  C32. \<open>tls_destroy\<close> never succeeds: for a thread without an area it returns -1, for a thread with
  one it releases the pages and then stores to \<open>tid_tls_arr[MAX_THREAD_COUNT]\<close>, past the end of the
  array, because its search loop has no \<open>break\<close>.
\<close>

theorem tls_destroy_undefined:
  assumes "good_os E" and "tls_inv E s"
  shows "tls_destroy E self s = (if lsa s self = None then Some (- 1, s) else None)"
proof (cases "last_tid self (tid_tls_arr s) None")
  case None
  then have "lsa s self = None" by (simp add: lsa_None get_tls_def last_tid_None)
  with None show ?thesis by (simp add: tls_destroy_def)
next
  case (Some q)
  note arr = coreD(1) [OF tls_invD(1) [OF assms(2)]]
  have "lsa s self \<noteq> None" using Some last_tid_None [of self "tid_tls_arr s" None] by (simp add: lsa_None get_tls_def)
  moreover obtain t where t: "tlss s q = Some t" "tls_wf s t"
    using last_tid_entry [OF Some] arr by (auto simp: arr_ok_def)
  obtain s1 where s1: "release_pages E (tls_pages t) s = Some (True, s1)"
    using release_pages_ok [OF assms(1), of "tls_pages t" s] t(2) by (auto simp: tls_wf_def page_ok_def)
  have "length (tid_tls_arr s1) = MAX_THREAD_COUNT" using release_pages_arr [OF s1] arr by (simp add: arr_ok_def)
  ultimately show ?thesis using Some t s1 by (simp add: tls_destroy_def tls_wf_def upd_opt_def)
qed

theorem tls_destroy_undefined_witness:
  "\<exists>s. tls_create os4 3 1 tls_start = Some (0, s) \<and> tls_destroy os4 1 s = None \<and> tls_destroy os4 2 s = Some (- 1, s)"
proof -
  obtain s where s: "tls_create os4 3 1 tls_start = Some (0, s)" "tls_inv os4 s" "lsa s = [1 \<mapsto> replicate 3 0]"
    by (rule tls_create_ok [OF os4_good tls_start_inv(1), of 3 1])
      (simp_all add: limit_ok_start tls_start_inv(2))
  then show ?thesis using tls_destroy_undefined [OF os4_good s(2)] by simp
qed


text \<open>
  C39. The range check adds two 32-bit numbers. Whenever the sum passes the check while the offset
  lies behind the last page (the sum has wrapped, or nothing is to be copied at the end of an area that
  fills its pages) both \<open>tls_write\<close> and \<open>tls_read\<close> read their first page from outside the array of pages.
\<close>

theorem tls_range_wraps:
  assumes "get_tls self s = Some q" and "tlss s q = Some t" and "0 < getpagesize E" and "page_size s = getpagesize E"
    and "offset + len \<le> tls_size t" and "length (tls_pages t) * page_size s \<le> unat offset"
  shows "tls_write E offset len buf self s = None \<and> tls_read E offset len buf self s = None"
proof -
  have "\<not> unat offset div page_size s < length (tls_pages t)"
    using assms(3,4,6) by (simp add: not_less less_eq_div_iff_mult_less_eq)
  moreover have id: "s\<lparr>page_size := getpagesize E\<rparr> = s" using assms(4) by simp
  ultimately show ?thesis
    using assms unfolding tls_write_def tls_read_def Let_def id by (simp_all add: nth_opt_def not_less)
qed

theorem tls_range_wraps_witness:
  "tls_write os4 4096 (- 4096) [] 1 area4 = None \<and> tls_read os4 4 0 [] 1 area4 = None"
  using tls_range_wraps [of 1 area4 0 "\<lparr>tls_tid = 1, tls_size = 4, num_pages = 1, tls_pages = [2]\<rparr>" os4 4096 "- 4096" "[]"]
    tls_range_wraps [of 1 area4 0 "\<lparr>tls_tid = 1, tls_size = 4, num_pages = 1, tls_pages = [2]\<rparr>" os4 4 0 "[]"]
  by (simp add: area4_def os4_def get_tls_def)

section \<open>Mutexes on the error paths\<close>

lemma mprotect_held: "mprotect E a b s = (r, s') \<Longrightarrow> held s' = held s"
  by (auto simp: mprotect_def split: option.splits if_splits)

lemma protect_held:
  "tls_protect E p s = Some (r, s') \<Longrightarrow> held s' = held s" "tls_unprotect E p s = Some (r, s') \<Longrightarrow> held s' = held s"
  by (auto simp: tls_protect_def tls_unprotect_def Option_bind_eq_Some_conv dest: mprotect_held)

lemma store_held: "store a off bs s = Some s' \<Longrightarrow> held s' = held s"
  by (auto simp: store_def Option_bind_eq_Some_conv split: if_splits)

lemma call_held:
  "sys E s = (b, s') \<Longrightarrow> held s' = held s" "malloc E s = (c, s') \<Longrightarrow> held s' = held s" "mmap E s = (a, s') \<Longrightarrow> held s' = held s"
  "mutex_lock E Mutex_copy s = (b, s') \<Longrightarrow> held s' Mutex_write = held s Mutex_write"
  "mutex_unlock E Mutex_copy s = (b, s') \<Longrightarrow> held s' Mutex_write = held s Mutex_write"
  by (auto simp: sys_def malloc_def mmap_def mutex_lock_def mutex_unlock_def split: if_splits)

text \<open>While a write is under way its mutex stays held; only its last call releases it.\<close>

definition keeps_write :: "(result \<times> tstate) option \<Rightarrow> bool" where
  "keeps_write = ensures (\<lambda>(r, s'). r = Done (- 1) \<longrightarrow> held s' Mutex_write)"

lemma copy_page_held: "held s Mutex_write \<Longrightarrow> ensures (\<lambda>(r, s'). held s' Mutex_write) (copy_page E q p i s)"
  unfolding copy_page_def Let_def
  by (intro ensures_intros) (auto dest!: call_held protect_held store_held split: if_splits)

lemma write_mapped_held: "held s Mutex_write \<Longrightarrow> ensures (\<lambda>(r, s'). held s' Mutex_write) (write_mapped E q i off bs s)"
  unfolding write_mapped_def
  by (intro ensures_intros) (auto dest!: protect_held store_held split: if_splits)

lemma copy_page_heldD: "copy_page E q p i s = Some (r, s') \<Longrightarrow> held s Mutex_write \<Longrightarrow> held s' Mutex_write"
  using ensuresD [OF copy_page_held] by fastforce

lemma write_page_held: "held s Mutex_write \<Longrightarrow> ensures (\<lambda>(r, s'). held s' Mutex_write) (write_page E q i off bs s)"
  unfolding write_page_def
  by (intro ensures_intros) (auto intro!: write_mapped_held dest: copy_page_heldD)

lemma write_page_heldD: "write_page E q i off bs s = Some (r, s') \<Longrightarrow> held s Mutex_write \<Longrightarrow> held s' Mutex_write"
  using ensuresD [OF write_page_held] by fastforce

lemma write_end_held: "held s Mutex_write \<Longrightarrow> keeps_write (write_end E s)"
  by (auto simp: keeps_write_def ensures_def write_end_def mutex_unlock_def sys_def split: if_splits)

lemma write_loop_held: "held s Mutex_write \<Longrightarrow> keeps_write (write_loop E ps q i len w buf s)"
proof (induction "len - w" arbitrary: i w s rule: less_induct)
  case less
  have IH: "ensures (\<lambda>(r, s'). r = Done (- 1) \<longrightarrow> held s' Mutex_write) (write_loop E ps q (Suc i) len (w + ps) buf s')"
    if "w < len" "0 < ps" "held s' Mutex_write" for s'
    using that less(1) [of "w + ps" s' "Suc i"] by (simp add: keeps_write_def)
  show ?case
    unfolding keeps_write_def using less(2)
    by (subst write_loop.simps, intro ensures_intros)
      (auto intro!: IH write_end_held [unfolded keeps_write_def] dest: write_page_heldD simp del: write_loop.simps)
qed

lemma mutex_lock_held: "mutex_lock E m s = (b, s') \<Longrightarrow> b = call_ok E (clock s) \<and> (b \<longrightarrow> held s' m)"
  by (auto simp: mutex_lock_def sys_def split: if_splits)

text \<open>
  C40. The error returns of \<open>tls_write\<close> behind the check keep \<open>mutex_write\<close>: after a write that
  returned -1 there, every later write of any thread that passes its check waits for ever.
\<close>

theorem tls_write_error_blocks:
  assumes "tls_write E offset len buf self s = Some (Done (- 1), s')"
    and "get_tls self s = Some q" and "tlss s q = Some t" and "offset + len \<le> tls_size t" and "call_ok E (clock s)"
    and "get_tls self' s' = Some q'" and "tlss s' q' = Some t'" and "offset' + len' \<le> tls_size t'"
    and "0 < page_size s'" and "unat offset' div page_size s' < length (tls_pages t')"
  shows "tls_write E' offset' len' buf' self' s' = Some (Stuck, s')"
proof -
  have "ensures (\<lambda>(r, s'). r = Done (- 1) \<longrightarrow> held s' Mutex_write) (tls_write E offset len buf self s)"
    unfolding tls_write_def Let_def
    using assms(2-5)
    by (intro ensures_intros)
      (auto intro!: write_end_held [unfolded keeps_write_def] write_loop_held [unfolded keeps_write_def]
        dest!: mutex_lock_held dest: write_page_heldD simp del: write_loop.simps)
  from ensuresD [OF this assms(1)] have "held s' Mutex_write" by simp
  then show ?thesis using assms(6-10) by (simp add: tls_write_def nth_opt_def Let_def not_less)
qed

theorem tls_write_error_blocks_witness:
  "\<exists>s'. tls_write (os4_fails 21) 1 2 [9, 9] 1 area4 = Some (Done (- 1), s') \<and> tls_write os4 1 2 [9, 9] 1 s' = Some (Stuck, s')"
proof -
  define s' where "s' = area4\<lparr>clock := 22, held := (held area4)(Mutex_write := True)\<rparr>"
  define t where "t = \<lparr>tls_tid = 1, tls_size = 4, num_pages = 1, tls_pages = [2 :: nat]\<rparr>"
  have "tls_write (os4_fails 21) 1 2 [9, 9] 1 area4 = Some (Done (- 1), s')"
    by (simp add: tls_write_def area4_def os4_def os4_fails_def get_tls_def nth_opt_def mutex_lock_def sys_def write_page_def
        write_mapped_def tls_unprotect_def mprotect_def mem_read_def s'_def)
  moreover from tls_write_error_blocks [OF this, of 0 t 1 0 t 1 2 os4 "[9, 9]"] have "tls_write os4 1 2 [9, 9] 1 s' = Some (Stuck, s')"
    by (simp add: area4_def os4_def os4_fails_def get_tls_def t_def s'_def)
  ultimately show ?thesis by blast
qed

section \<open>Page faults\<close>

lemma and_not_low_bits: "a AND NOT (2 ^ k - 1) = a - a mod 2 ^ k" for a :: int
proof -
  have "a AND NOT (mask k) = push_bit k (drop_bit k a)" by (rule bit_eqI) (auto simp: bit_simps)
  then show ?thesis
    by (simp add: mask_eq_exp_minus_1 push_bit_eq_mult drop_bit_eq_div minus_mod_eq_div_mult)
qed

lemma fault_in_pages_iff:
  "\<forall>p \<in> set ps. pages s p \<noteq> None \<Longrightarrow>
    fault_in_pages a ps s = Some (\<exists>p \<in> set ps. \<exists>pg. pages s p = Some pg \<and> address pg = a)"
  by (induction ps) auto

definition hit :: "tstate \<Rightarrow> addr \<Rightarrow> nat \<Rightarrow> bool" where
  "hit s a q \<longleftrightarrow> (\<exists>p \<in> set (pages_of s q). \<exists>pg. pages s p = Some pg \<and> address pg = a)"

lemma fault_in_arr_iff:
  "\<forall>t q. Some (t, q) \<in> set es \<longrightarrow> (\<exists>tl. tlss s q = Some tl \<and> num_pages tl = length (tls_pages tl) \<and>
      (\<forall>p \<in> set (tls_pages tl). pages s p \<noteq> None)) \<Longrightarrow>
    fault_in_arr a es s = Some (\<exists>t q. Some (t, q) \<in> set es \<and> hit s a q)"
proof (induction es)
  case (Cons e es)
  then have IH: "fault_in_arr a es s = Some (\<exists>t q. Some (t, q) \<in> set es \<and> hit s a q)" by simp
  show ?case
  proof (cases e)
    case (Some x)
    obtain t q where x: "x = (t, q)" by (cases x)
    have "Some (t, q) \<in> set (e # es)" using Some x by simp
    with Cons.prems obtain tl where tl: "tlss s q = Some tl" "num_pages tl = length (tls_pages tl)"
      "\<forall>p \<in> set (tls_pages tl). pages s p \<noteq> None" by blast
    then have "fault_in_pages a (take (num_pages tl) (tls_pages tl)) s = Some (hit s a q)"
      by (simp add: fault_in_pages_iff hit_def pages_of_def)
    then show ?thesis using tl(1) IH by (auto simp: Some x)
  qed (simp add: IH)
qed simp

lemma live_arr: "q \<in> live s \<longleftrightarrow> (\<exists>t. Some (t, q) \<in> set (tid_tls_arr s))"
  by (force simp: live_def entries_def image_iff)

lemma page_start: "b mod 2 ^ k = 0 \<Longrightarrow> a - a mod 2 ^ k = b \<longleftrightarrow> b \<le> a \<and> a < b + 2 ^ k" for a b :: int
proof -
  assume "b mod 2 ^ k = 0"
  then obtain c where c: "b = 2 ^ k * c" by auto
  have "a - a mod 2 ^ k = 2 ^ k * (a div 2 ^ k)" by (simp add: minus_mod_eq_mult_div)
  then have "a - a mod 2 ^ k = b \<longleftrightarrow> a div 2 ^ k = c" by (simp add: c)
  also have "\<dots> \<longleftrightarrow> b \<le> a \<and> a < b + 2 ^ k"
  proof
    assume "a div 2 ^ k = c"
    then have "a = b + a mod 2 ^ k" using mult_div_mod_eq [of "2 ^ k" a] by (simp add: c)
    then show "b \<le> a \<and> a < b + 2 ^ k"
      using pos_mod_bound [of "2 ^ k" a] pos_mod_sign [of "2 ^ k" a] zero_less_power [of "2 :: int" k] by linarith
  next
    assume "b \<le> a \<and> a < b + 2 ^ k"
    then show "a div 2 ^ k = c" using int_div_pos_eq [of a "2 ^ k" c "a - b"] by (simp add: c)
  qed
  finally show ?thesis .
qed

text \<open>
  C38. The handler of page faults ends exactly the thread whose faulting address lies in a page of
  some area; any other fault gets the default action. The page size is a power of two and pages
  start at multiples of it.
\<close>

theorem fault_handler_exact:
  assumes "tls_inv E s" and "page_size s = 2 ^ k"
    and "\<forall>q \<in> live s. \<forall>p \<in> set (pages_of s q). \<forall>pg. pages s p = Some pg \<longrightarrow> address pg mod 2 ^ k = 0"
  shows "tls_handle_page_fault a s = Some (if \<exists>q \<in> live s. \<exists>p \<in> set (pages_of s q). \<exists>pg. pages s p = Some pg \<and>
      address pg \<le> a \<and> a < address pg + int (page_size s) then Thread_exit else Default_action)"
proof -
  have ok: "\<exists>tl. tlss s q = Some tl \<and> num_pages tl = length (tls_pages tl) \<and> (\<forall>p \<in> set (tls_pages tl). pages s p \<noteq> None)"
    if "Some (t, q) \<in> set (tid_tls_arr s)" for t q
    using liveD [OF coreD(1) [OF tls_invD(1) [OF assms(1)]], of q] that live_arr [of q s] by (fastforce simp: tls_wf_def page_ok_def)
  have fa: "is_fault_in_tls_space b s = Some (\<exists>q \<in> live s. hit s b q)" for b
  proof -
    have "(\<exists>q \<in> live s. hit s b q) \<longleftrightarrow> (\<exists>t q. Some (t, q) \<in> set (tid_tls_arr s) \<and> hit s b q)" using live_arr by blast
    then show ?thesis using fault_in_arr_iff [of "tid_tls_arr s" s b] ok by (simp add: is_fault_in_tls_space_def)
  qed
  have at: "address pg = a - a mod 2 ^ k \<longleftrightarrow> address pg \<le> a \<and> a < address pg + int (page_size s)"
    if "q \<in> live s" "p \<in> set (pages_of s q)" "pages s p = Some pg" for q p pg
  proof -
    have "address pg mod 2 ^ k = 0" using assms(3) that by blast
    from page_start [OF this, of a] show ?thesis by (auto simp: assms(2))
  qed
  have "hit s (a - a mod 2 ^ k) q \<longleftrightarrow> (\<exists>p \<in> set (pages_of s q). \<exists>pg. pages s p = Some pg \<and>
      address pg \<le> a \<and> a < address pg + int (page_size s))" if "q \<in> live s" for q
    unfolding hit_def using at [OF that] by blast
  then have "(\<exists>q \<in> live s. hit s (a - a mod 2 ^ k) q) \<longleftrightarrow> (\<exists>q \<in> live s. \<exists>p \<in> set (pages_of s q). \<exists>pg. pages s p = Some pg \<and>
      address pg \<le> a \<and> a < address pg + int (page_size s))" by blast
  then show ?thesis using fa [of "a - a mod 2 ^ k"] by (simp add: tls_handle_page_fault_def and_not_low_bits assms(2))
qed

theorem fault_handler_exact_witness:
  "\<exists>s a. tls_create os4 3 1 tls_start = Some (0, s) \<and> tls_handle_page_fault a s = Some Thread_exit \<and>
     tls_handle_page_fault (- 1) s = Some Default_action"
proof -
  obtain s where s: "tls_create os4 3 1 tls_start = Some (0, s)" "tls_inv os4 s" "lsa s = [1 \<mapsto> replicate 3 0]"
    by (rule tls_create_ok [OF os4_good tls_start_inv(1), of 3 1])
      (simp_all add: limit_ok_start tls_start_inv(2))
  note c = tls_invD(1) [OF s(2)]
  obtain q where q: "get_tls 1 s = Some q" "area s q = replicate 3 0" using s(3) by (auto simp: lsa_def fun_eq_iff split: if_splits)
  obtain t where t: "tlss s q = Some t" using liveD [OF coreD(1) [OF c] get_tls_live [OF q(1)]] by blast
  have ps: "page_size s = 2 ^ 2" using tls_invD(3) [OF s(2) q(1)] by (simp add: os4_def)
  have "0 < length (tls_pages t)" using area_live [OF c get_tls_live [OF q(1)] t] datas_length(2) [OF c get_tls_live [OF q(1)]] q(2)
    by (cases "tls_pages t") (auto simp: datas_def pages_of_def)
  then obtain pg where pg: "pages s (tls_pages t ! 0) = Some pg" "tls_pages t ! 0 \<in> set (pages_of s q)"
    using live_page [OF c get_tls_live [OF q(1)] t, of 0] t by (auto simp: pages_of_def)
  have al: "address pg mod 2 ^ 2 = 0 \<and> 0 \<le> address pg" if "pages s p = Some pg" for p pg
    using heap_okD(3) [OF coreD(2) [OF c] that] by (auto simp: os4_def)
  then have "\<forall>q \<in> live s. \<forall>p \<in> set (pages_of s q). \<forall>pg. pages s p = Some pg \<longrightarrow> address pg mod 2 ^ 2 = 0" by blast
  note f = fault_handler_exact [OF s(2) ps this]
  have "\<exists>q \<in> live s. \<exists>p \<in> set (pages_of s q). \<exists>pg'. pages s p = Some pg' \<and> address pg' \<le> address pg \<and> address pg < address pg' + int (page_size s)"
    using pg ps by (intro bexI [OF _ get_tls_live [OF q(1)]] bexI [OF _ pg(2)] exI [of _ pg]) simp
  then have "tls_handle_page_fault (address pg) s = Some Thread_exit" by (simp add: f)
  moreover have "tls_handle_page_fault (- 1) s = Some Default_action" using al by (force simp: f)
  ultimately show ?thesis using s(1) by blast
qed

end
