(* ===== verification/Shell_Lex.thy ===== *)
theory Shell_Lex
  imports Prelude
begin

text \<open>
  The tokenizer of the shell, \<open>find_tokens\<close> and \<open>find_num_cmds\<close> of
  \<open>simple_shell/src/myshell_parser.c\<close>, and a reference tokenizer.

  A token is copied into a block of exactly its length, without a terminating zero byte, and is read
  with \<open>strcmp\<close> later. What is read behind the block depends on the allocator: the parameter \<open>M\<close>
  gives, for the \<open>j\<close>-th token, the characters from the end of its block to the next zero byte. A token
  is represented by the string that \<open>strcmp\<close> sees. Allocations succeed; the byte that \<open>strcpy\<close> writes
  behind \<open>cl_cpy\<close> is not represented.
\<close>

type_synonym residue = "nat \<Rightarrow> string"

definition MAX_LINE_LENGTH :: nat where [c_consts]: "MAX_LINE_LENGTH = 512"
definition MAX_ARGV_LENGTH :: nat where [c_consts]: "MAX_ARGV_LENGTH = MAX_LINE_LENGTH div 2 + 1"

definition isWhiteSpace :: "char \<Rightarrow> bool" where
  "isWhiteSpace c \<longleftrightarrow> c = CHR 0x0A \<or> c = CHR 0x09 \<or> c = CHR '' ''"

definition isSpecialToken :: "char \<Rightarrow> bool" where
  "isSpecialToken c \<longleftrightarrow> c = CHR ''|'' \<or> c = CHR ''<'' \<or> c = CHR ''>'' \<or> c = CHR ''&''"

text \<open>The array of token pointers has room for 8-byte pointers in \<open>MAX_ARGV_LENGTH * MAX_LINE_LENGTH\<close> bytes.\<close>

definition push_token :: "residue \<Rightarrow> string \<Rightarrow> string list \<Rightarrow> string list option" where
  "push_token M t tokens =
    (if length tokens < MAX_ARGV_LENGTH * MAX_LINE_LENGTH div 8 then Some (tokens @ [t @ M (length tokens)]) else None)"

fun scan_line :: "residue \<Rightarrow> nat \<Rightarrow> string \<Rightarrow> string \<Rightarrow> string list \<Rightarrow> string list option" where
  "scan_line M cl_length [] token tokens = Some tokens"
| "scan_line M cl_length (c # cs) token tokens =
    (if isWhiteSpace c then
       if token \<noteq> [] then do {
         tokens \<leftarrow> push_token M token tokens;
         scan_line M cl_length cs [] tokens }
       else scan_line M cl_length cs token tokens
     else if isSpecialToken c then
       if token \<noteq> [] then do {
         tokens \<leftarrow> push_token M token tokens;
         tokens \<leftarrow> push_token M [c] tokens;
         scan_line M cl_length cs [] tokens }
       else do {
         tokens \<leftarrow> push_token M [c] tokens;
         scan_line M cl_length cs token tokens }
     else if length token < cl_length then scan_line M cl_length cs (token @ [c]) tokens
     else None)"

definition find_tokens :: "residue \<Rightarrow> string \<Rightarrow> string list option" where
  "find_tokens M command_line =
    (let cl = takeWhile (\<lambda>c. c \<noteq> CHR 0x00) command_line in scan_line M (length cl) cl [] [])"

fun find_num_cmds :: "string list \<Rightarrow> nat" where
  "find_num_cmds [] = 1"
| "find_num_cmds (t # ts) = (if t = ''|'' then find_num_cmds ts + 1 else find_num_cmds ts)"

section \<open>The reference tokenizer\<close>

definition word_char :: "char \<Rightarrow> bool" where
  "word_char c \<longleftrightarrow> \<not> isWhiteSpace c \<and> \<not> isSpecialToken c"

function lex_line :: "string \<Rightarrow> string list" where
  "lex_line [] = []"
| "lex_line (c # cs) =
    (if isWhiteSpace c then lex_line cs
     else if isSpecialToken c then [c] # lex_line cs
     else (c # takeWhile word_char cs) # lex_line (dropWhile word_char cs))"
  by pat_completeness auto
termination by (relation "measure length") (auto simp: le_imp_less_Suc length_dropWhile_le)

text \<open>The tokens of a line, the word at the very end left out when no blank or operator ends it.\<close>

definition lex_closed :: "string \<Rightarrow> string list" where
  "lex_closed cl = (if cl \<noteq> [] \<and> word_char (last cl) then butlast (lex_line cl) else lex_line cl)"

definition place :: "residue \<Rightarrow> nat \<Rightarrow> string list \<Rightarrow> string list" where
  "place M n ts = map (\<lambda>(j, t). t @ M (n + j)) (enumerate 0 ts)"

lemma place_simps [simp]: "place M n [] = []" "place M n (t # ts) = (t @ M n) # place M (n + 1) ts"
  by (simp_all add: place_def enumerate_Suc_eq comp_def case_prod_beta)

lemma length_place [simp]: "length (place M n ts) = length ts"
  by (simp add: place_def)

lemma place_append: "place M n (xs @ ys) = place M n xs @ place M (n + length xs) ys"
  by (induction xs arbitrary: n) simp_all

lemma place_zero: "(\<And>j. M j = []) \<Longrightarrow> place M n ts = ts"
  by (induction ts arbitrary: n) simp_all

text \<open>The scan with a word \<open>token\<close> begun, against the tokens of \<open>token\<close> and the rest of the line.\<close>

lemma lex_word:
  assumes "token \<noteq> []" "\<forall>c \<in> set token. word_char c" "cs = [] \<or> \<not> word_char (hd cs)"
  shows "lex_line (token @ cs) = token # lex_line cs"
proof -
  from assms(1) obtain c t where t: "token = c # t" by (cases token) auto
  have "takeWhile word_char (t @ cs) = t" "dropWhile word_char (t @ cs) = cs"
    using assms(2,3) t by (cases cs; simp)+
  then show ?thesis using assms(2) t by (simp add: word_char_def)
qed

lemma lex_line_Nil_iff: "lex_line cs = [] \<longleftrightarrow> (\<forall>c \<in> set cs. isWhiteSpace c)"
  by (induction cs rule: lex_line.induct) auto

lemma lex_closed_Cons:
  assumes "lex_line xs = t # lex_line ys" "xs \<noteq> []" "ys = [] \<Longrightarrow> \<not> word_char (last xs)" "ys \<noteq> [] \<Longrightarrow> last xs = last ys"
  shows "lex_closed xs = t # lex_closed ys"
proof (cases "ys \<noteq> [] \<and> word_char (last ys)")
  case True
  then have "lex_line ys \<noteq> []" by (auto simp: lex_line_Nil_iff word_char_def dest!: last_in_set)
  then show ?thesis using True assms by (simp add: lex_closed_def)
next
  case False
  then show ?thesis using assms by (cases "ys = []") (simp_all add: lex_closed_def)
qed

lemma lex_closed_simps:
  "lex_closed [] = []"
  "isWhiteSpace c \<Longrightarrow> lex_closed (c # cs) = lex_closed cs"
  "isSpecialToken c \<Longrightarrow> lex_closed (c # cs) = [c] # lex_closed cs"
proof -
  show "lex_closed [] = []" by (simp add: lex_closed_def)
  show "isWhiteSpace c \<Longrightarrow> lex_closed (c # cs) = lex_closed cs"
    by (cases "cs = []") (auto simp: lex_closed_def word_char_def)
  show "lex_closed (c # cs) = [c] # lex_closed cs" if "isSpecialToken c"
  proof (rule lex_closed_Cons)
    show "lex_line (c # cs) = [c] # lex_line cs" using that by (auto simp: isWhiteSpace_def isSpecialToken_def)
  qed (use that in \<open>auto simp: word_char_def\<close>)
qed

lemma lex_closed_word:
  assumes "token \<noteq> []" "\<forall>c \<in> set token. word_char c"
  shows "\<not> word_char c \<Longrightarrow> lex_closed (token @ c # cs) = token # lex_closed (c # cs)" and "lex_closed token = []"
proof -
  show "lex_closed (token @ c # cs) = token # lex_closed (c # cs)" if "\<not> word_char c"
    by (rule lex_closed_Cons) (use lex_word [OF assms, of "c # cs"] that in auto)
  show "lex_closed token = []" using lex_word [OF assms, of "[]"] assms by (simp add: lex_closed_def)
qed

lemma scan_line_lex:
  assumes "\<forall>c \<in> set token. word_char c" "length token + length cs \<le> n"
    and "length tokens + length token + length cs \<le> MAX_ARGV_LENGTH * MAX_LINE_LENGTH div 8"
  shows "scan_line M n cs token tokens = Some (tokens @ place M (length tokens) (lex_closed (token @ cs)))"
  using assms
proof (induction cs arbitrary: token tokens)
  case Nil
  then show ?case using lex_closed_word(2) [of token] by (cases "token = []") (simp_all add: lex_closed_simps)
next
  case (Cons c cs)
  have IH: "scan_line M n cs token' tokens' = Some (tokens' @ place M (length tokens') (lex_closed (token' @ cs)))"
    if "\<forall>c \<in> set token'. word_char c" "length token' + length cs \<le> n"
      "length tokens' + length token' + length cs \<le> MAX_ARGV_LENGTH * MAX_LINE_LENGTH div 8" for token' tokens'
    by (rule Cons.IH [OF that])
  show ?case
  proof (cases "word_char c")
    case True
    then show ?thesis using Cons.prems by (simp add: word_char_def IH)
  next
    case False
    have lw: "token \<noteq> [] \<Longrightarrow> lex_closed (token @ c # cs) = token # lex_closed (c # cs)"
      using Cons.prems(1) False by (intro lex_closed_word(1)) auto
    have "isSpecialToken c \<Longrightarrow> \<not> isWhiteSpace c" by (auto simp: isSpecialToken_def isWhiteSpace_def)
    then show ?thesis
      using False lw Cons.prems(2,3)
      by (cases "token = []"; cases "isWhiteSpace c") (auto simp: IH push_token_def lex_closed_simps word_char_def length_greater_0_conv [symmetric] simp del: length_greater_0_conv)
  qed
qed

lemma find_tokens_lex:
  assumes "CHR 0x00 \<notin> set line" "length line \<le> MAX_ARGV_LENGTH * MAX_LINE_LENGTH div 8"
  shows "find_tokens M line = Some (place M 0 (lex_closed line))"
proof -
  have id: "takeWhile (\<lambda>c. c \<noteq> CHR 0x00) line = line" using assms(1) by (intro takeWhile_eq_all_conv [THEN iffD2]) auto
  show ?thesis
    using scan_line_lex [of "[]" line "length line" "[]" M] assms(2) unfolding find_tokens_def Let_def id by simp
qed

lemma find_num_cmds_count: "find_num_cmds ts = 1 + length (filter (\<lambda>t. t = ''|'') ts)"
  by (induction ts) auto

lemma lex_line_nonempty: "t \<in> set (lex_line cs) \<Longrightarrow> t \<noteq> []"
  by (induction cs rule: lex_line.induct) (auto split: if_splits)

lemma length_lex_line: "length (lex_line cs) \<le> length cs"
proof (induction cs rule: lex_line.induct)
  case (2 c cs)
  then show ?case using length_dropWhile_le [of word_char cs] by (auto intro: le_SucI order_trans)
qed simp

lemma length_lex_closed: "length (lex_closed cs) \<le> length cs"
  using length_lex_line [of cs] by (auto simp: lex_closed_def)

lemma lex_closed_nonempty: "t \<in> set (lex_closed cs) \<Longrightarrow> t \<noteq> []"
  by (auto simp: lex_closed_def split: if_splits dest: in_set_butlastD lex_line_nonempty)

lemma nth_place: "j < length ts \<Longrightarrow> place M n ts ! j = ts ! j @ M (n + j)"
  by (simp add: place_def nth_enumerate_eq)

end
