(* ===== verification/Shell_Parse.thy ===== *)
theory Shell_Parse
  imports Shell_Lex
begin

text \<open>
  \<open>pipeline_build\<close> and \<open>pipeline_free\<close> of \<open>simple_shell/src/myshell_parser.c\<close>, with the structures of
  \<open>myshell_parser.h\<close>.

  A \<open>char *\<close> of the structures points to the block of a token; it is the number of the token. The
  arguments are the pointers before the terminating \<open>NULL\<close>. An element of the array of commands that
  is never assigned is \<open>None\<close>. The result comes with the strings the tokens read as.
\<close>

record pipeline_command =
  command_args :: "nat list"
  redirect_in_path :: "nat option"
  redirect_out_path :: "nat option"
  next_cmd :: "nat option"

record pipeline =
  commands :: "pipeline_command option list"
  is_background :: bool

definition empty_cmd :: pipeline_command where
  "empty_cmd = \<lparr>command_args = [], redirect_in_path = None, redirect_out_path = None, next_cmd = None\<rparr>"

text \<open>An assignment to the array \<open>command_args\<close>, whose index \<open>k\<close> is the number of arguments so far.\<close>

definition put_arg :: "nat \<Rightarrow> pipeline_command \<Rightarrow> pipeline_command option" where
  "put_arg t pl = (if length (command_args pl) < MAX_ARGV_LENGTH
     then Some (pl\<lparr>command_args := command_args pl @ [t]\<rparr>) else None)"

definition end_args :: "pipeline_command \<Rightarrow> pipeline_command option" where
  "end_args pl = (if length (command_args pl) < MAX_ARGV_LENGTH then Some pl else None)"

text \<open>
  The body of the inner loop up to its \<open>if\<close> at line 113: the new \<open>j\<close>, the flag \<open>catch\<close> and the command.
\<close>

definition take_token :: "string list \<Rightarrow> nat \<Rightarrow> pipeline_command \<Rightarrow> (nat \<times> bool \<times> pipeline_command) option" where
  "take_token tokens j pl =
    (if tokens ! j = ''>'' \<and> j + 1 < length tokens
     then Some (j + 1, int (j + 1) > int (length tokens) - 2, pl\<lparr>redirect_out_path := Some (j + 1)\<rparr>)
     else if tokens ! j = ''<'' \<and> j + 1 < length tokens
     then Some (j + 1, int (j + 1) > int (length tokens) - 2, pl\<lparr>redirect_in_path := Some (j + 1)\<rparr>)
     else if tokens ! j \<noteq> ''&'' \<and> tokens ! j \<noteq> ''|''
     then do { pl \<leftarrow> put_arg j pl; Some (j, False, pl) }
     else Some (j, False, pl))"

lemma take_token_le: "take_token tokens j pl = Some (j', catch, pl') \<Longrightarrow> j \<le> j'"
  by (auto simp: take_token_def Option_bind_eq_Some_conv split: if_splits)

text \<open>The inner loop; no command when the tokens are used up.\<close>

function build_cmd :: "string list \<Rightarrow> nat \<Rightarrow> pipeline_command \<Rightarrow> (nat \<times> pipeline_command option) option" where
  "build_cmd tokens j pl =
    (if j < length tokens then do {
       (j', catch, pl) \<leftarrow> take_token tokens j pl;
       if tokens ! j' = ''|'' \<or> int j' > int (length tokens) - 2 \<or> catch
       then do { pl \<leftarrow> end_args pl; Some (j' + 1, Some pl) }
       else build_cmd tokens (j' + 1) pl }
     else Some (j, None))"
  by pat_completeness auto
termination
  by (relation "measure (\<lambda>(tokens, j, pl). length tokens - j)") (auto dest!: take_token_le)

function build_cmds :: "string list \<Rightarrow> nat \<Rightarrow> nat \<Rightarrow> nat \<Rightarrow> pipeline_command option list option" where
  "build_cmds tokens num_commands i j =
    (if i < num_commands then do {
       (j, c) \<leftarrow> build_cmd tokens j empty_cmd;
       cs \<leftarrow> build_cmds tokens num_commands (i + 1) j;
       Some (map_option (\<lambda>pl. pl\<lparr>next_cmd := if i < num_commands - 1 then Some (i + 1) else None\<rparr>) c # cs) }
     else Some [])"
  by pat_completeness auto
termination by (relation "measure (\<lambda>(tokens, num_commands, i, j). num_commands - i)") auto

definition last_token :: "string list \<Rightarrow> string option" where
  "last_token tokens = (if tokens = [] then None else Some (last tokens))"

definition pipeline_build :: "residue \<Rightarrow> string \<Rightarrow> (nat \<times> pipeline \<times> string list) option" where
  "pipeline_build M command_line = do {
     tokens \<leftarrow> find_tokens M command_line;
     let num_commands = find_num_cmds tokens;
     pipelines \<leftarrow> build_cmds tokens num_commands 0 0;
     t \<leftarrow> last_token tokens;
     Some (num_commands, \<lparr>commands = pipelines, is_background = (t = ''&'')\<rparr>, tokens) }"

text \<open>
  \<open>free\<close> of a block that is not allocated is undefined. The walk follows the \<open>next\<close> pointers, at most
  \<open>n\<close> of them.
\<close>

fun free_all :: "nat list \<Rightarrow> nat list \<Rightarrow> nat list option" where
  "free_all [] heap = Some heap"
| "free_all (p # ps) heap = (if p \<in> set heap then free_all ps (remove1 p heap) else None)"

definition owned :: "pipeline_command \<Rightarrow> nat list" where
  "owned pl = command_args pl @ (case redirect_in_path pl of None \<Rightarrow> [] | Some p \<Rightarrow> [p])
     @ (case redirect_out_path pl of None \<Rightarrow> [] | Some p \<Rightarrow> [p])"

fun free_cmds :: "nat \<Rightarrow> pipeline_command option list \<Rightarrow> nat \<Rightarrow> nat list \<Rightarrow> nat list option" where
  "free_cmds 0 cmds i heap = None"
| "free_cmds (Suc n) cmds i heap = do {
     c \<leftarrow> nth_opt cmds i;
     pl \<leftarrow> c;
     heap \<leftarrow> free_all (owned pl) heap;
     (case next_cmd pl of None \<Rightarrow> Some heap | Some i' \<Rightarrow> free_cmds n cmds i' heap) }"

definition pipeline_free :: "pipeline \<Rightarrow> nat list \<Rightarrow> nat list option" where
  "pipeline_free p heap = free_cmds (length (commands p)) (commands p) 0 heap"

end
