(* ===== verification/Shell_Parse_Spec.thy ===== *)
theory Shell_Parse_Spec
  imports Shell_Parse
begin

text \<open>
  What \<open>pipeline_build\<close> makes of the tokens of a command line: commands are lists of items, an argument
  or a redirection, separated by pipes, with an optional ampersand at the end.
\<close>

datatype item = Arg string | In string | Out string

fun item_tokens :: "item \<Rightarrow> string list" where
  "item_tokens (Arg w) = [w]"
| "item_tokens (In w) = [''<'', w]"
| "item_tokens (Out w) = [''>'', w]"

definition cmd_tokens :: "item list \<Rightarrow> string list" where
  "cmd_tokens is = concat (map item_tokens is)"

fun line_tokens :: "item list list \<Rightarrow> bool \<Rightarrow> string list" where
  "line_tokens [] bg = []"
| "line_tokens [is] bg = cmd_tokens is @ (if bg then [''&''] else [])"
| "line_tokens (is # is' # iss) bg = cmd_tokens is @ ''|'' # line_tokens (is' # iss) bg"

text \<open>The meaning of a command: its arguments, and the last redirection in each direction.\<close>

record meaning =
  m_args :: "string list"
  m_in :: "string option"
  m_out :: "string option"

fun mean_item :: "item \<Rightarrow> meaning \<Rightarrow> meaning" where
  "mean_item (Arg w) m = m\<lparr>m_args := m_args m @ [w]\<rparr>"
| "mean_item (In w) m = m\<lparr>m_in := Some w\<rparr>"
| "mean_item (Out w) m = m\<lparr>m_out := Some w\<rparr>"

definition meaning_of :: "item list \<Rightarrow> meaning" where
  "meaning_of is = fold mean_item is \<lparr>m_args = [], m_in = None, m_out = None\<rparr>"

definition view :: "string list \<Rightarrow> pipeline_command \<Rightarrow> meaning" where
  "view tokens pl = \<lparr>m_args = map (\<lambda>p. tokens ! p) (command_args pl),
     m_in = map_option (\<lambda>p. tokens ! p) (redirect_in_path pl), m_out = map_option (\<lambda>p. tokens ! p) (redirect_out_path pl)\<rparr>"

definition plain :: "string \<Rightarrow> bool" where
  "plain w \<longleftrightarrow> w \<noteq> ''|'' \<and> w \<noteq> ''<'' \<and> w \<noteq> ''>'' \<and> w \<noteq> ''&''"

fun item_word :: "item \<Rightarrow> string" where
  "item_word (Arg w) = w"
| "item_word (In w) = w"
| "item_word (Out w) = w"

fun is_arg :: "item \<Rightarrow> bool" where
  "is_arg (Arg w) = True"
| "is_arg (In w) = False"
| "is_arg (Out w) = False"

definition items_ok :: "item list \<Rightarrow> bool" where
  "items_ok is \<longleftrightarrow> (\<forall>i \<in> set is. plain (item_word i)) \<and> length (filter is_arg is) < MAX_ARGV_LENGTH"

section \<open>One item\<close>

fun add_item :: "nat \<Rightarrow> item \<Rightarrow> pipeline_command \<Rightarrow> pipeline_command" where
  "add_item j (Arg w) pl = pl\<lparr>command_args := command_args pl @ [j]\<rparr>"
| "add_item j (In w) pl = pl\<lparr>redirect_in_path := Some (j + 1)\<rparr>"
| "add_item j (Out w) pl = pl\<lparr>redirect_out_path := Some (j + 1)\<rparr>"

lemma view_add_item:
  assumes "tokens = pre @ item_tokens i @ rest"
  shows "view tokens (add_item (length pre) i pl) = mean_item i (view tokens pl)"
  using assms by (cases i) (simp_all add: view_def nth_append)

lemma take_item:
  assumes "tokens = pre @ item_tokens i @ rest" "plain (item_word i)" "length (command_args pl) < MAX_ARGV_LENGTH \<or> \<not> is_arg i"
  shows "\<exists>catch. take_token tokens (length pre) pl =
      Some (length pre + length (item_tokens i) - 1, catch, add_item (length pre) i pl) \<and> (catch \<longrightarrow> rest = [])"
  using assms by (cases i) (auto simp: take_token_def put_arg_def plain_def nth_append)

lemma build_item:
  assumes t: "tokens = pre @ item_tokens i @ rest" and p: "plain (item_word i)"
    and a: "length (command_args pl) < MAX_ARGV_LENGTH \<or> \<not> is_arg i"
  shows "rest \<noteq> [] \<Longrightarrow> build_cmd tokens (length pre) pl =
      build_cmd tokens (length (pre @ item_tokens i)) (add_item (length pre) i pl)"
    and "rest = [] \<Longrightarrow> build_cmd tokens (length pre) pl =
      do { pl \<leftarrow> end_args (add_item (length pre) i pl); Some (length tokens, Some pl) }"
proof -
  obtain catch where tk: "take_token tokens (length pre) pl =
      Some (length pre + length (item_tokens i) - 1, catch, add_item (length pre) i pl)" and ct: "catch \<longrightarrow> rest = []"
    using take_item [OF t p a] by blast
  have len: "length (item_tokens i) \<ge> 1" by (cases i) simp_all
  have w: "tokens ! (length pre + length (item_tokens i) - 1) = item_word i" by (cases i) (simp_all add: t nth_append)
  have lt: "length pre < length tokens" using t by (cases i) simp_all
  show "build_cmd tokens (length pre) pl = build_cmd tokens (length (pre @ item_tokens i)) (add_item (length pre) i pl)" if "rest \<noteq> []"
  proof -
    have "length rest \<ge> 1" using that by (simp add: Suc_le_eq)
    then have "\<not> int (length pre + length (item_tokens i) - 1) > int (length tokens) - 2" using t len that by simp
    moreover have "Suc (length pre + length (item_tokens i) - Suc 0) = length pre + length (item_tokens i)" using len by simp
    ultimately show ?thesis using lt tk w p ct that len
      by (subst build_cmd.simps) (simp add: plain_def del: build_cmd.simps)
  qed
  show "build_cmd tokens (length pre) pl = do { pl \<leftarrow> end_args (add_item (length pre) i pl); Some (length tokens, Some pl) }" if "rest = []"
    using lt tk len t that by (subst build_cmd.simps) (simp del: build_cmd.simps)
qed

section \<open>One command\<close>

fun add_items :: "nat \<Rightarrow> item list \<Rightarrow> pipeline_command \<Rightarrow> pipeline_command" where
  "add_items j [] pl = pl"
| "add_items j (i # is) pl = add_items (j + length (item_tokens i)) is (add_item j i pl)"

lemma add_items_append: "add_items j (is @ js) pl = add_items (j + length (cmd_tokens is)) js (add_items j is pl)"
  by (induction "is" arbitrary: j pl) (simp_all add: cmd_tokens_def add.assoc)

lemma length_args_add_items:
  "length (command_args (add_items j is pl)) = length (command_args pl) + length (filter is_arg is)"
proof (induction "is" arbitrary: j pl)
  case (Cons i "is")
  then show ?case by (cases i) simp_all
qed simp

lemma view_add_items:
  "tokens = pre @ cmd_tokens is @ rest \<Longrightarrow> view tokens (add_items (length pre) is pl) = fold mean_item is (view tokens pl)"
proof (induction "is" arbitrary: pre pl)
  case (Cons i "is")
  then show ?case using Cons.IH [of "pre @ item_tokens i"] view_add_item [of tokens pre i "cmd_tokens is @ rest"]
    by (simp add: cmd_tokens_def)
qed (simp add: cmd_tokens_def)

lemma build_items:
  assumes "tokens = pre @ cmd_tokens is @ rest" "rest \<noteq> []" "\<forall>i \<in> set is. plain (item_word i)"
    and "length (command_args pl) + length (filter is_arg is) < MAX_ARGV_LENGTH"
  shows "build_cmd tokens (length pre) pl = build_cmd tokens (length pre + length (cmd_tokens is)) (add_items (length pre) is pl)"
  using assms
proof (induction "is" arbitrary: pre pl)
  case (Cons i "is")
  have t: "tokens = pre @ item_tokens i @ (cmd_tokens is @ rest)" using Cons.prems(1) by (simp add: cmd_tokens_def)
  have "build_cmd tokens (length pre) pl = build_cmd tokens (length (pre @ item_tokens i)) (add_item (length pre) i pl)"
    by (rule build_item(1) [OF t]) (use Cons.prems in auto)
  also have "\<dots> = build_cmd tokens (length (pre @ item_tokens i) + length (cmd_tokens is)) (add_items (length (pre @ item_tokens i)) is (add_item (length pre) i pl))"
    by (rule Cons.IH) (use Cons.prems in \<open>cases i; auto simp: cmd_tokens_def\<close>)+
  finally show ?case by (simp add: cmd_tokens_def add.assoc del: build_cmd.simps)
qed (simp add: cmd_tokens_def del: build_cmd.simps)

lemma end_args_ok: "length (command_args pl) < MAX_ARGV_LENGTH \<Longrightarrow> end_args pl = Some pl"
  by (simp add: end_args_def)

text \<open>A command ended by a pipe, by the ampersand at the end of the line, or by the end of the line.\<close>

lemma build_cmd_pipe:
  assumes "tokens = pre @ cmd_tokens is @ ''|'' # rest" "items_ok is"
  shows "build_cmd tokens (length pre) empty_cmd =
    Some (length pre + length (cmd_tokens is) + 1, Some (add_items (length pre) is empty_cmd))"
proof -
  define j where "j = length pre + length (cmd_tokens is)"
  define pl where "pl = add_items (length pre) is empty_cmd"
  have at: "tokens ! j = ''|''" "j < length tokens" by (simp_all add: j_def assms(1) nth_append)
  have "length (command_args pl) < MAX_ARGV_LENGTH"
    using assms(2) by (simp add: pl_def length_args_add_items items_ok_def empty_cmd_def)
  then have "build_cmd tokens j pl = Some (j + 1, Some pl)"
    using at by (subst build_cmd.simps) (simp add: take_token_def end_args_ok del: build_cmd.simps)
  then show ?thesis using build_items [OF assms(1), of empty_cmd] assms(2)
    by (simp add: j_def pl_def items_ok_def empty_cmd_def del: build_cmd.simps)
qed

lemma build_cmd_amp:
  assumes "tokens = pre @ cmd_tokens is @ [''&'']" "items_ok is"
  shows "build_cmd tokens (length pre) empty_cmd = Some (length tokens, Some (add_items (length pre) is empty_cmd))"
proof -
  define j where "j = length pre + length (cmd_tokens is)"
  define pl where "pl = add_items (length pre) is empty_cmd"
  have at: "tokens ! j = ''&''" "j < length tokens" "length tokens = j + 1" by (simp_all add: j_def assms(1) nth_append)
  have "length (command_args pl) < MAX_ARGV_LENGTH"
    using assms(2) by (simp add: pl_def length_args_add_items items_ok_def empty_cmd_def)
  then have "build_cmd tokens j pl = Some (j + 1, Some pl)"
    using at by (subst build_cmd.simps) (simp add: take_token_def end_args_ok del: build_cmd.simps)
  then show ?thesis using build_items [OF assms(1), of empty_cmd] assms(2) at(3)
    by (simp add: j_def pl_def items_ok_def empty_cmd_def del: build_cmd.simps)
qed

lemma build_cmd_end:
  assumes "tokens = pre @ cmd_tokens is" "items_ok is" "is \<noteq> []"
  shows "build_cmd tokens (length pre) empty_cmd = Some (length tokens, Some (add_items (length pre) is empty_cmd))"
proof -
  obtain is' i where i: "is = is' @ [i]" using assms(3) by (metis append_butlast_last_id)
  define pl where "pl = add_items (length pre) is' empty_cmd"
  define q where "q = pre @ cmd_tokens is'"
  have t: "tokens = q @ item_tokens i @ []" using assms(1) i by (simp add: q_def cmd_tokens_def)
  have fin: "add_item (length q) i pl = add_items (length pre) is empty_cmd"
    by (simp add: i pl_def q_def add_items_append)
  have "build_cmd tokens (length pre) empty_cmd = build_cmd tokens (length q) pl"
    using build_items [of tokens pre is' "item_tokens i" empty_cmd] assms(2) t i
    by (cases i) (simp_all add: q_def pl_def items_ok_def empty_cmd_def del: build_cmd.simps)
  also have "\<dots> = do { pl \<leftarrow> end_args (add_item (length q) i pl); Some (length tokens, Some pl) }"
    by (rule build_item(2) [OF t]) (use assms(2) in \<open>auto simp: i items_ok_def pl_def length_args_add_items empty_cmd_def\<close>)
  finally show ?thesis using assms(2)
    by (simp add: fin end_args_def length_args_add_items items_ok_def empty_cmd_def del: build_cmd.simps)
qed

section \<open>All commands of a line\<close>

lemma length_item_tokens: "0 < length (item_tokens i)"
  by (cases i) simp_all

lemma cmd_tokens_Nil_iff: "cmd_tokens is = [] \<longleftrightarrow> is = []"
  using length_item_tokens by (cases "is") (auto simp: cmd_tokens_def)

text \<open>
  The entry a command leaves in the array: nothing if it is the last one and has no tokens and no
  ampersand behind it.
\<close>

fun entries_of :: "nat \<Rightarrow> nat \<Rightarrow> item list list \<Rightarrow> bool \<Rightarrow> pipeline_command option list" where
  "entries_of n j [] bg = []"
| "entries_of n j [is] bg = [if is = [] \<and> \<not> bg then None else Some (add_items j is empty_cmd)]"
| "entries_of n j (is # is' # iss) bg = Some ((add_items j is empty_cmd)\<lparr>next_cmd := Some (n + 1)\<rparr>)
     # entries_of (n + 1) (j + length (cmd_tokens is) + 1) (is' # iss) bg"

lemma next_cmd_add_items [simp]: "next_cmd (add_items j is pl) = next_cmd pl"
proof (induction "is" arbitrary: j pl)
  case (Cons i "is")
  then show ?case by (cases i) simp_all
qed simp

lemma build_cmds_line:
  assumes "tokens = pre @ line_tokens iss bg" "\<forall>is \<in> set iss. items_ok is" "n + length iss = num"
  shows "build_cmds tokens num n (length pre) = Some (entries_of n (length pre) iss bg)"
  using assms
proof (induction iss bg arbitrary: pre n rule: line_tokens.induct)
  case (1 bg)
  then show ?case by simp
next
  case (2 "is" bg)
  have "build_cmd tokens (length pre) empty_cmd = Some (length tokens, if is = [] \<and> \<not> bg then None else Some (add_items (length pre) is empty_cmd))"
  proof (cases bg)
    case True
    then show ?thesis using build_cmd_amp [of tokens pre "is"] 2 by (simp del: build_cmd.simps)
  next
    case False
    then show ?thesis using build_cmd_end [of tokens pre "is"] 2
      by (cases "is = []") (simp_all add: cmd_tokens_def)
  qed
  moreover have "pl\<lparr>next_cmd := None\<rparr> = pl" if "next_cmd pl = None" for pl :: pipeline_command
    using that by (cases pl) simp
  ultimately show ?case using 2(3) by (simp add: empty_cmd_def del: build_cmd.simps)
next
  case (3 "is" is' iss bg)
  have "build_cmd tokens (length pre) empty_cmd =
      Some (length pre + length (cmd_tokens is) + 1, Some (add_items (length pre) is empty_cmd))"
    by (rule build_cmd_pipe) (use 3 in auto)
  moreover have "build_cmds tokens num (n + 1) (length (pre @ cmd_tokens is @ [''|''])) =
      Some (entries_of (n + 1) (length (pre @ cmd_tokens is @ [''|''])) (is' # iss) bg)"
    by (rule 3(1)) (use 3 in auto)
  ultimately show ?case using 3(4)
    by (subst build_cmds.simps) (simp add: add.assoc del: build_cmd.simps build_cmds.simps)
qed

lemma view_entries:
  assumes "tokens = pre @ line_tokens iss bg" "bg \<or> last iss \<noteq> []" "iss \<noteq> []"
  shows "map (map_option (view tokens)) (entries_of n (length pre) iss bg) = map (Some \<circ> meaning_of) iss"
  using assms
proof (induction iss bg arbitrary: pre n rule: line_tokens.induct)
  case (2 "is" bg)
  then show ?case using view_add_items [of tokens pre "is"] by (auto simp: meaning_of_def view_def empty_cmd_def)
next
  case (3 "is" is' iss bg)
  have "view tokens (pl\<lparr>next_cmd := x\<rparr>) = view tokens pl" for pl x by (simp add: view_def)
  moreover have "view tokens (add_items (length pre) is empty_cmd) = meaning_of is"
    using view_add_items [of tokens pre "is"] 3(2) by (simp add: meaning_of_def view_def empty_cmd_def)
  moreover have "map (map_option (view tokens)) (entries_of (n + 1) (length (pre @ cmd_tokens is @ [''|''])) (is' # iss) bg)
      = map (Some \<circ> meaning_of) (is' # iss)"
    by (rule 3(1)) (use 3 in auto)
  ultimately show ?case by (simp add: add.assoc)
qed simp

end
