(* ===== verification/Shell_Parse_Facts.thy ===== *)
theory Shell_Parse_Facts
  imports Shell_Parse_Spec
begin

text \<open>
  Facts about whole command lines: printing them, the room the arguments need, and the blocks the
  commands of a line own.
\<close>

section \<open>Counting and printing\<close>

lemma count_pipes_cmd: "\<forall>i \<in> set is. plain (item_word i) \<Longrightarrow> filter (\<lambda>t. t = ''|'') (cmd_tokens is) = []"
proof (induction "is")
  case (Cons i "is")
  then show ?case by (cases i) (simp_all add: cmd_tokens_def plain_def)
qed (simp add: cmd_tokens_def)

lemma find_num_cmds_line: "\<forall>is \<in> set iss. items_ok is \<Longrightarrow> iss \<noteq> [] \<Longrightarrow> find_num_cmds (line_tokens iss bg) = length iss"
proof -
  have "length (filter (\<lambda>t. t = ''|'') (line_tokens iss bg)) = length iss - 1" if "\<forall>is \<in> set iss. items_ok is"
    using that by (induction iss bg rule: line_tokens.induct) (auto simp: count_pipes_cmd items_ok_def)
  then show "\<forall>is \<in> set iss. items_ok is \<Longrightarrow> iss \<noteq> [] \<Longrightarrow> find_num_cmds (line_tokens iss bg) = length iss"
    by (cases iss) (simp_all add: find_num_cmds_count)
qed

lemma last_cmd_token:
  assumes "is \<noteq> []"
  shows "last (cmd_tokens is) = item_word (last is)" "cmd_tokens is \<noteq> []"
proof -
  obtain is' i where i: "is = is' @ [i]" using assms by (metis append_butlast_last_id)
  then show "last (cmd_tokens is) = item_word (last is)" by (cases i) (simp_all add: cmd_tokens_def)
  show "cmd_tokens is \<noteq> []" using assms by (simp add: cmd_tokens_Nil_iff)
qed

lemma last_line_token:
  assumes "iss \<noteq> []" "\<forall>is \<in> set iss. items_ok is" "bg \<or> last iss \<noteq> []"
  shows "line_tokens iss bg \<noteq> [] \<and> (last (line_tokens iss bg) = ''&'' \<longleftrightarrow> bg)"
  using assms
proof (induction iss bg rule: line_tokens.induct)
  case (2 "is" bg)
  then show ?case using last_cmd_token [of "is"] by (cases "is = []") (auto simp: items_ok_def plain_def dest: last_in_set)
qed auto

lemma pipeline_build_tokens:
  assumes M: "\<And>j. M j = []" and z: "CHR 0x00 \<notin> set line" "length line \<le> MAX_ARGV_LENGTH * MAX_LINE_LENGTH div 8"
    and t: "lex_closed line = line_tokens iss bg" "iss \<noteq> []" "\<forall>is \<in> set iss. items_ok is" "bg \<or> last iss \<noteq> []"
  shows "\<exists>p. pipeline_build M line = Some (length iss, p, line_tokens iss bg) \<and>
    map (map_option (view (line_tokens iss bg))) (commands p) = map (Some \<circ> meaning_of) iss \<and> is_background p = bg"
proof -
  have "find_tokens M line = Some (line_tokens iss bg)" by (simp add: find_tokens_lex [OF z] t(1) place_zero M)
  moreover have "build_cmds (line_tokens iss bg) (length iss) 0 0 = Some (entries_of 0 0 iss bg)"
    using build_cmds_line [of "line_tokens iss bg" "[]" iss bg 0 "length iss"] t(3) by simp
  moreover have "map (map_option (view (line_tokens iss bg))) (entries_of 0 0 iss bg) = map (Some \<circ> meaning_of) iss"
    using view_entries [of "line_tokens iss bg" "[]" iss bg 0] t(2,4) by simp
  ultimately show ?thesis using last_line_token [OF t(2-4)]
    by (simp add: pipeline_build_def last_token_def find_num_cmds_line [OF t(3,2)] del: build_cmds.simps)
qed

section \<open>Room for the arguments\<close>

lemma plain_special: "isSpecialToken c \<Longrightarrow> \<not> plain [c]"
  by (auto simp: isSpecialToken_def plain_def)

lemma words_in_line: "2 * length (filter plain (lex_closed cs)) \<le> length cs"
proof (induction cs rule: length_induct)
  case (1 cs)
  have tail: "length (filter plain (lex_closed (c # ds))) = length (filter plain (lex_closed ds))" if "\<not> word_char c" for c ds
    using that by (auto simp: word_char_def lex_closed_simps plain_special)
  show ?case
  proof (cases cs)
    case (Cons c ds)
    show ?thesis
    proof (cases "word_char c")
      case False
      then show ?thesis using 1 tail [of c ds] Cons by auto
    next
      case True
      define w r where "w = takeWhile word_char cs" and "r = dropWhile word_char cs"
      have w: "w \<noteq> []" "\<forall>c \<in> set w. word_char c" "cs = w @ r" using True Cons by (auto simp: w_def r_def dest: set_takeWhileD)
      show ?thesis
      proof (cases r)
        case Nil
        then show ?thesis using lex_closed_word(2) [OF w(1,2)] w(3) by simp
      next
        case (Cons d es)
        then have "\<not> word_char d" unfolding r_def by (rule dropWhile_eq_Cons_conv [THEN iffD1, THEN conjunct2])
        then have "length (filter plain (lex_closed cs)) \<le> 1 + length (filter plain (lex_closed es))"
          using lex_closed_word(1) [OF w(1,2), of d es] tail w(3) Cons by simp
        moreover have "2 * length (filter plain (lex_closed es)) \<le> length es" using 1 w(3) Cons by simp
        moreover have "length es + 2 \<le> length cs" using w(1,3) Cons by (cases w) simp_all
        ultimately show ?thesis by linarith
      qed
    qed
  qed (simp add: lex_closed_simps)
qed

lemma filter_drop_Suc: "j < length ts \<Longrightarrow> length (filter P (drop j ts)) = (if P (ts ! j) then 1 else 0) + length (filter P (drop (Suc j) ts))"
  by (simp add: Cons_nth_drop_Suc [symmetric])

lemma take_token_room:
  assumes "length (command_args pl) + length (filter plain (drop j tokens)) < MAX_ARGV_LENGTH - 1" "j < length tokens"
  obtains j' catch pl' where "take_token tokens j pl = Some (j', catch, pl')" "j \<le> j'" "j' < length tokens"
    "length (command_args pl') < MAX_ARGV_LENGTH"
    "j' + 1 < length tokens \<Longrightarrow> length (command_args pl') + length (filter plain (drop (j' + 1) tokens)) < MAX_ARGV_LENGTH - 1"
proof -
  have f: "length (filter plain (drop (j + 1) tokens)) \<le> length (filter plain (drop j tokens))"
    "length (filter plain (drop (j + 2) tokens)) \<le> length (filter plain (drop (j + 1) tokens))"
    using filter_drop_Suc [of j tokens plain] filter_drop_Suc [of "j + 1" tokens plain] assms(2)
    by (cases "j + 1 < length tokens"; simp)+
  show thesis
  proof (cases "tokens ! j = ''>'' \<or> tokens ! j = ''<''")
    case True
    then show thesis using assms f
      by (cases "j + 1 < length tokens") (auto simp: take_token_def put_arg_def intro!: that)
  next
    case False
    then show thesis using assms f filter_drop_Suc [OF assms(2), of plain]
      by (cases "plain (tokens ! j)") (auto simp: take_token_def put_arg_def plain_def intro!: that)
  qed
qed

lemma build_cmd_room:
  assumes "length (command_args pl) + length (filter plain (drop j tokens)) < MAX_ARGV_LENGTH - 1"
  shows "build_cmd tokens j pl \<noteq> None"
  using assms
proof (induction "length tokens - j" arbitrary: j pl rule: less_induct)
  case less
  show ?case
  proof (cases "j < length tokens")
    case True
    obtain j' catch pl' where t: "take_token tokens j pl = Some (j', catch, pl')" "j \<le> j'" "j' < length tokens"
      "length (command_args pl') < MAX_ARGV_LENGTH"
      "j' + 1 < length tokens \<Longrightarrow> length (command_args pl') + length (filter plain (drop (j' + 1) tokens)) < MAX_ARGV_LENGTH - 1"
      by (rule take_token_room [OF less(2) True]) blast
    show ?thesis
    proof (cases "int j' > int (length tokens) - 2")
      case True
      then show ?thesis using \<open>j < length tokens\<close> t(1,4) by (subst build_cmd.simps) (simp add: end_args_ok del: build_cmd.simps)
    next
      case False
      then have "build_cmd tokens (j' + 1) pl' \<noteq> None" using less(1) [of "j' + 1" pl'] t(2,5) True by simp
      then show ?thesis using \<open>j < length tokens\<close> t(1,4)
        by (subst build_cmd.simps) (simp add: end_args_ok del: build_cmd.simps)
    qed
  qed simp
qed

lemma build_cmds_room:
  assumes "length (filter plain tokens) < MAX_ARGV_LENGTH - 1"
  shows "build_cmds tokens num i j \<noteq> None"
proof (induction "num - i" arbitrary: i j rule: less_induct)
  case less
  have "length (filter plain (drop j tokens)) \<le> length (filter plain tokens)"
    by (metis append_take_drop_id filter_append length_append le_add2)
  then have "build_cmd tokens j empty_cmd \<noteq> None" using assms by (intro build_cmd_room) (simp add: empty_cmd_def)
  then obtain j' c where c: "build_cmd tokens j empty_cmd = Some (j', c)" by auto
  show ?case
  proof (cases "i < num")
    case True
    then have "build_cmds tokens num (i + 1) j' \<noteq> None" using less by simp
    then show ?thesis using True c by (subst build_cmds.simps) (auto simp del: build_cmd.simps build_cmds.simps)
  qed simp
qed

lemma build_cmd_args: "build_cmd tokens j pl = Some (j', Some c) \<Longrightarrow> length (command_args c) < MAX_ARGV_LENGTH"
proof (induction tokens j pl rule: build_cmd.induct)
  case (1 tokens j pl)
  from "1.prems" obtain k catch q where "j < length tokens" "take_token tokens j pl = Some (k, catch, q)"
    by (subst (asm) build_cmd.simps) (auto simp: Option_bind_eq_Some_conv split: if_splits)
  with 1 show ?case
    by (subst (asm) (2) build_cmd.simps) (auto simp: end_args_def split: if_splits)
qed

lemma build_cmds_args:
  "build_cmds tokens n i j = Some cs \<Longrightarrow> Some c \<in> set cs \<Longrightarrow> length (command_args c) < MAX_ARGV_LENGTH"
proof (induction tokens n i j arbitrary: cs rule: build_cmds.induct)
  case (1 tokens n i j)
  show ?case
  proof (cases "i < n")
    case True
    with "1.prems"(1) obtain j1 c1 cs1 where b: "build_cmd tokens j empty_cmd = Some (j1, c1)"
      "build_cmds tokens n (i + 1) j1 = Some cs1"
      "cs = map_option (\<lambda>pl. pl\<lparr>next_cmd := if i < n - 1 then Some (i + 1) else None\<rparr>) c1 # cs1"
      by (subst (asm) build_cmds.simps) (auto simp: Option_bind_eq_Some_conv simp del: build_cmd.simps build_cmds.simps)
    from "1.prems"(2) b(3) consider d where "c1 = Some d" "command_args c = command_args d" | "Some c \<in> set cs1"
      by (cases c1) auto
    then show ?thesis
    proof cases
      case 1
      with build_cmd_args b(1) show ?thesis by metis
    next
      case 2
      with "1.IH" [OF True b(1) refl b(2)] show ?thesis .
    qed
  next
    case False
    with "1.prems" show ?thesis by (subst (asm) build_cmds.simps) simp
  qed
qed

section \<open>Releasing a pipeline\<close>

lemma owned_upd:
  assumes "distinct (owned pl)" "q \<notin> set (owned pl)"
  shows "distinct (owned (pl\<lparr>redirect_out_path := Some q\<rparr>)) \<and> set (owned (pl\<lparr>redirect_out_path := Some q\<rparr>)) \<subseteq> insert q (set (owned pl))"
    and "distinct (owned (pl\<lparr>redirect_in_path := Some q\<rparr>)) \<and> set (owned (pl\<lparr>redirect_in_path := Some q\<rparr>)) \<subseteq> insert q (set (owned pl))"
    and "distinct (owned (pl\<lparr>command_args := command_args pl @ [q]\<rparr>)) \<and>
      set (owned (pl\<lparr>command_args := command_args pl @ [q]\<rparr>)) \<subseteq> insert q (set (owned pl))"
  using assms by (cases "redirect_in_path pl"; cases "redirect_out_path pl"; auto simp: owned_def)+

lemma take_token_owned:
  assumes "take_token tokens j pl = Some (j', catch, pl')" "distinct (owned pl)" "set (owned pl) \<subseteq> {a..<j}" "a \<le> j" "j < length tokens"
  shows "distinct (owned pl') \<and> set (owned pl') \<subseteq> {a..<j' + 1} \<and> j' < length tokens \<and> j \<le> j'"
proof -
  have new: "j \<notin> set (owned pl)" "j + 1 \<notin> set (owned pl)" using assms(3) by auto
  consider "j' = j + 1" "j + 1 < length tokens" "pl' = pl\<lparr>redirect_out_path := Some (j + 1)\<rparr>"
    | "j' = j + 1" "j + 1 < length tokens" "pl' = pl\<lparr>redirect_in_path := Some (j + 1)\<rparr>"
    | "j' = j" "pl' = pl\<lparr>command_args := command_args pl @ [j]\<rparr>" | "j' = j" "pl' = pl"
    using assms(1) by (auto simp: take_token_def put_arg_def Option_bind_eq_Some_conv split: if_splits)
  then show ?thesis
  proof cases
    case 1
    then show ?thesis using owned_upd(1) [OF assms(2) new(2)] assms(3,4) by fastforce
  next
    case 2
    then show ?thesis using owned_upd(2) [OF assms(2) new(2)] assms(3,4) by fastforce
  next
    case 3
    then show ?thesis using owned_upd(3) [OF assms(2) new(1)] assms(3-5) by fastforce
  qed (use assms in auto)
qed

lemma build_cmd_owned:
  assumes "build_cmd tokens j pl = Some (j', c)" "distinct (owned pl)" "set (owned pl) \<subseteq> {a..<j}" "a \<le> j" "j \<le> length tokens"
  shows "j \<le> j' \<and> j' \<le> length tokens \<and> (\<forall>pl'. c = Some pl' \<longrightarrow> distinct (owned pl') \<and> set (owned pl') \<subseteq> {a..<j'})"
  using assms
proof (induction "length tokens - j" arbitrary: j pl rule: less_induct)
  case less
  show ?case
  proof (cases "j < length tokens")
    case True
    obtain j1 catch pl1 where t: "take_token tokens j pl = Some (j1, catch, pl1)"
      using less(2) True by (cases "take_token tokens j pl") (auto simp del: build_cmd.simps simp: build_cmd.simps [of tokens j pl])
    note o = take_token_owned [OF t less(3-5) True, THEN conjunct1]
      take_token_owned [OF t less(3-5) True, THEN conjunct2, THEN conjunct1]
      take_token_owned [OF t less(3-5) True, THEN conjunct2, THEN conjunct2, THEN conjunct1]
      take_token_owned [OF t less(3-5) True, THEN conjunct2, THEN conjunct2, THEN conjunct2]
    show ?thesis
    proof (cases "tokens ! j1 = ''|'' \<or> int j1 > int (length tokens) - 2 \<or> catch")
      case stop: True
      then show ?thesis using less(2) True t o less(5)
        by (auto simp: build_cmd.simps [of tokens j pl] end_args_def split: if_splits simp del: build_cmd.simps)
    next
      case False
      then have bc: "build_cmd tokens (j1 + 1) pl1 = Some (j', c)"
        using less(2) True t by (simp add: build_cmd.simps [of tokens j pl] del: build_cmd.simps)
      have "length tokens - (j1 + 1) < length tokens - j" using True o(4) by simp
      from less(1) [OF this bc o(1,2)] show ?thesis using o(3,4) less(5) by (simp del: build_cmd.simps)
    qed
  qed (use less in auto)
qed

text \<open>The commands of a line own blocks of consecutive stretches of the tokens.\<close>

fun owned_all :: "pipeline_command option list \<Rightarrow> nat list" where
  "owned_all [] = []"
| "owned_all (c # cs) = (case c of None \<Rightarrow> [] | Some pl \<Rightarrow> owned pl) @ owned_all cs"

lemma build_cmds_owned:
  assumes "build_cmds tokens num i j = Some cs" "j \<le> length tokens"
  shows "length cs = num - i \<and> distinct (owned_all cs) \<and> set (owned_all cs) \<subseteq> {j..<length tokens} \<and>
    (\<forall>k < length cs. \<forall>pl. cs ! k = Some pl \<longrightarrow> next_cmd pl = (if i + k < num - 1 then Some (i + k + 1) else None))"
  using assms
proof (induction "num - i" arbitrary: i j cs rule: less_induct)
  case less
  show ?case
  proof (cases "i < num")
    case True
    obtain j' c cs' where c: "build_cmd tokens j empty_cmd = Some (j', c)" "build_cmds tokens num (i + 1) j' = Some cs'"
      "cs = map_option (\<lambda>pl. pl\<lparr>next_cmd := if i < num - 1 then Some (i + 1) else None\<rparr>) c # cs'"
      using less(2) True by (auto simp: build_cmds.simps [of tokens num i j] Option_bind_eq_Some_conv simp del: build_cmd.simps build_cmds.simps)
    have o: "j \<le> j' \<and> j' \<le> length tokens \<and> (\<forall>pl'. c = Some pl' \<longrightarrow> distinct (owned pl') \<and> set (owned pl') \<subseteq> {j..<j'})"
      by (rule build_cmd_owned [OF c(1)]) (use less(3) in \<open>simp_all add: owned_def empty_cmd_def\<close>)
    have IH: "length cs' = num - (i + 1) \<and> distinct (owned_all cs') \<and> set (owned_all cs') \<subseteq> {j'..<length tokens} \<and>
        (\<forall>k < length cs'. \<forall>pl. cs' ! k = Some pl \<longrightarrow> next_cmd pl = (if i + 1 + k < num - 1 then Some (i + 1 + k + 1) else None))"
      by (rule less(1) [OF _ c(2)]) (use True o in simp_all)
    have ow: "owned (pl\<lparr>next_cmd := x\<rparr>) = owned pl" for pl x by (simp add: owned_def)
    have "cs ! k = Some pl \<Longrightarrow> next_cmd pl = (if i + k < num - 1 then Some (i + k + 1) else None)" if "k < length cs" for k pl
      using IH that c(3) by (cases k) auto
    moreover have "distinct (owned_all cs) \<and> set (owned_all cs) \<subseteq> {j..<length tokens}"
    proof (cases c)
      case (Some pl)
      have "set (owned pl) \<inter> set (owned_all cs') = {}" using o IH Some by fastforce
      then show ?thesis using IH o Some by (auto simp: c(3) ow)
    qed (use IH o in \<open>auto simp: c(3)\<close>)
    ultimately show ?thesis using IH True by (simp add: c(3))
  qed (use less(2) in \<open>simp del: build_cmd.simps\<close>)
qed

lemma free_all_ok:
  "distinct ps \<Longrightarrow> distinct heap \<Longrightarrow> set ps \<subseteq> set heap \<Longrightarrow> \<exists>heap'. free_all ps heap = Some heap' \<and> distinct heap' \<and> set heap' = set heap - set ps"
proof (induction ps arbitrary: heap)
  case (Cons p ps)
  then have "set ps \<subseteq> set (remove1 p heap)" by auto
  with Cons obtain heap' where "free_all ps (remove1 p heap) = Some heap'" "distinct heap'" "set heap' = set (remove1 p heap) - set ps"
    by (metis distinct.simps(2) distinct_remove1)
  then show ?case using Cons.prems by auto
qed simp

lemma free_cmds_ok:
  assumes "\<forall>k < length cs. \<exists>pl. cs ! k = Some pl \<and> next_cmd pl = (if k < length cs - 1 then Some (k + 1) else None)"
    and "k < length cs" "distinct (owned_all (drop k cs))" "set (owned_all (drop k cs)) \<subseteq> set heap" "distinct heap"
  shows "\<exists>heap'. free_cmds (length cs - k) cs k heap = Some heap' \<and> set heap' = set heap - set (owned_all (drop k cs))"
  using assms(2-5)
proof (induction "length cs - k" arbitrary: k heap)
  case (Suc n)
  obtain pl where pl: "cs ! k = Some pl" "next_cmd pl = (if k < length cs - 1 then Some (k + 1) else None)" using assms(1) Suc(3) by blast
  have d: "drop k cs = Some pl # drop (k + 1) cs" using Suc(3) pl(1) Cons_nth_drop_Suc [of k cs] by simp
  obtain heap1 where h1: "free_all (owned pl) heap = Some heap1" "distinct heap1" "set heap1 = set heap - set (owned pl)"
    using free_all_ok [of "owned pl" heap] Suc(4-6) by (auto simp: d)
  have step: "free_cmds (length cs - k) cs k heap = (case next_cmd pl of None \<Rightarrow> Some heap1 | Some i' \<Rightarrow> free_cmds n cs i' heap1)"
    using Suc(2,3) pl(1) h1(1) by (simp add: nth_opt_def Suc(2) [symmetric])
  show ?case
  proof (cases "k + 1 < length cs")
    case True
    have "\<exists>heap'. free_cmds (length cs - (k + 1)) cs (k + 1) heap1 = Some heap' \<and> set heap' = set heap1 - set (owned_all (drop (k + 1) cs))"
      by (rule Suc(1)) (use Suc(2,4,5) True h1 in \<open>auto simp: d\<close>)
    moreover have "length cs - (k + 1) = n" using Suc(2) by simp
    ultimately show ?thesis using step pl(2) True h1(3) by (auto simp: d)
  next
    case False
    then show ?thesis using step pl(2) h1(3) by (auto simp: d)
  qed
qed simp

text \<open>The commands form one chain along their \<open>next\<close> pointers.\<close>

definition chained :: "pipeline_command option list \<Rightarrow> bool" where
  "chained cs \<longleftrightarrow> (\<forall>k < length cs. \<exists>pl. cs ! k = Some pl \<and> next_cmd pl = (if k < length cs - 1 then Some (k + 1) else None))"

lemma pipeline_build_chained:
  assumes "pipeline_build M line = Some (n, p, tokens)" "None \<notin> set (commands p)"
  shows "chained (commands p)" "length (commands p) = n" "n \<ge> 1"
proof -
  have b: "build_cmds tokens n 0 0 = Some (commands p)" "n = find_num_cmds tokens"
    using assms(1) by (auto simp: pipeline_build_def Option_bind_eq_Some_conv Let_def simp del: build_cmds.simps)
  note o = build_cmds_owned [OF b(1), simplified]
  show "length (commands p) = n" using o by simp
  show "n \<ge> 1" using b(2) by (simp add: find_num_cmds_count)
  show "chained (commands p)" unfolding chained_def
  proof (intro allI impI)
    fix k assume k: "k < length (commands p)"
    then obtain pl where "commands p ! k = Some pl" using assms(2) nth_mem [OF k] by (cases "commands p ! k") auto
    then show "\<exists>pl. commands p ! k = Some pl \<and> next_cmd pl = (if k < length (commands p) - 1 then Some (k + 1) else None)"
      using o k by auto
  qed
qed

text \<open>A pipeline that was built is released without freeing a block twice.\<close>

lemma pipeline_free_built:
  assumes "pipeline_build M line = Some (n, p, tokens)" "None \<notin> set (commands p)"
  shows "\<exists>heap. pipeline_free p [0..<length tokens] = Some heap \<and>
    set heap = {..<length tokens} - (\<Union>c \<in> set (commands p). set (owned (the c)))"
proof -
  have b: "build_cmds tokens n 0 0 = Some (commands p)"
    using assms(1) by (auto simp: pipeline_build_def Option_bind_eq_Some_conv Let_def simp del: build_cmds.simps)
  note c = pipeline_build_chained [OF assms]
  have "\<exists>heap. free_cmds (length (commands p) - 0) (commands p) 0 [0..<length tokens] = Some heap \<and>
      set heap = set [0..<length tokens] - set (owned_all (drop 0 (commands p)))"
    by (rule free_cmds_ok [OF c(1) [unfolded chained_def]])
      (use build_cmds_owned [OF b, simplified] c(2,3) in \<open>auto simp: atLeast0LessThan\<close>)
  moreover have "set (owned_all cs) = (\<Union>c \<in> set cs. set (owned (the c)))" if "None \<notin> set cs" for cs
    using that by (induction cs) auto
  ultimately show ?thesis using assms(2) by (auto simp: pipeline_free_def atLeast0LessThan)
qed

text \<open>
  What the shell relies on of its parser: commands that are all assigned form one chain, and the
  pipeline can be released.
\<close>

locale command_builder =
  fixes build :: "string \<Rightarrow> (nat \<times> pipeline \<times> string list) option"
  assumes build_chained: "build line = Some (n, p, tokens) \<Longrightarrow> None \<notin> set (commands p) \<Longrightarrow>
      chained (commands p) \<and> length (commands p) = n \<and> n \<ge> 1"
    and build_free: "build line = Some (n, p, tokens) \<Longrightarrow> None \<notin> set (commands p) \<Longrightarrow>
      \<exists>heap. pipeline_free p [0..<length tokens] = Some heap"

interpretation parser: command_builder "pipeline_build M" for M
  by unfold_locales (auto dest: pipeline_build_chained pipeline_free_built)

text \<open>For evaluation: an allocator that leaves a zero byte behind every block.\<close>

definition zero_behind :: residue where
  "zero_behind j = []"

lemmas parse_eval = pipeline_build_def find_tokens_def push_token_def isWhiteSpace_def isSpecialToken_def take_token_def put_arg_def
  end_args_def empty_cmd_def last_token_def MAX_ARGV_LENGTH_def MAX_LINE_LENGTH_def

end
