(* ===== verification/Shell_Parse_Props.thy ===== *)
theory Shell_Parse_Props
  imports Shell_Parse_Facts
begin

text \<open>The properties of the parser of the shell.\<close>

text \<open>
  C11. The tokenizer gives the tokens of the reference tokenizer, each followed by what the allocator
  left behind its block, except that a word at the very end of the line, with no blank, newline or
  operator behind it, is dropped.
\<close>

theorem find_tokens_matches_reference:
  assumes "CHR 0x00 \<notin> set line" and "length line \<le> MAX_ARGV_LENGTH * MAX_LINE_LENGTH div 8"
  shows "find_tokens M line = Some (place M 0
    (if line \<noteq> [] \<and> word_char (last line) then butlast (lex_line line) else lex_line line))"
  using find_tokens_lex [OF assms] by (simp add: lex_closed_def)

theorem find_tokens_matches_reference_witness:
  "find_tokens zero_behind ''ls -al>out'' = Some [''ls'', ''-al'', ''>'']"
  using find_tokens_matches_reference [of "''ls -al>out''" zero_behind]
  by (simp add: MAX_ARGV_LENGTH_def MAX_LINE_LENGTH_def zero_behind_def word_char_def isWhiteSpace_def isSpecialToken_def)

text \<open>
  C6. Where a zero byte follows every block, \<open>pipeline_build\<close> gives a command line its meaning:
  whatever its spacing, a line whose tokens are commands separated by pipes, with an ampersand or not,
  gives one structure per command with its arguments in order and the last file redirected to in each
  direction, wherever the redirections stand, and the flag of the ampersand.
\<close>

theorem pipeline_build_meaning:
  assumes "\<And>j. M j = []" and "CHR 0x00 \<notin> set line" and "length line < MAX_LINE_LENGTH"
    and "lex_closed line = line_tokens iss bg" and "iss \<noteq> []" and "\<forall>is \<in> set iss. items_ok is" and "bg \<or> last iss \<noteq> []"
  shows "\<exists>p. pipeline_build M line = Some (length iss, p, line_tokens iss bg) \<and>
    map (map_option (view (line_tokens iss bg))) (commands p) = map (Some \<circ> meaning_of) iss \<and> is_background p = bg"
  by (rule pipeline_build_tokens [OF assms(1,2) _ assms(4-7)])
    (use assms(3) in \<open>simp add: MAX_ARGV_LENGTH_def MAX_LINE_LENGTH_def\<close>)

theorem pipeline_build_meaning_witness:
  "\<exists>p. pipeline_build zero_behind (''ls>a|'' @ [CHR 0x09] @ ''wc  -l'' @ [CHR 0x0A]) = Some (Suc (Suc 0), p, [''ls'', ''>'', ''a'', ''|'', ''wc'', ''-l'']) \<and>
    map (map_option (view [''ls'', ''>'', ''a'', ''|'', ''wc'', ''-l''])) (commands p) =
      [Some \<lparr>m_args = [''ls''], m_in = None, m_out = Some ''a''\<rparr>, Some \<lparr>m_args = [''wc'', ''-l''], m_in = None, m_out = None\<rparr>] \<and>
    is_background p = False"
  using pipeline_build_meaning [of zero_behind "''ls>a|'' @ [CHR 0x09] @ ''wc  -l'' @ [CHR 0x0A]" "[[Arg ''ls'', Out ''a''], [Arg ''wc'', Arg ''-l'']]" False]
  by (simp add: zero_behind_def MAX_ARGV_LENGTH_def MAX_LINE_LENGTH_def lex_closed_def word_char_def isWhiteSpace_def isSpecialToken_def
      cmd_tokens_def items_ok_def plain_def meaning_of_def)

text \<open>
  C35. Every line that \<open>fgets\<close> can deliver fits the arrays \<open>tokens\<close> and \<open>command_args\<close>: with at most 511
  characters, and zero bytes behind the blocks of the tokens, the tokens are stored within \<open>tokens\<close> and
  are no more than the characters, every command has room for its arguments and the \<open>NULL\<close> behind
  them, and \<open>pipeline_build\<close> goes wrong after that exactly for a line without tokens, where it reads
  \<open>tokens[-1]\<close>. This is about those two arrays only: the zero byte that \<open>strcpy\<close> writes one past
  \<open>cl_cpy\<close> on every line is not in the model, and what lies behind the blocks of tokens, which
  \<open>strcmp\<close> reads, is the assumption on \<open>M\<close>.
\<close>

theorem short_lines_fit:
  assumes "\<And>j. M j = []" and "CHR 0x00 \<notin> set line" and "length line < MAX_LINE_LENGTH"
  shows "\<exists>tokens cs. find_tokens M line = Some tokens \<and> length tokens \<le> length line \<and>
    build_cmds tokens (find_num_cmds tokens) 0 0 = Some cs \<and>
    (\<forall>c. Some c \<in> set cs \<longrightarrow> length (command_args c) < MAX_ARGV_LENGTH) \<and>
    (pipeline_build M line = None \<longleftrightarrow> lex_closed line = [])"
proof -
  have ft: "find_tokens M line = Some (lex_closed line)"
    using find_tokens_lex [OF assms(2), of M] assms(1,3) by (simp add: place_zero MAX_ARGV_LENGTH_def MAX_LINE_LENGTH_def)
  have "length (filter plain (lex_closed line)) < MAX_ARGV_LENGTH - 1"
    using words_in_line [of line] assms(3) by (simp add: MAX_ARGV_LENGTH_def MAX_LINE_LENGTH_def)
  then obtain cs where cs: "build_cmds (lex_closed line) (find_num_cmds (lex_closed line)) 0 0 = Some cs"
    using build_cmds_room by blast
  have args: "\<forall>c. Some c \<in> set cs \<longrightarrow> length (command_args c) < MAX_ARGV_LENGTH"
    using build_cmds_args [OF cs] by blast
  have none: "pipeline_build M line = None \<longleftrightarrow> lex_closed line = []"
    using ft cs by (simp add: pipeline_build_def last_token_def del: build_cmds.simps)
  show ?thesis
    by (intro exI [of _ "lex_closed line"] exI [of _ cs] conjI ft cs args none length_lex_closed)
qed

theorem short_lines_fit_witness:
  "pipeline_build zero_behind (''  '' @ [CHR 0x0A]) = None \<and> pipeline_build zero_behind (''a'' @ [CHR 0x0A]) \<noteq> None"
  using short_lines_fit [of zero_behind "''  '' @ [CHR 0x0A]"] short_lines_fit [of zero_behind "''a'' @ [CHR 0x0A]"]
  by (auto simp: zero_behind_def MAX_LINE_LENGTH_def lex_closed_def word_char_def isWhiteSpace_def isSpecialToken_def
      simp del: build_cmds.simps)

text \<open>
  C37. Tokens are not terminated: a pipe of the line counts as a pipe exactly when the byte behind its
  block happens to be zero. The number of commands that \<open>pipeline_build\<close> reports is one more than the
  number of those pipes.
\<close>

theorem pipes_need_zero_byte:
  assumes "CHR 0x00 \<notin> set line" and "length line \<le> MAX_ARGV_LENGTH * MAX_LINE_LENGTH div 8"
    and "pipeline_build M line = Some (num_commands, p, tokens)"
  shows "num_commands = 1 + card {j. j < length (lex_closed line) \<and> lex_closed line ! j = ''|'' \<and> M j = []}"
proof -
  define ts where "ts = lex_closed line"
  have "num_commands = find_num_cmds (place M 0 ts)"
    using assms(3) find_tokens_lex [OF assms(1,2), of M] by (auto simp: ts_def pipeline_build_def Option_bind_eq_Some_conv Let_def simp del: build_cmds.simps)
  also have "\<dots> = 1 + card {j. j < length ts \<and> place M 0 ts ! j = ''|''}"
    by (simp add: find_num_cmds_count length_filter_conv_card)
  also have "{j. j < length ts \<and> place M 0 ts ! j = ''|''} = {j. j < length ts \<and> ts ! j = ''|'' \<and> M j = []}"
  proof (rule Collect_cong, rule conj_cong [OF refl])
    fix j assume j: "j < length ts"
    then have "ts ! j \<noteq> []" using lex_closed_nonempty [of "ts ! j" line] by (auto simp: ts_def)
    then show "place M 0 ts ! j = ''|'' \<longleftrightarrow> ts ! j = ''|'' \<and> M j = []"
      using j by (cases "ts ! j") (auto simp: nth_place)
  qed
  finally show ?thesis by (simp add: ts_def)
qed

theorem pipes_need_zero_byte_witness:
  "\<exists>p tokens. pipeline_build (\<lambda>j. ''!'') (''a|b'' @ [CHR 0x0A]) = Some (1, p, tokens)"
proof -
  define line where "line = ''a|b'' @ [CHR 0x0A]"
  have l: "CHR 0x00 \<notin> set line" "length line \<le> MAX_ARGV_LENGTH * MAX_LINE_LENGTH div 8"
    by (simp_all add: line_def MAX_ARGV_LENGTH_def MAX_LINE_LENGTH_def)
  have "pipeline_build (\<lambda>j. ''!'') line \<noteq> None" unfolding line_def by (simp add: parse_eval)
  then obtain n p tokens where b: "pipeline_build (\<lambda>j. ''!'') line = Some (n, p, tokens)" by auto
  from pipes_need_zero_byte [OF l b] show ?thesis using b by (auto simp: line_def)
qed

text \<open>
  C36. \<open>pipeline_free\<close> on a pipeline that \<open>pipeline_build\<close> made and whose commands were all assigned
  ends after visiting each command once and frees no block twice: it releases exactly the blocks the
  commands point to. The blocks of operators, and of redirections overridden by a later one, are left.
\<close>

theorem pipeline_free_ends:
  assumes "pipeline_build M line = Some (num_commands, p, tokens)" and "None \<notin> set (commands p)"
  shows "\<exists>heap. pipeline_free p [0..<length tokens] = Some heap \<and>
    set heap = {..<length tokens} - (\<Union>c \<in> set (commands p). set (owned (the c)))"
  by (rule pipeline_free_built [OF assms])

theorem pipeline_free_ends_witness:
  "\<exists>n p tokens heap. pipeline_build zero_behind (''a >b > c|d'' @ [CHR 0x0A]) = Some (n, p, tokens) \<and>
     pipeline_free p [0..<length tokens] = Some heap \<and> set heap = {1, 2, 3, 5}"
proof -
  define p where "p = \<lparr>commands = [Some \<lparr>command_args = [0], redirect_in_path = None, redirect_out_path = Some 4, next_cmd = Some 1\<rparr>,
      Some \<lparr>command_args = [6], redirect_in_path = None, redirect_out_path = None, next_cmd = None\<rparr>], is_background = False\<rparr>"
  have b: "pipeline_build zero_behind (''a >b > c|d'' @ [CHR 0x0A]) = Some (2, p, [''a'', ''>'', ''b'', ''>'', ''c'', ''|'', ''d''])"
    unfolding p_def zero_behind_def by (simp add: parse_eval zero_behind_def)
  have "{..<7 :: nat} - {0, 4, 6} = {1, 2, 3, 5}" by auto
  then show ?thesis using pipeline_free_ends [OF b] b by (auto simp: p_def owned_def)
qed

end
