(* ===== verification/Shell_Exec.thy ===== *)
theory Shell_Exec
  imports Shell_Parse
begin

text \<open>
  The shell, \<open>simple_shell/src/myshell.c\<close>: redirections, the wiring of pipes in a child, and the loop of
  \<open>main\<close>.

  \<^item> A process has a table of descriptors, a list in which \<open>None\<close> is a closed descriptor; \<open>open\<close> and
    \<open>pipe\<close> take the lowest closed ones. An object is an inherited stream, an end of the \<open>n\<close>-th pipe or a
    file.
  \<^item> The operating system is the parameter \<open>E\<close>: which files can be opened, and whether the \<open>n\<close>-th
    \<open>pipe\<close> and \<open>fork\<close> succeed.
  \<^item> A child is represented by its argument strings and its descriptors when it calls \<open>execvp\<close>; no
    arguments stands for \<open>execvp (NULL, \<dots>)\<close>. Messages of \<open>perror\<close> and the prompt are not represented.
\<close>

datatype fd_obj = Stream nat | Pipe_r nat | Pipe_w nat | File_r string | File_w string

type_synonym fds = "fd_obj option list"

record sh_os =
  open_ok :: "string \<Rightarrow> bool"
  pipe_ok :: "nat \<Rightarrow> bool"
  fork_ok :: "nat \<Rightarrow> bool"

section \<open>Descriptors\<close>

definition get_fd :: "fds \<Rightarrow> nat \<Rightarrow> fd_obj option" where
  "get_fd d n = (if n < length d then d ! n else None)"

definition set_fd :: "nat \<Rightarrow> fd_obj option \<Rightarrow> fds \<Rightarrow> fds" where
  "set_fd n v d = (d @ replicate (Suc n - length d) None)[n := v]"

fun lowest_fd :: "fds \<Rightarrow> nat" where
  "lowest_fd [] = 0"
| "lowest_fd (None # d) = 0"
| "lowest_fd (Some x # d) = Suc (lowest_fd d)"

definition sys_open :: "sh_os \<Rightarrow> string \<Rightarrow> fd_obj \<Rightarrow> fds \<Rightarrow> int \<times> fds" where
  "sys_open E name v d = (if open_ok E name then (int (lowest_fd d), set_fd (lowest_fd d) (Some v) d) else (- 1, d))"

definition dup2 :: "nat \<Rightarrow> nat \<Rightarrow> fds \<Rightarrow> bool \<times> fds" where
  "dup2 old new d = (case get_fd d old of None \<Rightarrow> (False, d) | Some v \<Rightarrow> (True, set_fd new (Some v) d))"

definition close_fd :: "nat \<Rightarrow> fds \<Rightarrow> fds" where
  "close_fd n d = (if get_fd d n = None then d else set_fd n None d)"

definition sys_pipe :: "nat \<Rightarrow> fds \<Rightarrow> nat \<times> nat \<times> fds" where
  "sys_pipe k d = (let r = lowest_fd d; d = set_fd r (Some (Pipe_r k)) d;
                       w = lowest_fd d; d = set_fd w (Some (Pipe_w k)) d in (r, w, d))"

section \<open>The child\<close>

definition redirect_to :: "sh_os \<Rightarrow> string \<Rightarrow> fd_obj \<Rightarrow> nat \<Rightarrow> fds \<Rightarrow> fds" where
  "redirect_to E name v std d =
    (let (f, d) = sys_open E name v d in
     if f > 0 then let (b, d) = dup2 (nat f) std d in close_fd (nat f) d else d)"

definition redirection :: "sh_os \<Rightarrow> string option \<Rightarrow> string option \<Rightarrow> nat \<Rightarrow> nat \<Rightarrow> fds \<Rightarrow> fds" where
  "redirection E rdr_in rdr_out num_commands curr_cmd_num d =
    (let d = (case rdr_in of Some name \<Rightarrow> if curr_cmd_num = 0 then redirect_to E name (File_r name) 0 d else d | None \<Rightarrow> d)
     in case rdr_out of
          Some name \<Rightarrow> if int curr_cmd_num = int num_commands - 1 then redirect_to E name (File_w name) 1 d else d
        | None \<Rightarrow> d)"

fun close_all :: "nat list \<Rightarrow> fds \<Rightarrow> fds" where
  "close_all [] d = d"
| "close_all (f # fs) d = close_all fs (close_fd f d)"

definition multi_commands :: "nat list \<Rightarrow> nat \<Rightarrow> nat \<Rightarrow> fds \<Rightarrow> fds option" where
  "multi_commands pipefd num_commands curr_cmd_num d = do {
     (b, d) \<leftarrow> (if curr_cmd_num \<noteq> 0 then do { f \<leftarrow> nth_opt pipefd ((curr_cmd_num - 1) * 2); Some (dup2 f 0 d) } else Some (True, d));
     if \<not> b then Some d else do {
     (b, d) \<leftarrow> (if curr_cmd_num < num_commands - 1 then do { f \<leftarrow> nth_opt pipefd (curr_cmd_num * 2 + 1); Some (dup2 f 1 d) } else Some (True, d));
     if \<not> b then Some d else do {
     fs \<leftarrow> mem_read pipefd 0 (2 * (num_commands - 1));
     Some (close_all fs d) } } }"

record child =
  c_argv :: "string list"
  c_fds :: fds

definition run_child :: "sh_os \<Rightarrow> nat list \<Rightarrow> nat \<Rightarrow> nat \<Rightarrow> string list \<Rightarrow> pipeline_command \<Rightarrow> fds \<Rightarrow> child option" where
  "run_child E pipefd num_commands curr_cmd_num tokens pl d = do {
     d \<leftarrow> (if num_commands > 1 then multi_commands pipefd num_commands curr_cmd_num d else Some d);
     let d = redirection E (map_option (\<lambda>p. tokens ! p) (redirect_in_path pl)) (map_option (\<lambda>p. tokens ! p) (redirect_out_path pl))
               num_commands curr_cmd_num d;
     Some \<lparr>c_argv = map (\<lambda>p. tokens ! p) (command_args pl), c_fds = d\<rparr> }"

section \<open>The loop of main\<close>

record shell =
  s_fds :: fds
  s_pipes :: nat
  s_forks :: nat
  s_children :: "child list"
  s_waits :: nat
  s_handler :: bool

text \<open>The three ways an iteration ends: the next prompt, or a return from \<open>main\<close>.\<close>

datatype line_outcome = Continue shell | Return int shell

function make_pipes :: "sh_os \<Rightarrow> nat \<Rightarrow> nat \<Rightarrow> nat list \<Rightarrow> shell \<Rightarrow> (bool \<times> nat list \<times> shell) option" where
  "make_pipes E i n pipefd s =
    (if i < n then
       if pipe_ok E (s_pipes s) then
         let (r, w, d) = sys_pipe (s_pipes s) (s_fds s) in do {
           pipefd \<leftarrow> upd_opt pipefd (i * 2) r;
           pipefd \<leftarrow> upd_opt pipefd (i * 2 + 1) w;
           make_pipes E (i + 1) n pipefd (s\<lparr>s_fds := d, s_pipes := s_pipes s + 1\<rparr>) }
       else Some (False, pipefd, s\<lparr>s_pipes := s_pipes s + 1\<rparr>)
     else Some (True, pipefd, s))"
  by pat_completeness auto
termination by (relation "measure (\<lambda>(E, i, n, pipefd, s). n - i)") auto

text \<open>The commands are started along their \<open>next\<close> pointers, at most \<open>n\<close> of them.\<close>

fun launch :: "nat \<Rightarrow> sh_os \<Rightarrow> nat list \<Rightarrow> nat \<Rightarrow> string list \<Rightarrow> pipeline_command option list \<Rightarrow> nat \<Rightarrow> nat \<Rightarrow> shell \<Rightarrow> (bool \<times> shell) option" where
  "launch 0 E pipefd num_commands tokens cmds curr_cmd_num i s = None"
| "launch (Suc n) E pipefd num_commands tokens cmds curr_cmd_num i s = do {
     c \<leftarrow> nth_opt cmds i;
     pl \<leftarrow> c;
     if \<not> fork_ok E (s_forks s) then Some (False, s\<lparr>s_forks := s_forks s + 1\<rparr>)
     else do {
       ch \<leftarrow> run_child E pipefd num_commands curr_cmd_num tokens pl (s_fds s);
       let s = s\<lparr>s_forks := s_forks s + 1, s_children := s_children s @ [ch]\<rparr>;
       (case next_cmd pl of
          None \<Rightarrow> Some (True, s)
        | Some i' \<Rightarrow> launch n E pipefd num_commands tokens cmds (curr_cmd_num + 1) i' s) } }"

definition shell_line :: "sh_os \<Rightarrow> residue \<Rightarrow> string \<Rightarrow> shell \<Rightarrow> line_outcome option" where
  "shell_line E M command_line s = do {
     (num_commands, p, tokens) \<leftarrow> pipeline_build M command_line;
     (b, pipefd, s) \<leftarrow> make_pipes E 0 (2 * (num_commands - 1)) (replicate (2 * (num_commands - 1)) 0) s;
     if \<not> b then Some (Return 0 s) else do {
     (b, s) \<leftarrow> launch (length (commands p)) E pipefd num_commands tokens (commands p) 0 0 s;
     if \<not> b then Some (Return 1 s) else do {
     fs \<leftarrow> mem_read pipefd 0 (2 * (num_commands - 1));
     let s = s\<lparr>s_fds := close_all fs (s_fds s)\<rparr>;
     Some (Continue (if is_background p then s\<lparr>s_handler := True\<rparr> else s\<lparr>s_waits := s_waits s + num_commands\<rparr>)) } } }"

text \<open>
  The lines that \<open>fgets\<close> delivers. At the end of the input the buffer, which still holds the line before,
  is parsed once more before the shell returns; without a line before it is not initialized.
\<close>

fun shell_main :: "sh_os \<Rightarrow> (nat \<Rightarrow> residue) \<Rightarrow> nat \<Rightarrow> string option \<Rightarrow> string list \<Rightarrow> shell \<Rightarrow> (int \<times> shell) option" where
  "shell_main E M k buffer [] s = do {
     command_line \<leftarrow> buffer;
     (num_commands, p, tokens) \<leftarrow> pipeline_build (M k) command_line;
     heap \<leftarrow> pipeline_free p [0..<length tokens];
     Some (0, s) }"
| "shell_main E M k buffer (line # lines) s = do {
     r \<leftarrow> shell_line E (M k) line s;
     (case r of
        Continue s \<Rightarrow> shell_main E M (k + 1) (Some line) lines s
      | Return rc s \<Rightarrow> Some (rc, s)) }"

text \<open>The handler of \<open>SIGCHLD\<close>, on the results of its successive calls of \<open>waitpid\<close>.\<close>

fun handle_child :: "int list \<Rightarrow> int list" where
  "handle_child [] = []"
| "handle_child (pid # pids) = (if pid > 0 then handle_child pids else pids)"

end
