(* ===== verification/Shell_Exec_Facts.thy ===== *)
theory Shell_Exec_Facts
  imports Shell_Exec Shell_Parse_Facts
begin

text \<open>
  What the children of a command line find at their descriptors, and what the loop of \<open>main\<close> does with
  a parsed line.
\<close>

section \<open>Descriptors\<close>

lemma get_set_fd [simp]: "get_fd (set_fd n v d) m = (if m = n then v else get_fd d m)"
  by (auto simp: get_fd_def set_fd_def nth_append nth_list_update)

lemma get_close_fd [simp]: "get_fd (close_fd n d) m = (if m = n then None else get_fd d m)"
  by (simp add: close_fd_def)

lemma get_close_all: "get_fd (close_all fs d) m = (if m \<in> set fs then None else get_fd d m)"
  by (induction fs arbitrary: d) auto

lemma dup2_ok: "get_fd d f = Some v \<Longrightarrow> dup2 f std d = (True, set_fd std (Some v) d)"
  by (simp add: dup2_def)

lemma get_fd_simps [simp]: "get_fd [] n = None" "get_fd (x # d) 0 = x" "get_fd (x # d) (Suc n) = get_fd d n"
  by (simp_all add: get_fd_def)

lemma lowest_fd_free: "get_fd d (lowest_fd d) = None"
  by (induction d rule: lowest_fd.induct) auto

lemma lowest_fd_least: "\<forall>k < m. get_fd d k \<noteq> None \<Longrightarrow> m \<le> lowest_fd d"
  using lowest_fd_free [of d] not_less by blast

section \<open>One child\<close>

text \<open>A redirection replaces a standard descriptor when the file can be opened, and changes no other.\<close>

lemma get_redirect_to:
  assumes "\<forall>k < 2. get_fd d k \<noteq> None" "std < 2"
  shows "get_fd (redirect_to E name v std d) f = (if f = std \<and> open_ok E name then Some v else get_fd d f)"
proof -
  have "2 \<le> lowest_fd d" using lowest_fd_least [OF assms(1)] .
  then show ?thesis using assms(2) lowest_fd_free [of d]
    by (simp add: redirect_to_def sys_open_def dup2_def)
qed

definition opened :: "sh_os \<Rightarrow> string option \<Rightarrow> (string \<Rightarrow> fd_obj) \<Rightarrow> fd_obj option \<Rightarrow> fd_obj option" where
  "opened E path mk old = (case path of Some name \<Rightarrow> if open_ok E name then Some (mk name) else old | None \<Rightarrow> old)"

lemma opened_open: "old \<noteq> None \<Longrightarrow> opened E path mk old \<noteq> None"
  by (auto simp: opened_def split: option.splits)

lemma get_redirection:
  assumes "\<forall>k < 2. get_fd d k \<noteq> None" "i < n"
  shows "get_fd (redirection E pin pout n i d) f =
    (if f = 0 \<and> i = 0 then opened E pin File_r (get_fd d 0)
     else if f = 1 \<and> i = n - 1 then opened E pout File_w (get_fd d 1) else get_fd d f)"
proof -
  define d1 where "d1 = (case pin of Some name \<Rightarrow> if i = 0 then redirect_to E name (File_r name) 0 d else d | None \<Rightarrow> d)"
  have d1: "get_fd d1 f = (if f = 0 \<and> i = 0 then opened E pin File_r (get_fd d 0) else get_fd d f)" for f
    using assms(1) by (auto simp: d1_def opened_def get_redirect_to split: option.splits)
  have "get_fd d1 k \<noteq> None" if "k < 2" for k using d1 [of k] assms(1) that opened_open [of "get_fd d 0"] by auto
  moreover have "redirection E pin pout n i d =
      (case pout of Some name \<Rightarrow> if int i = int n - 1 then redirect_to E name (File_w name) 1 d1 else d1 | None \<Rightarrow> d1)"
    by (simp add: redirection_def d1_def Let_def split: option.split)
  ultimately show ?thesis using d1 assms(2) by (auto simp: opened_def get_redirect_to split: option.splits)
qed

text \<open>
  The array \<open>pipefd\<close> as the loop of \<open>main\<close> is meant to fill it: the ends of pipe \<open>b + k\<close> at
  \<open>2 * k\<close> and \<open>2 * k + 1\<close>, none of them a standard descriptor.
\<close>

definition pipes_at :: "fds \<Rightarrow> nat list \<Rightarrow> nat \<Rightarrow> nat \<Rightarrow> bool" where
  "pipes_at d pipefd b n \<longleftrightarrow> length pipefd = 2 * (n - 1) \<and> (\<forall>f \<in> set pipefd. 2 \<le> f) \<and>
     (\<forall>k < n - 1. get_fd d (pipefd ! (2 * k)) = Some (Pipe_r (b + k)) \<and> get_fd d (pipefd ! (2 * k + 1)) = Some (Pipe_w (b + k)))"

lemma multi_commands_wired:
  assumes "pipes_at d pipefd b n" "i < n"
  obtains d' where "multi_commands pipefd n i d = Some d'"
    "get_fd d' 0 = (if i = 0 then get_fd d 0 else Some (Pipe_r (b + (i - 1))))"
    "get_fd d' 1 = (if i = n - 1 then get_fd d 1 else Some (Pipe_w (b + i)))"
    "\<And>f. 2 \<le> f \<Longrightarrow> get_fd d' f = (if f \<in> set pipefd then None else get_fd d f)"
proof -
  note p = assms(1) [unfolded pipes_at_def]
  have big: "2 \<le> pipefd ! k" if "k < 2 * (n - 1)" for k using p that by auto
  define d1 where "d1 = (if i \<noteq> 0 then set_fd 0 (Some (Pipe_r (b + (i - 1)))) d else d)"
  define d2 where "d2 = (if i < n - 1 then set_fd 1 (Some (Pipe_w (b + i))) d1 else d1)"
  have s1: "(if i \<noteq> 0 then do { f \<leftarrow> nth_opt pipefd ((i - 1) * 2); Some (dup2 f 0 d) } else Some (True, d)) = Some (True, d1)"
    using p assms(2) by (auto simp: d1_def nth_opt_in mult.commute [of _ 2] intro!: dup2_ok)
  have "get_fd d1 (pipefd ! (i * 2 + 1)) = Some (Pipe_w (b + i))" if "i < n - 1"
  proof -
    have "pipefd ! (i * 2 + 1) \<noteq> 0" using big [of "i * 2 + 1"] that by auto
    moreover have "get_fd d (pipefd ! (i * 2 + 1)) = Some (Pipe_w (b + i))"
      using p that by (simp add: mult.commute [of i 2] del: One_nat_def)
    ultimately show ?thesis by (cases "i = 0") (simp_all add: d1_def)
  qed
  then have s2: "(if i < n - 1 then do { f \<leftarrow> nth_opt pipefd (i * 2 + 1); Some (dup2 f 1 d1) } else Some (True, d1)) = Some (True, d2)"
    using p by (auto simp: d2_def nth_opt_in intro!: dup2_ok)
  have "mem_read pipefd 0 (2 * (n - 1)) = Some pipefd" using p by (simp add: mem_read_def)
  then have "multi_commands pipefd n i d = Some (close_all pipefd d2)"
    unfolding multi_commands_def s1 by (simp add: s2 [simplified])
  moreover have "0 \<notin> set pipefd" "Suc 0 \<notin> set pipefd" using p by force+
  ultimately show ?thesis using assms(2) by (intro that) (auto simp: get_close_all d2_def d1_def)
qed

text \<open>The child of command \<open>i\<close> with meaning \<open>m\<close>, started by a shell with descriptors \<open>d\<close>.\<close>

definition wired :: "sh_os \<Rightarrow> nat list \<Rightarrow> nat \<Rightarrow> nat \<Rightarrow> fds \<Rightarrow> nat \<Rightarrow> meaning \<Rightarrow> child \<Rightarrow> bool" where
  "wired E pipefd b n d i m ch \<longleftrightarrow> c_argv ch = m_args m \<and>
     get_fd (c_fds ch) 0 = (if i = 0 then opened E (m_in m) File_r (get_fd d 0) else Some (Pipe_r (b + (i - 1)))) \<and>
     get_fd (c_fds ch) 1 = (if i = n - 1 then opened E (m_out m) File_w (get_fd d 1) else Some (Pipe_w (b + i))) \<and>
     (\<forall>f \<ge> 2. get_fd (c_fds ch) f = (if f \<in> set pipefd then None else get_fd d f))"

lemma run_child_wired:
  assumes "pipes_at d pipefd b n" "i < n" "\<forall>k < 2. get_fd d k \<noteq> None"
  obtains ch where "run_child E pipefd n i tokens pl d = Some ch" "wired E pipefd b n d i (view tokens pl) ch"
proof -
  obtain d' where d': "(if n > 1 then multi_commands pipefd n i d else Some d) = Some d'"
    "get_fd d' 0 = (if i = 0 then get_fd d 0 else Some (Pipe_r (b + (i - 1))))"
    "get_fd d' 1 = (if i = n - 1 then get_fd d 1 else Some (Pipe_w (b + i)))"
    "\<And>f. 2 \<le> f \<Longrightarrow> get_fd d' f = (if f \<in> set pipefd then None else get_fd d f)"
  proof (cases "n > 1")
    case True
    show ?thesis by (rule multi_commands_wired [OF assms(1,2)]) (use True in \<open>auto intro!: that\<close>)
  next
    case False
    then have "n = 1" "pipefd = []" using assms(1,2) by (auto simp: pipes_at_def)
    then show ?thesis using assms(2) by (intro that [of d]) auto
  qed
  have "get_fd d' k \<noteq> None" if "k < 2" for k
    using that assms(3) d'(2,3) by (cases "k = 0") (auto simp: less_Suc_eq numeral_2_eq_2)
  note r = get_redirection [OF _ assms(2), of d', rule_format, OF this]
  show ?thesis
  proof (rule that)
    show "run_child E pipefd n i tokens pl d = Some \<lparr>c_argv = m_args (view tokens pl),
        c_fds = redirection E (m_in (view tokens pl)) (m_out (view tokens pl)) n i d'\<rparr>"
      unfolding run_child_def d'(1) by (simp add: view_def)
  qed (use assms(2) d'(2-) in \<open>auto simp: wired_def r\<close>)
qed

section \<open>All commands of a line\<close>

lemma launch_wired:
  assumes "chained cs" "pipes_at (s_fds s) pipefd b (length cs)" "\<forall>k < 2. get_fd (s_fds s) k \<noteq> None" "\<And>k. fork_ok E k" "i < length cs"
  shows "\<exists>chs. launch (length cs - i) E pipefd (length cs) tokens cs i i s =
      Some (True, s\<lparr>s_forks := s_forks s + (length cs - i), s_children := s_children s @ chs\<rparr>) \<and>
      length chs = length cs - i \<and> (\<forall>k < length cs - i. wired E pipefd b (length cs) (s_fds s) (i + k) (view tokens (the (cs ! (i + k)))) (chs ! k))"
  using assms(2,3,5)
proof (induction "length cs - i" arbitrary: i s)
  case (Suc m)
  obtain pl where pl: "cs ! i = Some pl" "next_cmd pl = (if i < length cs - 1 then Some (i + 1) else None)"
    using assms(1) Suc.prems(3) by (auto simp: chained_def)
  obtain ch where ch: "run_child E pipefd (length cs) i tokens pl (s_fds s) = Some ch"
    "wired E pipefd b (length cs) (s_fds s) i (view tokens pl) ch"
    by (rule run_child_wired [OF Suc.prems(1,3,2)])
  define s1 where "s1 = s\<lparr>s_forks := s_forks s + 1, s_children := s_children s @ [ch]\<rparr>"
  have step: "launch (length cs - i) E pipefd (length cs) tokens cs i i s =
      (case next_cmd pl of None \<Rightarrow> Some (True, s1) | Some i' \<Rightarrow> launch m E pipefd (length cs) tokens cs (i + 1) i' s1)"
    using pl(1) ch(1) assms(4) Suc.prems(3) by (simp add: Suc(2) [symmetric] nth_opt_def s1_def Let_def split: option.split)
  show ?case
  proof (cases "i + 1 < length cs")
    case True
    have m: "m = length cs - (i + 1)" using Suc(2) by simp
    from Suc(1) [OF m, of s1] True Suc.prems obtain chs where
      "launch m E pipefd (length cs) tokens cs (i + 1) (i + 1) s1 =
        Some (True, s1\<lparr>s_forks := s_forks s1 + m, s_children := s_children s1 @ chs\<rparr>)" "length chs = m"
      "\<forall>k < m. wired E pipefd b (length cs) (s_fds s) (i + 1 + k) (view tokens (the (cs ! (i + 1 + k)))) (chs ! k)"
      by (auto simp: s1_def m)
    then show ?thesis using step pl ch(2) True Suc(2)
      by (intro exI [of _ "ch # chs"]) (auto simp: s1_def nth_Cons split: nat.split)
  next
    case False
    then have "length cs - i = 1" using Suc.prems(3) by simp
    then show ?thesis using step pl ch(2) False
      by (intro exI [of _ "[ch]"]) (auto simp: s1_def)
  qed
qed simp

text \<open>For every builder that keeps its contract, all commands of a line are started and wired.\<close>

context command_builder
begin

lemma launch_built:
  assumes "build line = Some (n, p, tokens)" "None \<notin> set (commands p)"
    and "pipes_at (s_fds s) pipefd b n" "\<forall>k < 2. get_fd (s_fds s) k \<noteq> None" "\<And>k. fork_ok E k"
  shows "\<exists>chs. launch (length (commands p)) E pipefd n tokens (commands p) 0 0 s =
      Some (True, s\<lparr>s_forks := s_forks s + n, s_children := s_children s @ chs\<rparr>) \<and>
    length chs = n \<and> (\<forall>i < n. wired E pipefd b n (s_fds s) i (view tokens (the (commands p ! i))) (chs ! i))"
proof -
  have c: "chained (commands p)" "length (commands p) = n" "n \<ge> 1" using build_chained [OF assms(1,2)] by auto
  show ?thesis using launch_wired [OF c(1) _ assms(4,5), of pipefd b 0 tokens] assms(3) c(2,3) by simp
qed

end

section \<open>The loop of main\<close>

text \<open>
  The loop that makes the pipes runs to \<open>2 * (n - 1)\<close> and not to \<open>n - 1\<close>: with two commands or more it
  writes behind the array unless a \<open>pipe\<close> fails before.
\<close>

declare make_pipes.simps [simp del]

lemma make_pipes_none [simp]: "make_pipes E n n pipefd s = Some (True, pipefd, s)"
  by (subst make_pipes.simps) simp

lemma all_less_Suc_shift: "(\<forall>k < Suc m. P k) \<longleftrightarrow> P 0 \<and> (\<forall>k < m. P (Suc k))"
  by (auto simp: less_Suc_eq_0_disj)

lemma make_pipes_overflow:
  assumes "2 \<le> n" "i < n" "length pipefd = 2 * (n - 1)"
  shows "if \<forall>k < n - i. pipe_ok E (s_pipes s + k) then make_pipes E i (2 * (n - 1)) pipefd s = None
    else \<exists>pf s'. make_pipes E i (2 * (n - 1)) pipefd s = Some (False, pf, s') \<and> s_children s' = s_children s"
  using assms
proof (induction "n - i" arbitrary: i pipefd s)
  case (Suc m)
  have i: "i < 2 * (n - 1)" using Suc.prems by simp
  show ?case
  proof (cases "pipe_ok E (s_pipes s)")
    case False
    then have "\<not> (\<forall>k < n - i. pipe_ok E (s_pipes s + k))" using Suc.prems(2) by (auto intro!: exI [of _ 0])
    moreover have "make_pipes E i (2 * (n - 1)) pipefd s = Some (False, pipefd, s\<lparr>s_pipes := s_pipes s + 1\<rparr>)"
      using False i by (subst make_pipes.simps) simp
    ultimately show ?thesis by simp
  next
    case ok: True
    obtain r w d where sp: "sys_pipe (s_pipes s) (s_fds s) = (r, w, d)" by (cases "sys_pipe (s_pipes s) (s_fds s)")
    show ?thesis
    proof (cases "i < n - 1")
      case True
      define pf where "pf = pipefd[i * 2 := r, i * 2 + 1 := w]"
      define s1 where "s1 = s\<lparr>s_fds := d, s_pipes := s_pipes s + 1\<rparr>"
      have step: "make_pipes E i (2 * (n - 1)) pipefd s = make_pipes E (i + 1) (2 * (n - 1)) pf s1"
        using ok i sp True Suc.prems(3) by (subst make_pipes.simps) (simp add: upd_opt_def pf_def s1_def)
      have "(\<forall>k < n - i. pipe_ok E (s_pipes s + k)) \<longleftrightarrow> (\<forall>k < n - (i + 1). pipe_ok E (s_pipes s1 + k))"
        using ok True all_less_Suc_shift [of "n - (i + 1)" "\<lambda>k. pipe_ok E (s_pipes s + k)"] by (simp add: s1_def Suc_diff_Suc)
      moreover have "s_children s1 = s_children s" by (simp add: s1_def)
      moreover have "m = n - (i + 1)" "i + 1 < n" "length pf = 2 * (n - 1)" using Suc(2) Suc.prems True by (simp_all add: pf_def)
      ultimately show ?thesis using Suc(1) [of "i + 1" pf s1] Suc.prems(1) unfolding step
        by (auto split: if_splits)
    next
      case False
      then have e: "i = n - 1" using Suc.prems(2) by simp
      then have "make_pipes E i (2 * (n - 1)) pipefd s = None"
        using ok i sp Suc.prems(3) by (subst make_pipes.simps) (simp add: upd_opt_def mult.commute [of 2])
      moreover have "\<forall>k < n - i. pipe_ok E (s_pipes s + k)" using e ok Suc.prems(2) by auto
      ultimately show ?thesis by simp
    qed
  qed
qed simp

text \<open>A line with one command starts one child, and waits for it or installs the handler.\<close>

lemma shell_line_single:
  assumes "pipeline_build M line = Some (Suc 0, p, tokens)" "commands p = [Some pl]" "next_cmd pl = None"
    and "\<And>k. fork_ok E k" "\<forall>k < 2. get_fd (s_fds s) k \<noteq> None"
  obtains ch where "wired E [] 0 1 (s_fds s) 0 (view tokens pl) ch"
    "shell_line E M line s = Some (Continue (s\<lparr>s_forks := s_forks s + 1, s_children := s_children s @ [ch],
       s_waits := s_waits s + (if is_background p then 0 else 1), s_handler := s_handler s \<or> is_background p\<rparr>))"
proof -
  have "pipes_at (s_fds s) [] 0 (Suc 0)" by (simp add: pipes_at_def)
  then obtain ch where ch: "run_child E [] (Suc 0) 0 tokens pl (s_fds s) = Some ch" "wired E [] 0 1 (s_fds s) 0 (view tokens pl) ch"
    by (rule run_child_wired [where i = 0]) (use assms(5) in \<open>auto simp del: One_nat_def simp: One_nat_def [symmetric]\<close>)
  have "launch (Suc 0) E [] (Suc 0) tokens (commands p) 0 0 s =
      Some (True, s\<lparr>s_forks := s_forks s + 1, s_children := s_children s @ [ch]\<rparr>)"
    using ch(1) assms(2-4) by (simp add: nth_opt_def)
  then show ?thesis using assms(1,2)
    by (intro that [OF ch(2)]) (simp add: shell_line_def mem_read_def Let_def del: launch.simps)
qed

text \<open>A line of one command, \<open>job\<close> its items and whether it ends with an ampersand.\<close>

definition job_line :: "string \<Rightarrow> item list \<times> bool \<Rightarrow> bool" where
  "job_line line job \<longleftrightarrow> CHR 0x00 \<notin> set line \<and> length line < MAX_LINE_LENGTH \<and> lex_closed line = line_tokens [fst job] (snd job) \<and>
     items_ok (fst job) \<and> (snd job \<or> fst job \<noteq> [])"

lemma parsed_job:
  assumes "\<And>j. M j = []" "job_line line job"
  obtains p pl where "pipeline_build M line = Some (Suc 0, p, line_tokens [fst job] (snd job))" "commands p = [Some pl]"
    "next_cmd pl = None" "view (line_tokens [fst job] (snd job)) pl = meaning_of (fst job)" "is_background p = snd job"
proof -
  note j = assms(2) [unfolded job_line_def]
  define tokens where "tokens = line_tokens [fst job] (snd job)"
  have "length line \<le> MAX_ARGV_LENGTH * MAX_LINE_LENGTH div 8" using j by (simp add: MAX_ARGV_LENGTH_def MAX_LINE_LENGTH_def)
  then obtain p where p: "pipeline_build M line = Some (Suc 0, p, tokens)"
    "map (map_option (view tokens)) (commands p) = [Some (meaning_of (fst job))]" "is_background p = snd job"
    using pipeline_build_tokens [of M line "[fst job]" "snd job"] assms(1) j unfolding tokens_def by auto
  then obtain pl where pl: "commands p = [Some pl]" "view tokens pl = meaning_of (fst job)" by auto
  then show ?thesis using pipeline_build_chained(1) [OF p(1)] p
    by (intro that) (auto simp: chained_def tokens_def simp del: line_tokens.simps)
qed

lemma shell_line_job:
  assumes "\<And>j. M j = []" "job_line line job" "\<And>k. fork_ok E k" "\<forall>k < 2. get_fd (s_fds s) k \<noteq> None"
  obtains ch where "wired E [] 0 1 (s_fds s) 0 (meaning_of (fst job)) ch"
    "shell_line E M line s = Some (Continue (s\<lparr>s_forks := s_forks s + 1, s_children := s_children s @ [ch],
       s_waits := s_waits s + (if snd job then 0 else 1), s_handler := s_handler s \<or> snd job\<rparr>))"
proof (rule parsed_job [OF assms(1,2)])
  fix p pl assume p: "pipeline_build M line = Some (Suc 0, p, line_tokens [fst job] (snd job))" "commands p = [Some pl]"
    "next_cmd pl = None" "view (line_tokens [fst job] (snd job)) pl = meaning_of (fst job)" "is_background p = snd job"
  show thesis by (rule shell_line_single [OF p(1-3) assms(3,4)]) (use p(4,5) in \<open>auto intro: that\<close>)
qed

lemma shell_main_end:
  assumes "\<And>k j. M k j = []" "job_line line job"
  shows "shell_main E M k (Some line) [] s = Some (0, s)"
proof (rule parsed_job [OF assms(1) [of k] assms(2)])
  fix p pl assume p: "pipeline_build (M k) line = Some (Suc 0, p, line_tokens [fst job] (snd job))" "commands p = [Some pl]"
  obtain heap where "pipeline_free p [0..<length (line_tokens [fst job] (snd job))] = Some heap"
    using parser.build_free [OF p(1)] p(2) by auto
  then show ?thesis using p(1) by (simp del: line_tokens.simps)
qed

lemma shell_main_jobs:
  assumes M: "\<And>k j. M k j = []" and "\<And>k. fork_ok E k" "\<forall>k < 2. get_fd (s_fds s) k \<noteq> None" "list_all2 job_line lines jobs"
    and "lines = [] \<Longrightarrow> \<exists>line job. buffer = Some line \<and> job_line line job"
  shows "\<exists>s' chs. shell_main E M k buffer lines s = Some (0, s') \<and> s_fds s' = s_fds s \<and> s_children s' = s_children s @ chs \<and>
    list_all2 (\<lambda>job. wired E [] 0 1 (s_fds s) 0 (meaning_of (fst job))) jobs chs \<and>
    s_waits s' = s_waits s + length (filter (\<lambda>job. \<not> snd job) jobs) \<and> (s_handler s' \<longleftrightarrow> s_handler s \<or> (\<exists>job \<in> set jobs. snd job))"
  using assms(3-)
proof (induction lines arbitrary: k buffer s jobs)
  case Nil
  then obtain line job where "buffer = Some line" "job_line line job" by blast
  then show ?case using shell_main_end [of M, OF M, of line job E k s] Nil by auto
next
  case (Cons line lines)
  then obtain job js where j: "jobs = job # js" "job_line line job" "list_all2 job_line lines js" by (auto simp: list_all2_Cons1)
  obtain ch where ch: "wired E [] 0 1 (s_fds s) 0 (meaning_of (fst job)) ch"
    "shell_line E (M k) line s = Some (Continue (s\<lparr>s_forks := s_forks s + 1, s_children := s_children s @ [ch],
       s_waits := s_waits s + (if snd job then 0 else 1), s_handler := s_handler s \<or> snd job\<rparr>))"
    by (rule shell_line_job [OF M j(2) assms(2) Cons.prems(1)])
  define s1 where "s1 = s\<lparr>s_forks := s_forks s + 1, s_children := s_children s @ [ch],
       s_waits := s_waits s + (if snd job then 0 else 1), s_handler := s_handler s \<or> snd job\<rparr>"
  have step: "shell_main E M k buffer (line # lines) s = shell_main E M (k + 1) (Some line) lines s1"
    using ch(2) by (simp add: s1_def)
  have open1: "\<forall>k < 2. get_fd (s_fds s1) k \<noteq> None" using Cons.prems(1) by (simp add: s1_def)
  obtain s' chs where "shell_main E M (k + 1) (Some line) lines s1 = Some (0, s')" "s_fds s' = s_fds s1"
    "s_children s' = s_children s1 @ chs" "list_all2 (\<lambda>job. wired E [] 0 1 (s_fds s1) 0 (meaning_of (fst job))) js chs"
    "s_waits s' = s_waits s1 + length (filter (\<lambda>job. \<not> snd job) js)" "s_handler s' \<longleftrightarrow> s_handler s1 \<or> (\<exists>job \<in> set js. snd job)"
    using Cons.IH [OF open1 j(3), of "Some line" "k + 1"] j(2) by blast
  then show ?case unfolding step
    by (intro exI [of _ s'] exI [of _ "ch # chs"]) (use ch(1) in \<open>auto simp: s1_def j(1)\<close>)
qed

text \<open>The handler collects children until \<open>waitpid\<close> reports none.\<close>

lemma handle_child_drops: "handle_child pids = tl (dropWhile (\<lambda>pid. pid > 0) pids)"
  by (induction pids) auto

end
