(* ===== verification/Shell_Props.thy ===== *)
theory Shell_Props
  imports Shell_Exec_Facts
begin

text \<open>The properties of the shell, and a small system on which they apply.\<close>

definition all_ok :: sh_os where
  "all_ok = \<lparr>open_ok = (\<lambda>name. True), pipe_ok = (\<lambda>k. True), fork_ok = (\<lambda>k. True)\<rparr>"

definition shell_with :: "fds \<Rightarrow> shell" where
  "shell_with d = \<lparr>s_fds = d, s_pipes = 0, s_forks = 0, s_children = [], s_waits = 0, s_handler = False\<rparr>"

definition std_fds :: fds where
  "std_fds = [Some (Stream 0), Some (Stream 1), Some (Stream 2)]"

definition a_to_b :: pipeline where
  "a_to_b = \<lparr>commands = [Some \<lparr>command_args = [0], redirect_in_path = None, redirect_out_path = None, next_cmd = Some 1\<rparr>,
      Some \<lparr>command_args = [2], redirect_in_path = None, redirect_out_path = None, next_cmd = None\<rparr>], is_background = False\<rparr>"

lemma build_a_to_b: "pipeline_build zero_behind (''a|b'' @ [CHR 0x0A]) = Some (2, a_to_b, [''a'', ''|'', ''b''])"
  unfolding a_to_b_def zero_behind_def by (simp add: parse_eval zero_behind_def)

lemmas shell_eval = all_ok_def shell_with_def std_fds_def a_to_b_def wired_def view_def opened_def

lemma std_fds_open: "\<forall>k < 2. get_fd (s_fds (shell_with (std_fds @ d))) k \<noteq> None"
  by (auto simp: shell_with_def std_fds_def less_Suc_eq numeral_2_eq_2)

text \<open>
  C33. A session of lines with one command each: the shell ends with 0 at the end of the input, having
  started one child per line, in order, with the arguments and redirections of the line. It waited
  once for every line without an ampersand and has the handler installed if there was one; its own
  descriptors are unchanged.
\<close>

theorem shell_session:
  assumes "\<And>k j. M k j = []" and "\<And>k. fork_ok E k" and "\<forall>k < 2. get_fd (s_fds s) k \<noteq> None"
    and "lines \<noteq> []" and "list_all2 job_line lines jobs"
  shows "\<exists>s' chs. shell_main E M 0 None lines s = Some (0, s') \<and> s_fds s' = s_fds s \<and> s_children s' = s_children s @ chs \<and>
    list_all2 (\<lambda>job. wired E [] 0 1 (s_fds s) 0 (meaning_of (fst job))) jobs chs \<and>
    s_waits s' = s_waits s + length (filter (\<lambda>job. \<not> snd job) jobs) \<and> (s_handler s' \<longleftrightarrow> s_handler s \<or> (\<exists>job \<in> set jobs. snd job))"
  by (rule shell_main_jobs [OF assms(1-3,5)]) (use assms(4) in simp)

theorem shell_session_witness:
  "\<exists>s' c0 c1. shell_main all_ok (\<lambda>k. zero_behind) 0 None [''ls -l>o'' @ [CHR 0x0A], ''wc&''] (shell_with std_fds) = Some (0, s') \<and>
     s_children s' = [c0, c1] \<and> c_argv c0 = [''ls'', ''-l''] \<and> get_fd (c_fds c0) 1 = Some (File_w ''o'') \<and>
     c_argv c1 = [''wc''] \<and> s_waits s' = 1 \<and> s_handler s'"
proof -
  define jobs where "jobs = [([Arg ''ls'', Arg ''-l'', Out ''o''], False), ([Arg ''wc''], True)]"
  have "list_all2 job_line [''ls -l>o'' @ [CHR 0x0A], ''wc&''] jobs"
    by (simp add: jobs_def job_line_def MAX_ARGV_LENGTH_def MAX_LINE_LENGTH_def lex_closed_def word_char_def isWhiteSpace_def isSpecialToken_def
      cmd_tokens_def items_ok_def plain_def)
  from shell_session [OF _ _ std_fds_open [of "[]", unfolded append_Nil2] _ this, of "\<lambda>k. zero_behind" all_ok]
  show ?thesis by (auto simp: zero_behind_def jobs_def list_all2_Cons1 shell_eval meaning_of_def simp del: shell_main.simps)
qed

text \<open>
  C34. No line with a pipe is executed: \<open>main\<close> makes twice as many pipes as its array has room for,
  so with two commands or more it either writes behind the array, exactly when as many calls of
  \<open>pipe\<close> succeed as there are commands, or it returns 0, and starts no child.
\<close>

theorem pipes_overflow:
  assumes "pipeline_build M line = Some (n, p, tokens)" and "2 \<le> n"
  shows "if \<forall>k < n. pipe_ok E (s_pipes s + k) then shell_line E M line s = None
    else \<exists>s'. shell_line E M line s = Some (Return 0 s') \<and> s_children s' = s_children s"
proof -
  have "if \<forall>k < n. pipe_ok E (s_pipes s + k) then make_pipes E 0 (2 * (n - 1)) (replicate (2 * (n - 1)) 0) s = None
      else \<exists>pf s'. make_pipes E 0 (2 * (n - 1)) (replicate (2 * (n - 1)) 0) s = Some (False, pf, s') \<and> s_children s' = s_children s"
    using make_pipes_overflow [OF assms(2), of 0 "replicate (2 * (n - 1)) 0" E s] assms(2) unfolding diff_zero by auto
  then show ?thesis using assms(1) by (auto simp: shell_line_def split: if_splits)
qed

theorem pipes_overflow_witness: "shell_line all_ok zero_behind (''a|b'' @ [CHR 0x0A]) (shell_with std_fds) = None"
  using pipes_overflow [OF build_a_to_b, of all_ok "shell_with std_fds"] by (simp add: all_ok_def)

end
