(* ===== verification/Spec2Isabelle.thy ===== *)
theory Spec2Isabelle
  imports Fs_Props Draft_Props Thread_Entry Thread_Lib_Props Thread_Sync_Props Tls_Props Shell_Parse_Props Shell_Props
begin

text \<open>
  Verification of the five programs of the repository: a shell, a thread library, the same library
  with mutexes and barriers, thread local storage, and a file system. Each is a C program of its own
  under \<open>src/\<close>; they do not call each other. All theories share \<open>Prelude\<close>.

  \<^bold>\<open>Conventions.\<close> A function of the C code is one definition of the same name, with the state it
  changes passed in and out; a loop is a recursive function of its own, named after what it does. A
  result \<open>None\<close> is undefined behaviour of the C code (an index outside its array, a dereference of
  \<open>NULL\<close> or of a freed block, a copy past the end of a buffer), never an error return: those are the
  return values of the source. So a theorem with \<open>= Some \<dots>\<close> says that the call is defined and returns.
  Fixed-width integers are words where their width matters.

  \<^bold>\<open>File system\<close> (\<open>file_systems/src/fs.c\<close>, \<open>fs.h\<close>, \<open>disk.h\<close>).
  \<^item> \<open>Bitmap\<close>: \<open>get_bit\<close>, \<open>set_bit_bm\<close> (\<open>set_bit\<close>), \<open>clear_bit\<close>, \<open>find_free_bit\<close>; the locale
    \<open>bit_allocator\<close> is what the other operations need of them.
  \<^item> \<open>Layout\<close>: the structures of \<open>fs.h\<close> and their bytes on disk, with decoding of what was encoded.
  \<^item> \<open>Disk_Iface\<close>: the five functions of \<open>disk.h\<close> have no source in the repository and are a parameter
    with the contract \<open>disk_dev\<close>; a disk in memory meets it.
  \<^item> \<open>Fs_State\<close>, \<open>Fs_Mount\<close>, \<open>Fs_Dir\<close>, \<open>Fs_Io\<close>: the globals as a record, and \<open>make_fs\<close>, \<open>mount_fs\<close>,
    \<open>umount_fs\<close>, the operations on names and descriptors, \<open>fs_read\<close> and \<open>fs_write\<close>.
  \<^item> \<open>Fs_Dir_Spec\<close>, \<open>Fs_Read_Spec\<close>, \<open>Fs_Write_Spec\<close>, \<open>Fs_Write_Content\<close>, \<open>Fs_Steps\<close>, \<open>Fs_Files\<close>: the
    directory as a map from names to inodes, the content of a file as a byte string, histories of
    calls, and what each operation does in these terms. \<open>Fs_Props\<close> has the properties: what is
    unmounted is mounted again, writing and reading back, an invariant of the histories, isolation of
    files, and the effect of create, delete, open, truncate and list. \<open>Fs_Example\<close> serves the witnesses.
    The theorems about writing have the condition \<open>write_ok\<close> of \<open>Fs_Files\<close>: the write starts in the direct
    blocks and runs on into the indirect block only if the file has none yet or from its first block.
    For a file that has an indirect block the code mostly moves no byte from behind the direct blocks
    and can overwrite the superblock; both are theorems of their own. So is the empty name, which
    \<open>fs_open\<close> and \<open>fs_delete\<close> take for that of an unused entry; the histories leave these two calls out.
  \<^item> \<open>Draft_Fs\<close>, \<open>Draft_Props\<close>: \<open>file_systems/src/disk.c\<close>, an earlier version of \<open>fs.c\<close> under the name of the
    disk driver. Its functions that differ have the prefix \<open>draft\<close>; the others are the same text. The
    search sees 64 blocks only and agrees with that of \<open>fs.c\<close> there, deleting clears the wrong bits, and
    writing never marks a block, so that up to 25 blocks of data of a new file end up in one block.

  \<^bold>\<open>Threads\<close> (\<open>thread_library/src\<close>, \<open>thread_synchronization/src\<close>).
  \<^item> \<open>Tcb_Ring\<close>: control blocks in a heap, the ring of their links, the search for a ready thread (bounded
    by the loop of the source), \<open>scheduler_init\<close> and what creation shares.
  \<^item> \<open>Thread_Entry\<close>: the environment of a new thread, \<open>longjmp\<close> into it and the instructions of
    \<open>start_thunk\<close> from \<open>ec440threads.h\<close>.
  \<^item> \<open>Thread_Library\<close> and \<open>Thread_Sync\<close>: the two libraries function by function, each with the scheduler
    of its own file.
  \<^item> \<open>Fair_Sched\<close>: bounded waiting as a locale, interpreted for both libraries.
  \<^item> \<open>Thread_Sync_Sched\<close>, \<open>Thread_Sync_Inv\<close>, \<open>Thread_Sync_Steps\<close>, \<open>Thread_Sync_Props\<close>,
    \<open>Thread_Lib_Props\<close>: the scheduler as a rotation of the ring, histories as a step relation with their
    invariant, mutual exclusion, bounded waiting, barriers, the hand-over of a mutex, agreement of the
    two schedulers, and the cases where a thread is lost, a lock returns without the mutex, or an
    alarm in the first \<open>pthread_create\<close> leaves no current thread. Who holds a mutex is read off the
    results of the calls; the histories leave out misuse of mutexes and barriers and the calls that
    have to wait while no other thread is ready, whose effect is shown separately.

  \<^bold>\<open>Thread local storage\<close> (\<open>thread_local_storage/src/tls.c\<close>, \<open>tls.h\<close>).
  \<^item> \<open>Tls\<close>: every function, on a heap of areas and pages and an address space with protected pages. Which
    calls of the operating system succeed is a parameter.
  \<^item> \<open>Tls_Spec\<close>, \<open>Tls_Cow\<close>, \<open>Tls_Write\<close>, \<open>Tls_Area\<close>, \<open>Tls_New\<close>, \<open>Tls_Refine\<close>: the byte string of each
    thread as the abstraction, the invariant, copy on write, and each call against its specification;
    \<open>Call_Refinement\<close> lifts this to sequences of calls.
  \<^item> \<open>Tls_Props\<close>: refinement of one private byte string per thread, and the error paths.

  \<^bold>\<open>Shell\<close> (\<open>simple_shell/src/myshell_parser.c\<close>, \<open>myshell_parser.h\<close>, \<open>myshell.c\<close>).
  \<^item> \<open>Shell_Lex\<close>, \<open>Shell_Parse\<close>: the tokenizer, \<open>pipeline_build\<close> and \<open>pipeline_free\<close>. Tokens are not
    terminated, so what is read behind each block is a parameter; the theorems about the meaning of a
    line assume a zero byte there, one theorem shows what happens otherwise.
  \<^item> \<open>Shell_Parse_Spec\<close>, \<open>Shell_Parse_Facts\<close>, \<open>Shell_Parse_Props\<close>: the reference tokenizer, the meaning of a
    command line, the room in the arrays, and the blocks that are freed.
    The locale \<open>command_builder\<close> is what the shell needs of its parser.
  \<^item> \<open>Shell_Exec\<close>, \<open>Shell_Exec_Facts\<close>, \<open>Shell_Props\<close>: \<open>redirection\<close>, \<open>multi_commands\<close> and the loop of \<open>main\<close>
    on tables of descriptors; the descriptors of each child, sessions of one-command lines, and that a
    line with a pipe overflows the array of descriptors before any command is started.

  \<^bold>\<open>Termination and bounds.\<close> Every definition is total. Loops that count have a measure. The walks
  along \<open>next\<close> pointers in the shell (\<open>launch\<close>, \<open>free_cmds\<close>) are bounded by the number of commands, and
  the theorems about them show that this is enough. A call that waits for a mutex of thread local
  storage that nobody can release has the result \<open>Stuck\<close>.

  \<^bold>\<open>Not modelled.\<close>
  \<^item> The virtual disk itself: no file of the repository defines the functions of \<open>disk.h\<close>.
  \<^item> Interleavings inside a library call: a call is one step, the one case above excepted. The
    synchronization library hides the alarm in its mutex and barrier calls; \<open>pthread_create\<close> does not.
  \<^item> \<open>setjmp\<close>, \<open>longjmp\<close> on running threads, signals, \<open>fork\<close> and \<open>execvp\<close> themselves: the operating system
    and the C library. The order in which child processes run, the prompt and messages of \<open>perror\<close>.
  \<^item> Failing \<open>malloc\<close> in the file system and in the shell, and the zero byte that \<open>strcpy\<close> writes one past
    the copy of the command line, on every line.
  \<^item> The copies of \<open>ec440threads.h\<close> beside the other two libraries, and the test programs.
\<close>

end
